(* ===== verification/Prelude.thy ===== *)
theory Prelude
  imports Main "HOL-Library.Word"
begin

unbundle bit_operations_syntax

text \<open>
  Shared vocabulary of the development: names for the machine types of a 64-bit build of the
  virtual machine, the integer limits of \<^verbatim>\<open>platform/globals.h\<close>, the two's complement
  conversions the C++ code relies on, and the facts about lists and words that several
  components need.
\<close>

section \<open>Machine types\<close>

type_synonym u8 = "8 word"
type_synonym u16 = "16 word"
type_synonym u32 = "32 word"
type_synonym uword = "64 word"

text \<open>The limits of \<^verbatim>\<open>platform/globals.h\<close> and \<^verbatim>\<open>vm/globals.h\<close>, collected in
  \<open>limits\<close> so that arithmetic proofs unfold them in one go.\<close>

named_theorems limits \<open>the integer limits of the 64-bit build\<close>

definition kMinInt32 :: int where [limits]: "kMinInt32 = - (2 ^ 31)"
definition kMaxInt32 :: int where [limits]: "kMaxInt32 = 2 ^ 31 - 1"
definition kMinInt64 :: int where [limits]: "kMinInt64 = - (2 ^ 63)"
definition kMaxInt64 :: int where [limits]: "kMaxInt64 = 2 ^ 63 - 1"
definition kSmiMax :: int where [limits]: "kSmiMax = 2 ^ 62 - 1"
definition kSmiMin :: int where [limits]: "kSmiMin = - (2 ^ 62)"


text \<open>A signed quantity is an \<^typ>\<open>int\<close>. A value of type \<open>int64_t\<close> lies in
  \<open>is_int64\<close>; \<open>int64\<close> is the conversion to that type, which reduces modulo
  \<open>2 ^ 64\<close> into the signed range and so also describes wrap-around.\<close>

definition is_int64 :: "int \<Rightarrow> bool" where
  "is_int64 x \<longleftrightarrow> kMinInt64 \<le> x \<and> x \<le> kMaxInt64"

definition int64 :: "int \<Rightarrow> int" where
  "int64 x = (x + 2 ^ 63) mod 2 ^ 64 - 2 ^ 63"

definition int32 :: "int \<Rightarrow> int" where
  "int32 x = (x + 2 ^ 31) mod 2 ^ 32 - 2 ^ 31"

lemma is_int64_int64 [simp, intro]: "is_int64 (int64 x)"
proof -
  have "0 \<le> (x + 2 ^ 63) mod 2 ^ 64" "(x + 2 ^ 63) mod 2 ^ 64 < (2::int) ^ 64"
    by simp_all
  then show ?thesis by (simp add: is_int64_def int64_def limits)
qed

lemma int64_id [simp]: "is_int64 x \<Longrightarrow> int64 x = x"
  by (simp add: is_int64_def int64_def limits)

lemma int64_eq_iff: "int64 x = x \<longleftrightarrow> is_int64 x"
  by (metis int64_id is_int64_int64)

section \<open>Lists\<close>

lemma nth_list_update_if:
  "i < length xs \<Longrightarrow> xs[i := v] ! j = (if i = j then v else xs ! j)"
  by (simp add: nth_list_update)

lemma map_nth_range: "map (\<lambda>i. xs ! i) [0..<length xs] = xs"
  by (rule map_nth)

section \<open>Words\<close>

lemma word_and_mask_pow2:
  fixes x :: "'a::len word"
  shows "x AND (2 ^ k - 1) = take_bit k x"
  by (simp add: take_bit_eq_mask mask_eq_exp_minus_1)

lemma unat_pow2:
  assumes "k < LENGTH('a::len)"
  shows "unat (2 ^ k :: 'a word) = 2 ^ k"
  using unat_of_nat [where 'a = 'a, of "2 ^ k"] assms by simp

lemma unat_and_pow2_minus_1:
  fixes x :: "'a::len word"
  shows "unat (x AND (2 ^ k - 1)) = unat x mod 2 ^ k"
  by (simp only: word_and_mask_pow2 unsigned_take_bit_eq) (simp add: take_bit_eq_mod)

lemma word_eq_of_unat: "unat w = n \<Longrightarrow> w = of_nat n"
  by auto

lemma bit_pow2_word:
  "bit (2 ^ n :: 'a::len word) m \<longleftrightarrow> n = m \<and> m < LENGTH('a)"
  by (auto simp: bit_exp_iff)

lemma word_and_single_bit:
  fixes x :: "'a::len word"
  shows "(x AND push_bit n 1 \<noteq> 0) \<longleftrightarrow> bit x n"
  by (simp add: bit_iff_and_push_bit_not_eq_0)

lemma word_neq_0_bit: "(x :: 'a::len word) \<noteq> 0 \<longleftrightarrow> (\<exists>i < LENGTH('a). bit x i)"
  by (auto simp: bit_eq_iff)

lemma unat_bit_iff: "bit (unat (x :: 'a::len word)) n \<longleftrightarrow> bit x n"
  by (simp add: bit_unsigned_iff)

lemma nat_log2_ex:
  assumes "0 < (n::nat)"
  obtains k where "2 ^ k \<le> n" "n < 2 ^ Suc k"
  using assms ex_power_ivl1 [of 2 n] by auto

lemma nat_bit_top:
  assumes "2 ^ k \<le> (n::nat)" "n < 2 ^ Suc k"
  shows "bit n k"
proof -
  have "n div 2 ^ k = 1"
    using assms by (auto intro!: div_nat_eqI)
  then show ?thesis by (simp add: bit_iff_odd)
qed

lemma word_minus_take_bit:
  fixes x :: "'a::len word"
  shows "x AND - (2 ^ k) = x - take_bit k x"
proof -
  have neg: "- (2 ^ k) = (NOT (mask k) :: 'a word)"
    by (simp add: mask_eq_exp_minus_1 not_eq_complement)
  have "x AND NOT (mask k) OR take_bit k x = x"
    by (rule bit_word_eqI) (auto simp: bit_simps)
  moreover have "(x AND NOT (mask k)) AND take_bit k x = 0"
    by (rule bit_word_eqI) (auto simp: bit_simps)
  ultimately have "(x AND NOT (mask k)) + take_bit k x = x"
    by (simp add: disjunctive_add_eq_or)
  then show ?thesis by (simp add: neg algebra_simps)
qed

end
