(* ===== verification/Probing.thy ===== *)
theory Probing
  imports Prelude "HOL-Library.Multiset"
begin

text \<open>
  Open addressing with linear probing. Two tables of the virtual machine are arrays searched
  from an entry's home slot, one slot after the other and around the end, up to the first slot
  that was never used: \<open>HashMap\<close> (\<^verbatim>\<open>platform/hashmap.cc\<close>) and \<open>PortMap\<close>
  (\<^verbatim>\<open>vm/port.cc\<close>). The search loop and the facts the two tables share are stated here once, over an interface that says
  which slots are unused, which hold an entry and where an entry's search starts.
\<close>

section \<open>Positions on a cycle\<close>

definition cdist :: "nat \<Rightarrow> nat \<Rightarrow> nat \<Rightarrow> nat" where
  "cdist n i j = (if i \<le> j then j - i else j + n - i)"

lemma cdist_self [simp]: "cdist n i i = 0"
  by (simp add: cdist_def)

lemma cdist_less: "i < n \<Longrightarrow> j < n \<Longrightarrow> cdist n i j < n"
  by (auto simp: cdist_def)

lemma add_cdist_mod: "i < n \<Longrightarrow> j < n \<Longrightarrow> (i + cdist n i j) mod n = j"
  by (auto simp: cdist_def)

lemma cdist_unique: "i < n \<Longrightarrow> d < n \<Longrightarrow> (i + d) mod n = j \<Longrightarrow> cdist n i j = d"
  by (auto simp: cdist_def mod_if split: if_splits)

lemma cdist_add_mod: "i < n \<Longrightarrow> d < n \<Longrightarrow> cdist n i ((i + d) mod n) = d"
  by (rule cdist_unique) simp_all

lemma cdist_Suc_mod:
  assumes "i < n" "j < n" "Suc j mod n \<noteq> i"
  shows "cdist n i (Suc j mod n) = Suc (cdist n i j)"
  using assms by (auto simp: cdist_def mod_if split: if_splits)

lemma cdist_through:
  assumes "h < n" "c < n" "j < n" "cdist n h c < cdist n h j"
  shows "cdist n h j = cdist n h c + cdist n c j"
  using assms by (auto simp: cdist_def split: if_splits)

lemma cdist_inj: "i < n \<Longrightarrow> j < n \<Longrightarrow> k < n \<Longrightarrow> cdist n i j = cdist n i k \<Longrightarrow> j = k"
  by (auto simp: cdist_def split: if_splits)

lemma cdist_pos: "i < n \<Longrightarrow> j < n \<Longrightarrow> i \<noteq> j \<Longrightarrow> 0 < cdist n i j"
  by (auto simp: cdist_def)

lemma cdist_step:
  assumes "c < n" "nx < n" "u < n" "cdist n c nx < cdist n c u"
  shows "cdist n c (Suc nx mod n) = Suc (cdist n c nx)" "Suc nx mod n \<noteq> c"
    "cdist n nx u = Suc (cdist n (Suc nx mod n) u)"
  using assms by (auto simp: cdist_def mod_if split: if_splits)

section \<open>The search loop\<close>

text \<open>The loop of all three tables: stop at the first slot that satisfies \<open>stop\<close>, else step
  to the next one. It need not end, and reading outside the array is undefined: both are
  \<open>None\<close>.\<close>

partial_function (option) probe_loop ::
    "('s \<Rightarrow> bool) \<Rightarrow> (nat \<Rightarrow> nat) \<Rightarrow> 's list \<Rightarrow> nat \<Rightarrow> nat option" where
  "probe_loop stop step a i =
     (if i < length a
      then if stop (a ! i) then Some i else probe_loop stop step a (step i)
      else None)"

lemma probe_loop_reaches:
  assumes "\<And>i. i < length a \<Longrightarrow> step i = Suc i mod length a"
    and "i < length a"
    and "stop (a ! ((i + d) mod length a))"
    and "\<And>e. e < d \<Longrightarrow> \<not> stop (a ! ((i + e) mod length a))"
  shows "probe_loop stop step a i = Some ((i + d) mod length a)"
  using assms(2-)
proof (induction d arbitrary: i)
  case 0
  then show ?case by (subst probe_loop.simps) simp
next
  case (Suc d)
  have shift: "(Suc i mod length a + e) mod length a = (i + Suc e) mod length a" for e
    by (simp add: mod_add_left_eq)
  have "\<not> stop (a ! i)" using Suc.prems(1,3) by (metis Nat.add_0_right mod_less zero_less_Suc)
  then have "probe_loop stop step a i = probe_loop stop step a (Suc i mod length a)"
    using Suc.prems(1) assms(1) by (subst probe_loop.simps) simp
  also have "\<dots> = Some ((Suc i mod length a + d) mod length a)"
  proof (rule Suc.IH)
    show "Suc i mod length a < length a" using Suc.prems(1) by (intro mod_less_divisor) linarith
    show "stop (a ! ((Suc i mod length a + d) mod length a))"
      using Suc.prems(2) by (simp only: shift)
    show "\<not> stop (a ! ((Suc i mod length a + e) mod length a))" if "e < d" for e
      unfolding shift using that by (intro Suc.prems(3)) simp
  qed
  finally show ?case by (simp only: shift)
qed

lemma first_on_cycle:
  assumes "i < n" "j < n" "Q j"
  obtains d where "d \<le> cdist n i j" "Q ((i + d) mod n)" "\<And>e. e < d \<Longrightarrow> \<not> Q ((i + e) mod n)"
proof -
  define d where "d = (LEAST d. Q ((i + d) mod n))"
  have q: "Q ((i + cdist n i j) mod n)" using assms by (simp add: add_cdist_mod)
  show thesis
  proof
    show "d \<le> cdist n i j" unfolding d_def using q by (rule Least_le)
    show "Q ((i + d) mod n)" unfolding d_def using q by (rule LeastI)
    show "\<not> Q ((i + e) mod n)" if "e < d" for e
      using that unfolding d_def by (rule not_less_Least)
  qed
qed

lemma probe_loop_finds:
  assumes "\<And>i. i < length a \<Longrightarrow> step i = Suc i mod length a"
    and "i < length a" "j < length a" "stop (a ! j)"
  obtains p where "p < length a" "probe_loop stop step a i = Some p" "stop (a ! p)"
    "cdist (length a) i p \<le> cdist (length a) i j"
    "\<And>e. e < cdist (length a) i p \<Longrightarrow> \<not> stop (a ! ((i + e) mod length a))"
proof -
  from first_on_cycle [of i "length a" j "\<lambda>k. stop (a ! k)"] assms(2-4)
  obtain d where d: "d \<le> cdist (length a) i j" "stop (a ! ((i + d) mod length a))"
    "\<And>e. e < d \<Longrightarrow> \<not> stop (a ! ((i + e) mod length a))" by blast
  define p where "p = (i + d) mod length a"
  have "d < length a" using d(1) cdist_less [OF assms(2,3)] by linarith
  then have "cdist (length a) i p = d" unfolding p_def by (rule cdist_add_mod [OF assms(2)])
  moreover have "p < length a" unfolding p_def using assms(2) by (intro mod_less_divisor) linarith
  moreover have "probe_loop stop step a i = Some p"
    unfolding p_def using assms(1,2) d(2,3) by (rule probe_loop_reaches)
  ultimately show thesis using d by (intro that) (auto simp: p_def)
qed

section \<open>Tables\<close>

text \<open>A table is \<open>chained\<close> when the slots between an entry's home and the entry are all in use,
  so that a search from the home reaches it.\<close>

definition in_chain :: "nat \<Rightarrow> nat \<Rightarrow> nat \<Rightarrow> nat \<Rightarrow> bool" where
  "in_chain n h j c \<longleftrightarrow> cdist n h c < cdist n h j"

definition chained ::
    "('s \<Rightarrow> bool) \<Rightarrow> ('s \<Rightarrow> bool) \<Rightarrow> (nat \<Rightarrow> 's \<Rightarrow> nat) \<Rightarrow> 's list \<Rightarrow> bool" where
  "chained unused live home a \<longleftrightarrow>
     (\<forall>j < length a. live (a ! j) \<longrightarrow>
        (\<forall>c < length a. in_chain (length a) (home (length a) (a ! j)) j c \<longrightarrow> \<not> unused (a ! c)))"

lemma chainedD:
  assumes "chained unused live home a" "j < length a" "live (a ! j)" "c < length a"
    "in_chain (length a) (home (length a) (a ! j)) j c"
  shows "\<not> unused (a ! c)"
  using assms by (auto simp: chained_def)

lemma in_chain_between:
  assumes "h < n" "c < n" "j < n" "x < n" "in_chain n h j c" "cdist n c x < cdist n c j"
  shows "in_chain n h j x"
  using assms by (auto simp: in_chain_def cdist_def split: if_splits)

locale probe_table =
  fixes valid_size :: "nat \<Rightarrow> bool"
    and unused :: "'s \<Rightarrow> bool"
    and live :: "'s \<Rightarrow> bool"
    and home :: "nat \<Rightarrow> 's \<Rightarrow> nat"
    and step :: "nat \<Rightarrow> nat \<Rightarrow> nat"
  assumes live_not_empty: "live s \<Longrightarrow> \<not> unused s"
    and home_less: "valid_size n \<Longrightarrow> home n s < n"
    and step_mod: "valid_size n \<Longrightarrow> i < n \<Longrightarrow> step n i = Suc i mod n"
begin

abbreviation "search P a h \<equiv> probe_loop (\<lambda>s. unused s \<or> P s) (step (length a)) a h"

text \<open>A search from \<open>h\<close> for an entry whose home is \<open>h\<close> ends at such an entry if the table
  holds one, and at an unused slot otherwise.\<close>

lemma search_spec:
  assumes size: "valid_size (length a)"
    and "chained unused live home a"
    and "e < length a" "unused (a ! e)"
    and P: "\<And>s. s \<in> set a \<Longrightarrow> P s \<Longrightarrow> live s \<and> home (length a) s = h"
    and h: "h < length a"
  obtains p where "p < length a" "search P a h = Some p"
    "if \<exists>s \<in> set a. P s then P (a ! p) else unused (a ! p)"
    "\<And>c. c < length a \<Longrightarrow> in_chain (length a) h p c \<Longrightarrow> \<not> unused (a ! c)"
proof -
  note st = step_mod [OF size]
  obtain p where p: "p < length a" "search P a h = Some p" "unused (a ! p) \<or> P (a ! p)"
    and before: "\<And>e. e < cdist (length a) h p \<Longrightarrow> \<not> (unused (a ! ((h + e) mod length a)) \<or> P (a ! ((h + e) mod length a)))"
    using probe_loop_finds [OF st h assms(3), where stop = "\<lambda>s. unused s \<or> P s"] assms(4) by blast
  have beforeC: "\<not> unused (a ! c) \<and> \<not> P (a ! c)"
    if "c < length a" "in_chain (length a) h p c" for c
    using before [of "cdist (length a) h c"] that h by (simp add: in_chain_def add_cdist_mod)
  have "P (a ! p)" if ex: "\<exists>s \<in> set a. P s"
  proof (rule ccontr)
    assume np: "\<not> P (a ! p)"
    from ex obtain j where j: "j < length a" "P (a ! j)" by (auto simp: in_set_conv_nth)
    with P have lj: "live (a ! j)" "home (length a) (a ! j) = h" by (auto simp: in_set_conv_nth)
    have "\<not> in_chain (length a) h p j" using beforeC [OF j(1)] j(2) by blast
    moreover have "p \<noteq> j" using np j(2) by auto
    ultimately have "in_chain (length a) h j p"
      using h p(1) j(1) add_cdist_mod [OF h p(1)] add_cdist_mod [OF h j(1)]
      by (metis in_chain_def linorder_neqE_nat)
    with chainedD [OF assms(2) j(1) lj(1) p(1)] lj(2) p(3) np show False by simp
  qed
  moreover have "unused (a ! p)" if "\<not> (\<exists>s \<in> set a. P s)"
    using that p(1,3) nth_mem by blast
  ultimately show thesis using p(1,2) beforeC by (intro that [of p]) auto
qed

text \<open>Writing a slot keeps a table chained when it never turns a used slot into an unused one and
  the new entry, if it is one, is reachable from its home.\<close>

lemma chained_update:
  assumes "chained unused live home a" "i < length a" "unused s \<Longrightarrow> unused (a ! i)"
    and "live s \<Longrightarrow> \<forall>c < length a. in_chain (length a) (home (length a) s) i c \<longrightarrow> \<not> unused (a ! c)"
  shows "chained unused live home (a[i := s])"
  using assms unfolding chained_def by (auto simp: nth_list_update)

lemma chained_overwrite:
  assumes "chained unused live home a" "i < length a" "live (a ! i)"
    and "home (length a) s = home (length a) (a ! i)" "\<not> unused s"
  shows "chained unused live home (a[i := s])"
  using assms by (intro chained_update) (auto simp: chained_def)

lemma chained_no_live: "(\<And>s. s \<in> set a \<Longrightarrow> \<not> live s) \<Longrightarrow> chained unused live home a"
  by (auto simp: chained_def)

end

text \<open>The entries of a table as a multiset.\<close>

definition entries :: "('s \<Rightarrow> bool) \<Rightarrow> 's list \<Rightarrow> 's multiset" where
  "entries live a = filter_mset live (mset a)"

lemma entries_update:
  assumes "i < length a"
  shows "entries live (a[i := s]) =
    (entries live a - (if live (a ! i) then {#a ! i#} else {#})) + (if live s then {#s#} else {#})"
  using assms by (simp add: entries_def mset_update)

lemma size_entries: "size (entries live a) = length (filter live a)"
  by (simp add: entries_def flip: mset_filter)

lemma set_entries: "set_mset (entries live a) = {s \<in> set a. live s}"
  by (auto simp: entries_def)

lemma entries_Cons [simp]:
  "entries live (s # a) = (if live s then add_mset s (entries live a) else entries live a)"
  by (simp add: entries_def)

lemma entries_Nil [simp]: "entries live [] = {#}"
  by (simp add: entries_def)

lemma filter_mset_id: "(\<And>x. x \<in># M \<Longrightarrow> P x) \<Longrightarrow> filter_mset P M = M"
  by (induction M) auto

text \<open>No two entries of a table are related, e.g. have the same key.\<close>

definition clash_free :: "('s \<Rightarrow> 's \<Rightarrow> bool) \<Rightarrow> 's multiset \<Rightarrow> bool" where
  "clash_free R M \<longleftrightarrow> (\<forall>x \<in># M. \<forall>y \<in># M - {#x#}. \<not> R x y)"

lemma clash_free_add:
  "clash_free R (add_mset s M) \<longleftrightarrow> clash_free R M \<and> (\<forall>x \<in># M. \<not> R s x \<and> \<not> R x s)"
proof
  assume cf: "clash_free R (add_mset s M)"
  have "\<not> R s x \<and> \<not> R x s" if "x \<in># M" for x
  proof -
    have "x \<in># add_mset s M - {#s#}" "s \<in># add_mset s M - {#x#}"
      using that by (auto simp: in_diff_count)
    with that cf show ?thesis unfolding clash_free_def by simp
  qed
  moreover have "clash_free R M"
    unfolding clash_free_def
  proof (intro ballI)
    fix x y assume "x \<in># M" "y \<in># M - {#x#}"
    then have "x \<in># add_mset s M" "y \<in># add_mset s M - {#x#}"
      by (auto simp: in_diff_count)
    with cf show "\<not> R x y" unfolding clash_free_def by blast
  qed
  ultimately show "clash_free R M \<and> (\<forall>x \<in># M. \<not> R s x \<and> \<not> R x s)" by blast
next
  assume *: "clash_free R M \<and> (\<forall>x \<in># M. \<not> R s x \<and> \<not> R x s)"
  show "clash_free R (add_mset s M)"
    unfolding clash_free_def
  proof (intro ballI)
    fix x y assume x: "x \<in># add_mset s M" and y: "y \<in># add_mset s M - {#x#}"
    show "\<not> R x y"
    proof (cases "x = s")
      case True
      with y * show ?thesis by simp
    next
      case False
      with x have xM: "x \<in># M" by simp
      with y False have "y = s \<or> y \<in># M - {#x#}"
        by (auto simp: in_diff_count split: if_splits)
      with * xM show ?thesis unfolding clash_free_def by blast
    qed
  qed
qed

lemma clash_free_diff:
  assumes "clash_free R M"
  shows "clash_free R (M - N)"
  unfolding clash_free_def
proof (intro ballI)
  fix x y assume "x \<in># M - N" "y \<in># M - N - {#x#}"
  moreover have "M - N - {#x#} = M - {#x#} - N" by (rule diff_right_commute)
  ultimately have "x \<in># M" "y \<in># M - {#x#}" using in_diffD by metis+
  with assms show "\<not> R x y" unfolding clash_free_def by blast
qed

lemma clash_free_empty [simp]: "clash_free R {#}"
  by (simp add: clash_free_def)

lemma clash_free_unique:
  "clash_free R M \<Longrightarrow> x \<in># M \<Longrightarrow> y \<in># M \<Longrightarrow> R x y \<Longrightarrow> x = y"
  unfolding clash_free_def by (cases "x = y") (auto simp: in_diff_count)

end
