(* ===== verification/Keyed_Store.thy ===== *)
theory Keyed_Store
  imports Prelude
begin

text \<open>
  The contract of a table that maps keys to values: every update succeeds as long as the table
  holds fewer than a given number of entries, and changes what the table returns for the updated
  key only. A deletion is the update to the value that stands for absence. The contract is
  discharged for \<open>HashMap\<close>.
\<close>

fun run_updates :: "('s \<Rightarrow> 'k \<Rightarrow> 'w \<Rightarrow> 's option) \<Rightarrow> ('k \<times> 'w) list \<Rightarrow> 's \<Rightarrow> 's option" where
  "run_updates upd [] s = Some s"
| "run_updates upd ((k, w) # ops) s =
     (case upd s k w of None \<Rightarrow> None | Some s' \<Rightarrow> run_updates upd ops s')"

fun apply_updates :: "('k \<Rightarrow> 'k \<Rightarrow> bool) \<Rightarrow> ('k \<times> 'w) list \<Rightarrow> ('k \<Rightarrow> 'w) \<Rightarrow> 'k \<Rightarrow> 'w" where
  "apply_updates same [] f = f"
| "apply_updates same ((k, w) # ops) f =
     apply_updates same ops (\<lambda>k'. if same k k' then w else f k')"

locale keyed_store =
  fixes invar :: "'s \<Rightarrow> bool"
    and count :: "'s \<Rightarrow> nat"
    and limit :: nat
    and same :: "'s \<Rightarrow> 'k \<Rightarrow> 'k \<Rightarrow> bool"
    and get :: "'s \<Rightarrow> 'k \<Rightarrow> 'w"
    and upd :: "'s \<Rightarrow> 'k \<Rightarrow> 'w \<Rightarrow> 's option"
  assumes upd_law: "invar s \<Longrightarrow> count s < limit \<Longrightarrow>
      \<exists>s'. upd s k w = Some s' \<and> invar s' \<and> count s' \<le> Suc (count s) \<and> same s' = same s
        \<and> (\<forall>k'. get s' k' = (if same s k k' then w else get s k'))"
begin

lemma run_updates_refines:
  assumes "invar s" "count s + length ops \<le> limit"
  shows "\<exists>s'. run_updates upd ops s = Some s' \<and> invar s' \<and> get s' = apply_updates (same s) ops (get s)"
  using assms
proof (induction ops arbitrary: s)
  case Nil
  then show ?case by simp
next
  case (Cons op ops)
  obtain k w where op: "op = (k, w)" by (cases op)
  from Cons.prems have "count s < limit" by simp
  from upd_law [OF Cons.prems(1) this, of k w] obtain s' where s':
      "upd s k w = Some s'" "invar s'" "count s' \<le> Suc (count s)" "same s' = same s"
      "\<And>k'. get s' k' = (if same s k k' then w else get s k')" by blast
  then have "get s' = (\<lambda>k'. if same s k k' then w else get s k')" by (intro ext)
  with Cons.IH [of s'] Cons.prems s' op show ?case by auto
qed

end

end
