(* ===== verification/Dart_Utils.thy ===== *)
theory Dart_Utils
  imports Prelude
begin

text \<open>
  The static helpers of class \<open>Utils\<close> in \<^verbatim>\<open>platform/utils.h\<close> and
  \<^verbatim>\<open>platform/utils.cc\<close>. Unsigned and bit-level helpers work on words, signed ones on
  \<^typ>\<open>int\<close> with the conversions of the prelude where the C++ code wraps.
\<close>

section \<open>Comparisons and rounding\<close>

definition Minimum :: "'a::linorder \<Rightarrow> 'a \<Rightarrow> 'a" where
  "Minimum x y = (if x < y then x else y)"

definition Maximum :: "'a::linorder \<Rightarrow> 'a \<Rightarrow> 'a" where
  "Maximum x y = (if x > y then x else y)"

text \<open>\<open>Abs\<close> at type \<open>int64_t\<close>: negating the least value wraps to itself.\<close>

definition Abs64 :: "int \<Rightarrow> int" where
  "Abs64 x = (if x < 0 then int64 (- x) else x)"

definition IsPowerOfTwo :: "'a::len word \<Rightarrow> bool" where
  "IsPowerOfTwo x \<longleftrightarrow> (x AND (x - 1)) = 0 \<and> x \<noteq> 0"

function ShiftForPowerOfTwo_loop :: "'a::len word \<Rightarrow> nat \<Rightarrow> nat" where
  "ShiftForPowerOfTwo_loop x num_shifts =
     (if x > 1 then ShiftForPowerOfTwo_loop (drop_bit 1 x) (num_shifts + 1) else num_shifts)"
  by pat_completeness auto
termination
proof (relation "measure (\<lambda>(x, n). unat x)", goal_cases)
  case 1
  show ?case by simp
next
  case (2 x n)
  then have "0 < unat x" by (metis order_less_trans unat_gt_0 word_gt_0 word_neq_0_conv)
  then have "unat x div 2 < unat x" by simp
  then show ?case by (simp add: unat_div drop_bit_Suc)
qed

definition ShiftForPowerOfTwo :: "'a::len word \<Rightarrow> nat" where
  "ShiftForPowerOfTwo x = ShiftForPowerOfTwo_loop x 0"

definition IsAligned :: "'a::len word \<Rightarrow> 'a word \<Rightarrow> bool" where
  "IsAligned x n \<longleftrightarrow> (x AND (n - 1)) = 0"

definition RoundDown :: "'a::len word \<Rightarrow> 'a word \<Rightarrow> 'a word" where
  "RoundDown x n = x AND (- n)"

definition RoundUp :: "'a::len word \<Rightarrow> 'a word \<Rightarrow> 'a word" where
  "RoundUp x n = RoundDown (x + n - 1) n"

definition RoundUpToPowerOfTwo :: "uword \<Rightarrow> uword" where
  "RoundUpToPowerOfTwo x =
     (let x = x - 1;
          x = x OR drop_bit 1 x;
          x = x OR drop_bit 2 x;
          x = x OR drop_bit 4 x;
          x = x OR drop_bit 8 x;
          x = x OR drop_bit 16 x;
          x = x OR drop_bit 32 x
      in x + 1)"

definition CountOneBits :: "u32 \<Rightarrow> int" where
  "CountOneBits x =
     (let x = x - (drop_bit 1 x AND 0x55555555);
          x = (x AND 0x33333333) + (drop_bit 2 x AND 0x33333333);
          x = (x + drop_bit 4 x) AND 0x0F0F0F0F;
          x = x + drop_bit 8 x;
          x = x + drop_bit 16 x
      in uint (x AND 0x0000003F))"

section \<open>Bit lengths\<close>

text \<open>One line \<open>if ((t = x >> s) != 0) { x = t; r += s; }\<close> of the search.\<close>

definition HighestBit_stage :: "nat \<Rightarrow> uword \<times> int \<Rightarrow> uword \<times> int" where
  "HighestBit_stage s = (\<lambda>(x, r). let t = drop_bit s x in if t \<noteq> 0 then (t, r + int s) else (x, r))"

definition HighestBit :: "int \<Rightarrow> int" where
  "HighestBit v =
     (let x = (word_of_int (if v > 0 then v else - v) :: uword);
          (x, r) = HighestBit_stage 2 (HighestBit_stage 4 (HighestBit_stage 8
                     (HighestBit_stage 16 (HighestBit_stage 32 (x, 0)))))
      in if x > 1 then r + 1 else r)"

definition BitLength :: "int \<Rightarrow> int" where
  "BitLength value =
     (let value = value XOR drop_bit (8 * 8 - 1) value
      in if value = 0 then 0 else HighestBit value + 1)"

text \<open>\<open>CountLeadingZeros\<close> and \<open>CountTrailingZeros\<close> are the compiler's
  \<open>__builtin_clzll\<close> and \<open>__builtin_ctzll\<close> on a 64-bit host; both are only defined
  on non-zero arguments.\<close>

fun ctz_from :: "uword \<Rightarrow> nat \<Rightarrow> nat \<Rightarrow> nat" where
  "ctz_from x n 0 = n"
| "ctz_from x n (Suc k) = (if bit x n then n else ctz_from x (Suc n) k)"

definition CountTrailingZeros :: "uword \<Rightarrow> nat" where
  "CountTrailingZeros x = ctz_from x 0 64"

fun clz_below :: "uword \<Rightarrow> nat \<Rightarrow> nat" where
  "clz_below x 0 = 64"
| "clz_below x (Suc k) = (if bit x k then 63 - k else clz_below x k)"

definition CountLeadingZeros :: "uword \<Rightarrow> nat" where
  "CountLeadingZeros x = clz_below x 64"

section \<open>Range checks\<close>

definition IsInt :: "nat \<Rightarrow> int \<Rightarrow> bool" where
  "IsInt N value = (let limit = push_bit (N - 1) 1 in - limit \<le> value \<and> value < limit)"

definition IsUint :: "nat \<Rightarrow> int \<Rightarrow> bool" where
  "IsUint N value = (let limit = push_bit N 1 in 0 \<le> value \<and> value < limit)"

definition IsAbsoluteUint :: "nat \<Rightarrow> int \<Rightarrow> bool" where
  "IsAbsoluteUint N value = (let value = (if value < 0 then int64 (- value) else value) in IsUint N value)"

definition RangeCheck :: "int \<Rightarrow> int \<Rightarrow> int \<Rightarrow> bool" where
  "RangeCheck offset count len \<longleftrightarrow>
     offset \<ge> 0 \<and> count \<ge> 0 \<and> len \<ge> 0 \<and> count \<le> int64 (len - offset)"

definition WillAddOverflow :: "int \<Rightarrow> int \<Rightarrow> bool" where
  "WillAddOverflow a b \<longleftrightarrow>
     b > 0 \<and> a > int64 (kMaxInt64 - b) \<or> b < 0 \<and> a < int64 (kMinInt64 - b)"

definition WillSubOverflow :: "int \<Rightarrow> int \<Rightarrow> bool" where
  "WillSubOverflow a b \<longleftrightarrow>
     b > 0 \<and> a < int64 (kMinInt64 + b) \<or> b < 0 \<and> a > int64 (kMaxInt64 + b)"

section \<open>Splitting and joining words\<close>

definition Low16Bits :: "int \<Rightarrow> int" where
  "Low16Bits value = int32 (value AND 0xffff)"

definition High16Bits :: "int \<Rightarrow> int" where
  "High16Bits value = int32 (drop_bit 16 value)"

definition Low32Bits :: "int \<Rightarrow> int" where
  "Low32Bits value = int32 value"

definition High32Bits :: "int \<Rightarrow> int" where
  "High32Bits value = int32 (drop_bit 32 value)"

text \<open>The first parameter is a \<open>uint32_t\<close>: a signed argument is converted by the
  call.\<close>

definition LowHighTo64Bits :: "int \<Rightarrow> int \<Rightarrow> int" where
  "LowHighTo64Bits low high =
     (let low = low mod 2 ^ 32 in int64 (push_bit 32 high) OR (low AND 0x0ffffffff))"

section \<open>Digits\<close>

text \<open>Characters are their codes.\<close>

definition IsDecimalDigit :: "int \<Rightarrow> bool" where
  "IsDecimalDigit c \<longleftrightarrow> 48 \<le> c \<and> c \<le> 57"

definition IsHexDigit :: "int \<Rightarrow> bool" where
  "IsHexDigit c \<longleftrightarrow> IsDecimalDigit c \<or> 65 \<le> c \<and> c \<le> 70 \<or> 97 \<le> c \<and> c \<le> 102"

definition HexDigitToInt :: "int \<Rightarrow> int" where
  "HexDigitToInt c =
     (if IsDecimalDigit c then c - 48
      else if 65 \<le> c \<and> c \<le> 70 then 10 + (c - 65)
      else 10 + (c - 97))"

definition IntToHexDigit :: "int \<Rightarrow> int" where
  "IntToHexDigit i = (if i < 10 then 48 + i else 65 + (i - 10))"

section \<open>Integers of the web platform\<close>

definition IsJavascriptInt64 :: "int \<Rightarrow> bool" where
  "IsJavascriptInt64 value \<longleftrightarrow> - 0x20000000000000 \<le> value \<and> value \<le> 0x20000000000000"

text \<open>\<open>IsJavascriptInt\<close> tests the macro \<open>ARCH_IS_64BIT\<close>, which no header
  defines (\<^verbatim>\<open>platform/globals.h\<close> defines \<open>ARCH_IS_64_BIT\<close>), so only the
  second branch is ever compiled.\<close>

definition IsJavascriptInt :: "int \<Rightarrow> bool" where
  "IsJavascriptInt value \<longleftrightarrow> True"

section \<open>Hashing\<close>

text \<open>\<open>StringHash\<close> reads four bytes at a time in the host's byte order, little endian on
  the supported targets.\<close>

definition load_le32 :: "u8 \<Rightarrow> u8 \<Rightarrow> u8 \<Rightarrow> u8 \<Rightarrow> u32" where
  "load_le32 b0 b1 b2 b3 =
     ucast b0 OR push_bit 8 (ucast b1)
     OR push_bit 16 (ucast b2) OR push_bit 24 (ucast b3)"

fun StringHash_loop :: "u8 list \<Rightarrow> u32 \<Rightarrow> u32" where
  "StringHash_loop (b0 # b1 # b2 # b3 # cursor) hash =
     (let M = 0x5bd1e995;
          part = load_le32 b0 b1 b2 b3;
          part = part * M;
          part = part XOR drop_bit 24 part;
          part = part * M;
          hash = hash * M;
          hash = hash XOR part
      in StringHash_loop cursor hash)"
| "StringHash_loop [b0, b1, b2] hash =
     (let hash = hash XOR push_bit 16 (ucast b2);
          hash = hash XOR push_bit 8 (ucast b1);
          hash = hash XOR ucast b0
      in hash * 0x5bd1e995)"
| "StringHash_loop [b0, b1] hash =
     (let hash = hash XOR push_bit 8 (ucast b1);
          hash = hash XOR ucast b0
      in hash * 0x5bd1e995)"
| "StringHash_loop [b0] hash = (hash XOR ucast b0) * 0x5bd1e995"
| "StringHash_loop [] hash = hash"

definition StringHash :: "u8 list \<Rightarrow> u32" where
  "StringHash data =
     (let hash = StringHash_loop data (of_nat (length data));
          hash = hash XOR drop_bit 13 hash;
          hash = hash * 0x5bd1e995
      in hash XOR drop_bit 15 hash)"

definition WordHash :: "int \<Rightarrow> u32" where
  "WordHash key =
     (let a = (word_of_int key :: uword);
          a = (a + 0x7ed55d16) + push_bit 12 a;
          a = (a XOR 0xc761c23c) XOR drop_bit 19 a;
          a = (a + 0x165667b1) + push_bit 5 a;
          a = (a + 0xd3a2646c) XOR push_bit 9 a;
          a = (a + 0xfd7046c5) + push_bit 3 a;
          a = (a XOR 0xb55a4f09) XOR drop_bit 16 a
      in ucast a)"

section \<open>Powers of two and alignment\<close>

lemma IsPowerOfTwo_iff:
  fixes x :: "'a::len word"
  shows "IsPowerOfTwo x \<longleftrightarrow> (\<exists>k < LENGTH('a). x = 2 ^ k)"
proof
  assume pow: "IsPowerOfTwo x"
  define n where "n = unat x"
  from pow have "x \<noteq> 0" and and0: "x AND (x - 1) = 0"
    by (auto simp: IsPowerOfTwo_def)
  then have npos: "0 < n" by (simp add: n_def unat_gt_0)
  then obtain k where k: "2 ^ k \<le> n" "n < 2 ^ Suc k" by (rule nat_log2_ex)
  have pred: "unat (x - 1) = n - 1"
    using \<open>x \<noteq> 0\<close> by (simp add: n_def unat_minus_one)
  have "n = 2 ^ k"
  proof (rule ccontr)
    assume "n \<noteq> 2 ^ k"
    with k have "2 ^ k \<le> n - 1" "n - 1 < 2 ^ Suc k" by auto
    then have "bit (n - 1) k" "bit n k" using k by (auto intro: nat_bit_top)
    then have "bit (x - 1) k" "bit x k"
      using unat_bit_iff [of x k] unat_bit_iff [of "x - 1" k] pred n_def by simp_all
    then have "bit (x AND (x - 1)) k" by (simp add: bit_and_iff)
    with and0 show False by simp
  qed
  moreover have "k < LENGTH('a)"
    using k(1) unsigned_less [of x] unfolding n_def
    by (metis le_less_trans nat_power_less_imp_less zero_less_numeral)
  ultimately have "x = 2 ^ k"
    by (metis n_def unat_pow2 unsigned_word_eqI)
  with \<open>k < LENGTH('a)\<close> show "\<exists>k < LENGTH('a). x = 2 ^ k" by blast
next
  assume "\<exists>k < LENGTH('a). x = 2 ^ k"
  then show "IsPowerOfTwo x"
    by (auto simp: IsPowerOfTwo_def word_and_mask_pow2 bit_take_bit_iff bit_pow2_word intro: bit_eqI)
qed

lemma smear_step:
  fixes x y :: "uword"
  assumes "\<And>n. bit y n \<longleftrightarrow> (\<exists>j < w. bit x (n + j))"
  shows "bit (y OR drop_bit w y) n \<longleftrightarrow> (\<exists>j < 2 * w. bit x (n + j))"
proof -
  have "(\<exists>j < 2 * w. bit x (n + j)) \<longleftrightarrow> (\<exists>j < w. bit x (n + j)) \<or> (\<exists>j < w. bit x (n + w + j))"
  proof
    assume "\<exists>j < 2 * w. bit x (n + j)"
    then obtain j where j: "j < 2 * w" "bit x (n + j)" by blast
    show "(\<exists>j < w. bit x (n + j)) \<or> (\<exists>j < w. bit x (n + w + j))"
    proof (cases "j < w")
      case True
      with j show ?thesis by blast
    next
      case False
      with j have "j - w < w" "n + w + (j - w) = n + j" by auto
      with j(2) show ?thesis by (metis (no_types))
    qed
  next
    assume "(\<exists>j < w. bit x (n + j)) \<or> (\<exists>j < w. bit x (n + w + j))"
    then show "\<exists>j < 2 * w. bit x (n + j)"
    proof (elim disjE exE conjE)
      fix j assume "j < w" "bit x (n + j)"
      then show ?thesis by (intro exI [of _ j]) simp
    next
      fix j assume "j < w" "bit x (n + w + j)"
      then show ?thesis by (intro exI [of _ "w + j"]) (simp add: add.assoc)
    qed
  qed
  then show ?thesis
    by (simp add: bit_or_iff bit_drop_bit_eq assms ac_simps)
qed

lemma smear_all:
  fixes x y :: uword
  assumes "\<And>n. bit y n \<longleftrightarrow> (\<exists>j < 64. bit x (n + j))"
    and "2 ^ k \<le> unat x" "unat x < 2 ^ Suc k"
  shows "y = mask (Suc k)"
proof (rule bit_eqI)
  fix n assume "possible_bit TYPE(uword) n"
  have top: "bit x k" using nat_bit_top [OF assms(2,3)] by (simp add: unat_bit_iff)
  then have "k < 64" using bit_imp_le_length by fastforce
  have "\<not> bit x m" if "k < m" for m
  proof -
    have "unat x < 2 ^ m"
      using assms(3) that by (meson Suc_leI less_le_trans one_le_numeral power_increasing)
    then have "\<not> bit (unat x) m" by (simp add: bit_iff_odd)
    then show ?thesis by (simp add: unat_bit_iff)
  qed
  then have "(\<exists>j < 64. bit x (n + j)) \<longleftrightarrow> n \<le> k"
    using top \<open>k < 64\<close> by (metis add_leD1 le_add_diff_inverse less_imp_diff_less not_less)
  then show "bit y n \<longleftrightarrow> bit (mask (Suc k) :: uword) n"
    using \<open>k < 64\<close> by (auto simp: assms(1) bit_mask_iff)
qed

lemma RoundUpToPowerOfTwo_aux:
  assumes "2 ^ k \<le> unat (x - 1)" "unat (x - 1) < 2 ^ Suc k"
  shows "RoundUpToPowerOfTwo x = 2 ^ Suc k"
proof -
  define y0 where "y0 = x - 1"
  define y1 where "y1 = y0 OR drop_bit 1 y0"
  define y2 where "y2 = y1 OR drop_bit 2 y1"
  define y3 where "y3 = y2 OR drop_bit 4 y2"
  define y4 where "y4 = y3 OR drop_bit 8 y3"
  define y5 where "y5 = y4 OR drop_bit 16 y4"
  define y6 where "y6 = y5 OR drop_bit 32 y5"
  have "bit y0 n \<longleftrightarrow> (\<exists>j < 1. bit y0 (n + j))" for n by auto
  then have "bit y1 n \<longleftrightarrow> (\<exists>j < 2. bit y0 (n + j))" for n
    unfolding y1_def by (subst smear_step) simp_all
  then have "bit y2 n \<longleftrightarrow> (\<exists>j < 4. bit y0 (n + j))" for n
    unfolding y2_def by (subst smear_step) simp_all
  then have "bit y3 n \<longleftrightarrow> (\<exists>j < 8. bit y0 (n + j))" for n
    unfolding y3_def by (subst smear_step) simp_all
  then have "bit y4 n \<longleftrightarrow> (\<exists>j < 16. bit y0 (n + j))" for n
    unfolding y4_def by (subst smear_step) simp_all
  then have "bit y5 n \<longleftrightarrow> (\<exists>j < 32. bit y0 (n + j))" for n
    unfolding y5_def by (subst smear_step) simp_all
  then have "bit y6 n \<longleftrightarrow> (\<exists>j < 64. bit y0 (n + j))" for n
    unfolding y6_def by (subst smear_step) simp_all
  then have "y6 = mask (Suc k)"
    by (rule smear_all) (use assms in \<open>simp_all add: y0_def\<close>)
  then have "y6 + 1 = 2 ^ Suc k" by (simp add: mask_eq_exp_minus_1)
  then show ?thesis
    by (simp only: RoundUpToPowerOfTwo_def Let_def y6_def y5_def y4_def y3_def y2_def y1_def y0_def)
qed

lemma RoundUpToPowerOfTwo_least:
  assumes "0 < x" "x \<le> 2 ^ 63"
  shows "\<exists>k \<le> 63. RoundUpToPowerOfTwo x = 2 ^ k \<and> unat x \<le> 2 ^ k \<and> (\<forall>j < k. 2 ^ j < unat x)"
proof (cases "x = 1")
  case True
  then show ?thesis by (auto simp: RoundUpToPowerOfTwo_def intro!: exI [of _ 0])
next
  case False
  then have "0 < unat (x - 1)" using assms(1) by (simp add: unat_gt_0)
  then obtain k where k: "2 ^ k \<le> unat (x - 1)" "unat (x - 1) < 2 ^ Suc k" by (rule nat_log2_ex)
  have pred: "unat (x - 1) = unat x - 1" using assms(1) by (simp add: unat_minus_one)
  have "unat x \<le> 2 ^ 63" using assms(2) by (simp add: word_le_nat_alt)
  with k pred \<open>0 < unat (x - 1)\<close> have "(2::nat) ^ k < 2 ^ 63" by simp
  then have "k < 63" by (metis nat_power_less_imp_less zero_less_numeral)
  have "2 ^ j < unat x" if "j < Suc k" for j
  proof -
    have "(2::nat) ^ j \<le> 2 ^ k" using that by (simp add: power_increasing)
    also have "2 ^ k < unat x" using k(1) pred \<open>0 < unat (x - 1)\<close> by linarith
    finally show ?thesis .
  qed
  then show ?thesis
    using RoundUpToPowerOfTwo_aux [OF k] \<open>k < 63\<close> k pred
    by (intro exI [of _ "Suc k"]) auto
qed

lemma unat_RoundDown:
  fixes x :: "'a::len word"
  shows "unat (RoundDown x (2 ^ k)) = unat x - unat x mod 2 ^ k"
proof -
  have t: "unat (take_bit k x) = unat x mod 2 ^ k"
    by (simp only: unsigned_take_bit_eq) (simp add: take_bit_eq_mod)
  then have "take_bit k x \<le> x" by (simp add: word_le_nat_alt)
  then show ?thesis
    unfolding RoundDown_def word_minus_take_bit using t by (simp only: unat_sub)
qed

lemma RoundUp_spec:
  fixes x :: "'a::len word"
  assumes "k < LENGTH('a)" "unat x + 2 ^ k - 1 < 2 ^ LENGTH('a)"
  shows "2 ^ k dvd unat (RoundUp x (2 ^ k))"
    and "unat x \<le> unat (RoundUp x (2 ^ k))"
    and "unat (RoundUp x (2 ^ k)) < unat x + 2 ^ k"
proof -
  have "unat (x + 2 ^ k - 1) = unat x + 2 ^ k - 1"
  proof -
    have "of_nat (unat x + 2 ^ k - 1) = (of_nat (unat x + 2 ^ k) - of_nat 1 :: 'a word)"
      by (rule of_nat_diff) (simp add: trans_le_add2)
    then have "x + 2 ^ k - 1 = of_nat (unat x + 2 ^ k - 1)" by simp
    then show ?thesis using assms(2) by (simp add: unat_of_nat)
  qed
  then have r: "unat (RoundUp x (2 ^ k)) = unat x + 2 ^ k - 1 - (unat x + 2 ^ k - 1) mod 2 ^ k"
    by (simp add: RoundUp_def unat_RoundDown)
  show "2 ^ k dvd unat (RoundUp x (2 ^ k))"
    unfolding r by (rule dvd_minus_mod)
  have "(unat x + 2 ^ k - 1) mod 2 ^ k < (2::nat) ^ k" by simp
  moreover have "(1::nat) \<le> 2 ^ k" by simp
  ultimately show "unat x \<le> unat (RoundUp x (2 ^ k))" "unat (RoundUp x (2 ^ k)) < unat x + 2 ^ k"
    unfolding r by linarith+
qed

lemma ShiftForPowerOfTwo_loop_pow2:
  assumes "k < LENGTH('a::len)"
  shows "ShiftForPowerOfTwo_loop (2 ^ k :: 'a word) n = n + k"
  using assms
proof (induction k arbitrary: n)
  case 0
  show ?case by (subst ShiftForPowerOfTwo_loop.simps) simp
next
  case (Suc k)
  have "(2::nat) ^ Suc k > 1" by (rule one_less_power) simp_all
  then have "(2 ^ Suc k :: 'a word) > 1"
    using unat_pow2 [OF Suc.prems] by (simp only: word_less_nat_alt unat_1)
  moreover have "drop_bit 1 (2 ^ Suc k :: 'a word) = 2 ^ k"
    using Suc.prems by (intro bit_word_eqI) (auto simp: bit_drop_bit_eq bit_pow2_word simp del: power_Suc)
  ultimately show ?case
    using Suc by (subst ShiftForPowerOfTwo_loop.simps) simp
qed

section \<open>Bit lengths and bit searches\<close>

definition hb_inv :: "nat \<Rightarrow> nat \<Rightarrow> uword \<times> int \<Rightarrow> bool" where
  "hb_inv n W = (\<lambda>(x, r). 0 \<le> r \<and> x \<noteq> 0 \<and> unat x = n div 2 ^ nat r \<and> unat x < 2 ^ W)"

lemma HighestBit_stage_inv:
  assumes "hb_inv n (2 * s) xr"
  shows "hb_inv n s (HighestBit_stage s xr)"
proof (cases xr)
  case (Pair x r)
  have drop: "unat (drop_bit s x) = unat x div 2 ^ s"
    by (simp only: unat_drop_bit_eq) (simp add: drop_bit_eq_div)
  have lt: "unat x div 2 ^ s < 2 ^ s"
    using assms Pair by (auto simp: hb_inv_def less_mult_imp_div_less power_add mult_2)
  have "drop_bit s x = 0 \<Longrightarrow> unat x < 2 ^ s"
    using drop by (metis div_eq_0_iff power_not_zero unat_0 zero_neq_numeral)
  then show ?thesis
    using assms Pair drop lt
    by (auto simp: hb_inv_def HighestBit_stage_def Let_def nat_add_distrib power_add div_mult2_eq)
qed

lemma HighestBit_spec:
  assumes "is_int64 v" "v \<noteq> 0"
  shows "0 \<le> HighestBit v \<and> 2 ^ nat (HighestBit v) \<le> \<bar>v\<bar> \<and> \<bar>v\<bar> < 2 ^ Suc (nat (HighestBit v))"
proof -
  define x0 where "x0 = (word_of_int (if v > 0 then v else - v) :: uword)"
  have x0: "unat x0 = nat \<bar>v\<bar>"
    using assms by (auto simp: x0_def is_int64_def limits unsigned_of_int take_bit_int_eq_self)
  have "hb_inv (unat x0) 64 (x0, 0)"
    using assms x0 by (auto simp: hb_inv_def is_int64_def limits simp flip: unat_0_iff)
  then have "hb_inv (unat x0) 32 (HighestBit_stage 32 (x0, 0))" by (intro HighestBit_stage_inv) simp
  then have "hb_inv (unat x0) 16 (HighestBit_stage 16 (HighestBit_stage 32 (x0, 0)))" by (intro HighestBit_stage_inv) simp
  then have "hb_inv (unat x0) 8 (HighestBit_stage 8 (HighestBit_stage 16 (HighestBit_stage 32 (x0, 0))))" by (intro HighestBit_stage_inv) simp
  then have "hb_inv (unat x0) 4 (HighestBit_stage 4 (HighestBit_stage 8 (HighestBit_stage 16 (HighestBit_stage 32 (x0, 0)))))"
    by (intro HighestBit_stage_inv) simp
  then have inv: "hb_inv (unat x0) 2 (HighestBit_stage 2 (HighestBit_stage 4 (HighestBit_stage 8 (HighestBit_stage 16 (HighestBit_stage 32 (x0, 0))))))"
    by (intro HighestBit_stage_inv) simp
  obtain x r where xr: "HighestBit_stage 2 (HighestBit_stage 4 (HighestBit_stage 8 (HighestBit_stage 16 (HighestBit_stage 32 (x0, 0))))) = (x, r)"
    by fastforce
  have h: "HighestBit v = (if x > 1 then r + 1 else r)"
    using xr by (simp add: HighestBit_def x0_def Let_def)
  have n: "0 \<le> r" "unat x = unat x0 div 2 ^ nat r" "unat x < 4"
    using inv xr by (auto simp: hb_inv_def)
  have "x \<noteq> 0" using inv xr by (simp add: hb_inv_def)
  then have "0 < unat x" by (simp add: unat_gt_0)
  note n = n this
  have "2 ^ nat (HighestBit v) \<le> unat x0 \<and> unat x0 < 2 ^ Suc (nat (HighestBit v))"
  proof (cases "x > 1")
    case True
    then have "2 \<le> unat x0 div 2 ^ nat r" "unat x0 div 2 ^ nat r < 4"
      using n by (auto simp: word_less_nat_alt)
    then show ?thesis
      using True h n(1) by (auto simp: less_eq_div_iff_mult_less_eq div_less_iff_less_mult nat_add_distrib)
  next
    case False
    then have "unat x0 div 2 ^ nat r = 1" using n by (auto simp: word_less_nat_alt)
    then have "1 * 2 ^ nat r \<le> unat x0" "unat x0 < 2 * 2 ^ nat r"
      by (metis le_refl less_eq_div_iff_mult_less_eq zero_less_numeral zero_less_power)
        (metis \<open>unat x0 div 2 ^ nat r = 1\<close> div_less_iff_less_mult one_less_numeral_iff semiring_norm(76) zero_less_numeral zero_less_power)
    then show ?thesis using False h by simp
  qed
  moreover have "0 \<le> HighestBit v" using h n(1) by simp
  moreover have "\<bar>v\<bar> = int (unat x0)" using x0 by simp
  ultimately show ?thesis
    by (metis (mono_tags, lifting) of_nat_le_iff of_nat_less_iff of_nat_numeral of_nat_power)
qed

lemma BitLength_flip:
  assumes "is_int64 v"
  shows "v XOR drop_bit 63 v = (if v < 0 then - v - 1 else v)"
proof (cases "v < 0")
  case True
  then have "drop_bit 63 v = - 1"
    using assms by (simp add: is_int64_def limits drop_bit_int_def div_eq_minus1)
  then show ?thesis using True by (simp add: not_int_def)
next
  case False
  then have "drop_bit 63 v = 0"
    using assms by (simp add: is_int64_def limits drop_bit_int_def)
  then show ?thesis using False by simp
qed

lemma is_int64_flip: "is_int64 v \<Longrightarrow> is_int64 (if v < 0 then - v - 1 else v)"
  by (auto simp: is_int64_def limits)

lemma BitLength_nonneg: "is_int64 v \<Longrightarrow> 0 \<le> BitLength v"
proof -
  assume v: "is_int64 v"
  have "0 \<le> HighestBit w" if "w \<noteq> 0" "w = (if v < 0 then - v - 1 else v)" for w
    using HighestBit_spec [of w] is_int64_flip [OF v] that by simp
  then show ?thesis by (simp add: BitLength_def BitLength_flip [OF v] Let_def)
qed

lemma BitLength_le_iff:
  assumes "is_int64 v"
  shows "BitLength v \<le> int n \<longleftrightarrow> - (2 ^ n) \<le> v \<and> v < 2 ^ n"
proof -
  define w where "w = v XOR drop_bit 63 v"
  have w: "w = (if v < 0 then - v - 1 else v)"
    unfolding w_def by (rule BitLength_flip [OF assms])
  show ?thesis
  proof (cases "w = 0")
    case True
    then show ?thesis
      using w by (auto simp: BitLength_def w_def [symmetric] split: if_splits intro: less_trans [of "- 1" 0])
  next
    case False
    with w assms have "0 < w" "is_int64 w" by (auto simp: is_int64_def limits split: if_splits)
    with HighestBit_spec [of w] have hb: "0 \<le> HighestBit w" "2 ^ nat (HighestBit w) \<le> w" "w < 2 ^ Suc (nat (HighestBit w))"
      by auto
    define h where "h = nat (HighestBit w)"
    have "BitLength v \<le> int n \<longleftrightarrow> Suc h \<le> n"
      using False hb(1) by (auto simp: BitLength_def w_def [symmetric] h_def Let_def)
    also have "\<dots> \<longleftrightarrow> w < 2 ^ n"
    proof
      assume "Suc h \<le> n"
      then have "(2::int) ^ Suc h \<le> 2 ^ n" by (rule power_increasing) simp
      with hb(3) show "w < 2 ^ n" by (simp add: h_def)
    next
      assume "w < 2 ^ n"
      with hb(2) have "(2::int) ^ h < 2 ^ n" unfolding h_def by (rule le_less_trans)
      then show "Suc h \<le> n" by (simp add: Suc_le_eq)
    qed
    also have "\<dots> \<longleftrightarrow> - (2 ^ n) \<le> v \<and> v < 2 ^ n"
      using w by (auto split: if_splits intro: less_trans [of v 0] order_trans [of "- (2 ^ n)" 0])
    finally show ?thesis .
  qed
qed

lemma ctz_from_spec:
  assumes "\<exists>i < n + k. n \<le> i \<and> bit x i"
  shows "bit x (ctz_from x n k) \<and> n \<le> ctz_from x n k \<and> (\<forall>i. n \<le> i \<and> i < ctz_from x n k \<longrightarrow> \<not> bit x i)"
  using assms
proof (induction x n k rule: ctz_from.induct)
  case (1 x n)
  then show ?case by auto
next
  case (2 x n k)
  show ?case
  proof (cases "bit x n")
    case True
    then show ?thesis by auto
  next
    case False
    with "2.prems" have "\<exists>i < Suc n + k. Suc n \<le> i \<and> bit x i"
      by (auto simp: Suc_le_eq le_less)
    note ih = "2.IH" [OF False this]
    have "\<not> bit x i" if "n \<le> i" "i < ctz_from x (Suc n) k" for i
      using ih that False by (cases "i = n") auto
    with ih False show ?thesis by auto
  qed
qed

lemma CountTrailingZeros_spec:
  assumes "x \<noteq> 0"
  shows "bit x (CountTrailingZeros x)" "CountTrailingZeros x < 64"
    and "i < CountTrailingZeros x \<Longrightarrow> \<not> bit x i"
proof -
  from assms obtain j where "bit x j" by (auto simp: word_neq_0_bit)
  then have "\<exists>i < 0 + 64. 0 \<le> i \<and> bit x i" using bit_imp_le_length [of x j] by auto
  from ctz_from_spec [OF this]
  show "bit x (CountTrailingZeros x)" "i < CountTrailingZeros x \<Longrightarrow> \<not> bit x i"
    by (auto simp: CountTrailingZeros_def)
  then show "CountTrailingZeros x < 64" using bit_imp_le_length by fastforce
qed

lemma clz_below_spec:
  assumes "\<exists>i < k. bit x i" "k \<le> 64"
  shows "clz_below x k < 64 \<and> bit x (63 - clz_below x k) \<and> (\<forall>i. 63 - clz_below x k < i \<and> i < k \<longrightarrow> \<not> bit x i)"
  using assms
proof (induction k)
  case 0
  then show ?case by simp
next
  case (Suc k)
  show ?case
  proof (cases "bit x k")
    case True
    then show ?thesis using Suc.prems by auto
  next
    case False
    with Suc.prems have "\<exists>i < k. bit x i" by (metis less_Suc_eq)
    with Suc.IH Suc.prems False show ?thesis by (auto simp: less_Suc_eq)
  qed
qed

lemma CountLeadingZeros_spec:
  assumes "x \<noteq> 0"
  shows "CountLeadingZeros x < 64" "bit x (63 - CountLeadingZeros x)"
    and "63 - CountLeadingZeros x < i \<Longrightarrow> \<not> bit x i"
proof -
  from assms obtain j where "bit x j" by (auto simp: word_neq_0_bit)
  then have "\<exists>i < 64. bit x i" using bit_imp_le_length [of x j] by auto
  from clz_below_spec [OF this]
  show "CountLeadingZeros x < 64" "bit x (63 - CountLeadingZeros x)"
    and "63 - CountLeadingZeros x < i \<Longrightarrow> \<not> bit x i"
    using bit_imp_le_length [of x i] by (auto simp: CountLeadingZeros_def)
qed

section \<open>Arithmetic checks and conversions\<close>

lemma WillAddOverflow_iff:
  assumes "is_int64 a" "is_int64 b"
  shows "WillAddOverflow a b \<longleftrightarrow> \<not> is_int64 (a + b)"
proof -
  have "b > 0 \<Longrightarrow> is_int64 (kMaxInt64 - b)" "b < 0 \<Longrightarrow> is_int64 (kMinInt64 - b)"
    using assms by (auto simp: is_int64_def limits)
  then show ?thesis
    using assms by (auto simp: WillAddOverflow_def is_int64_def)
qed

lemma WillSubOverflow_iff:
  assumes "is_int64 a" "is_int64 b"
  shows "WillSubOverflow a b \<longleftrightarrow> \<not> is_int64 (a - b)"
proof -
  have "b > 0 \<Longrightarrow> is_int64 (kMinInt64 + b)" "b < 0 \<Longrightarrow> is_int64 (kMaxInt64 + b)"
    using assms by (auto simp: is_int64_def limits)
  then show ?thesis
    using assms by (auto simp: WillSubOverflow_def is_int64_def)
qed

lemma RangeCheck_iff:
  assumes "is_int64 offset" "is_int64 count" "is_int64 len"
  shows "RangeCheck offset count len \<longleftrightarrow> 0 \<le> offset \<and> 0 \<le> count \<and> 0 \<le> len \<and> offset + count \<le> len"
proof -
  have "0 \<le> offset \<Longrightarrow> 0 \<le> len \<Longrightarrow> is_int64 (len - offset)"
    using assms by (auto simp: is_int64_def limits)
  then show ?thesis by (auto simp: RangeCheck_def)
qed

lemma LowHigh_roundtrip:
  assumes "is_int64 v"
  shows "LowHighTo64Bits (Low32Bits v) (High32Bits v) = v"
proof -
  have high: "High32Bits v = v div 2 ^ 32"
  proof -
    have "0 \<le> v div 2 ^ 32 + 2 ^ 31" "v div 2 ^ 32 + 2 ^ 31 < (2 ^ 32 :: int)"
      using assms by (auto simp: is_int64_def limits)
    then show ?thesis by (simp add: High32Bits_def int32_def drop_bit_int_def)
  qed
  have "- (2 ^ 31) * 2 ^ 32 \<le> v" "v < 2 ^ 31 * 2 ^ 32"
    using assms by (auto simp: is_int64_def limits)
  then have "- (2 ^ 31) \<le> v div 2 ^ 32" "v div 2 ^ 32 < 2 ^ 31" by simp_all
  then have "is_int64 (v div 2 ^ 32 * 2 ^ 32)"
    by (simp add: is_int64_def limits)
  then have "int64 (push_bit 32 (High32Bits v)) = push_bit 32 (v div 2 ^ 32)"
    by (simp add: high push_bit_eq_mult)
  moreover have "Low32Bits v mod 2 ^ 32 = take_bit 32 v"
    by (simp add: Low32Bits_def int32_def take_bit_eq_mod mod_diff_left_eq)
  moreover have "x AND 0x0ffffffff = take_bit 32 x" for x :: int
    by (simp add: take_bit_eq_mask mask_eq_exp_minus_1)
  ultimately have "LowHighTo64Bits (Low32Bits v) (High32Bits v) = push_bit 32 (v div 2 ^ 32) OR take_bit 32 v"
    by (simp add: LowHighTo64Bits_def)
  also have "\<dots> = concat_bit 32 v (v div 2 ^ 32)"
    by (simp add: concat_bit_def or.commute)
  also have "\<dots> = v"
    by (simp add: concat_bit_eq push_bit_eq_mult take_bit_eq_mod)
  finally show ?thesis .
qed

lemma HexDigit_roundtrip: "0 \<le> i \<and> i < 16 \<Longrightarrow> IsHexDigit (IntToHexDigit i) \<and> HexDigitToInt (IntToHexDigit i) = i"
  by (auto simp: IsHexDigit_def IsDecimalDigit_def HexDigitToInt_def IntToHexDigit_def)

end
