(* ===== verification/Hash_Map.thy ===== *)
theory Hash_Map
  imports Probing Keyed_Store Dart_Utils
begin

text \<open>
  Class \<open>HashMap\<close> of \<^verbatim>\<open>platform/hashmap.h\<close> and \<^verbatim>\<open>platform/hashmap.cc\<close>: an open
  addressing hash table from pointers to pointers whose clients supply the hash of a key and the
  comparison of keys. Pointers are values of a type parameter, with \<open>None\<close> for \<open>NULL\<close>; an
  \<open>Entry*\<close> into the table is its index. The constructor's allocation is assumed to succeed.
\<close>

section \<open>The table and its operations\<close>

record ('k, 'v) Entry =
  ekey :: "'k option"
  evalue :: "'v option"
  ehash :: u32

record ('k, 'v) HashMap =
  match_fn :: "'k \<Rightarrow> 'k \<Rightarrow> bool"
  slots :: "('k, 'v) Entry list"
  capacity :: u32
  occupancy :: u32

text \<open>Keys that are C strings: their bytes without the terminator. \<open>char\<close> is signed on the
  supported targets.\<close>

fun HashMap_StringHash_loop :: "u8 list \<Rightarrow> u32 \<Rightarrow> u32" where
  "HashMap_StringHash_loop [] hash = hash"
| "HashMap_StringHash_loop (c # cs) hash =
     (let hash = hash + scast c;
          hash = hash + push_bit 10 hash;
          hash = hash XOR drop_bit 6 hash
      in HashMap_StringHash_loop cs hash)"

definition HashMap_StringHash :: "u8 list option \<Rightarrow> u32" where
  "HashMap_StringHash key =
     (case key of
        None \<Rightarrow> 0
      | Some key \<Rightarrow>
          (let hash = HashMap_StringHash_loop key 0;
               hash = hash + push_bit 3 hash;
               hash = hash XOR drop_bit 11 hash;
               hash = hash + push_bit 15 hash
           in if hash = 0 then 1 else hash))"

definition SamePointerValue :: "'k \<Rightarrow> 'k \<Rightarrow> bool" where
  "SamePointerValue key1 key2 \<longleftrightarrow> key1 = key2"

definition SameStringValue :: "u8 list \<Rightarrow> u8 list \<Rightarrow> bool" where
  "SameStringValue key1 key2 \<longleftrightarrow> key1 = key2"

text \<open>\<open>Clear\<close> and \<open>Initialize\<close>. Freshly allocated entries hold arbitrary data; only the key
  of an entry is read before the entry is written, and \<open>Clear\<close> resets the keys.\<close>

definition Clear :: "('k, 'v) HashMap \<Rightarrow> ('k, 'v) HashMap" where
  "Clear m = m\<lparr>slots := map (\<lambda>p. p\<lparr>ekey := None\<rparr>) (slots m), occupancy := 0\<rparr>"

definition Initialize :: "('k, 'v) HashMap \<Rightarrow> u32 \<Rightarrow> ('k, 'v) HashMap" where
  "Initialize m cap =
     Clear (m\<lparr>slots := replicate (unat cap) \<lparr>ekey = None, evalue = None, ehash = 0\<rparr>,
              capacity := cap\<rparr>)"

definition HashMap_new :: "('k \<Rightarrow> 'k \<Rightarrow> bool) \<Rightarrow> u32 \<Rightarrow> ('k, 'v) HashMap" where
  "HashMap_new match initial_capacity =
     Initialize \<lparr>match_fn = match, slots = [], capacity = 0, occupancy = 0\<rparr> initial_capacity"

text \<open>\<open>Probe\<close>: the condition under which its loop goes on, and the step to the next entry.\<close>

definition Probe_continues :: "('k, 'v) HashMap \<Rightarrow> 'k \<Rightarrow> u32 \<Rightarrow> ('k, 'v) Entry \<Rightarrow> bool" where
  "Probe_continues m key hash p \<longleftrightarrow>
     (case ekey p of
        None \<Rightarrow> False
      | Some pkey \<Rightarrow> hash \<noteq> ehash p \<or> \<not> match_fn m key pkey)"

definition Probe_next :: "nat \<Rightarrow> nat \<Rightarrow> nat" where
  "Probe_next end p = (let p = p + 1 in if p \<ge> end then 0 else p)"

definition Probe :: "('k, 'v) HashMap \<Rightarrow> 'k \<Rightarrow> u32 \<Rightarrow> nat option" where
  "Probe m key hash =
     probe_loop (\<lambda>p. \<not> Probe_continues m key hash p) (Probe_next (unat (capacity m))) (slots m)
       (unat (hash AND (capacity m - 1)))"

text \<open>\<open>Lookup\<close> grows a table that is 80 percent full by \<open>Resize\<close>, which looks every entry of
  the old table up in the new one. The first argument bounds the depth of this recursion; a call
  that would need more is \<open>None\<close>.\<close>

function Lookup_rec :: "nat \<Rightarrow> ('k, 'v) HashMap \<Rightarrow> 'k \<Rightarrow> u32 \<Rightarrow> bool \<Rightarrow> (nat option \<times> ('k, 'v) HashMap) option"
  and Resize_rec :: "nat \<Rightarrow> ('k, 'v) HashMap \<Rightarrow> ('k, 'v) HashMap option"
  and Resize_loop :: "nat \<Rightarrow> ('k, 'v) Entry list \<Rightarrow> nat \<Rightarrow> ('k, 'v) HashMap \<Rightarrow> ('k, 'v) HashMap option"
where
  "Lookup_rec d m key hash ins =
     (case Probe m key hash of
        None \<Rightarrow> None
      | Some p \<Rightarrow>
          if ekey (slots m ! p) \<noteq> None then Some (Some p, m)
          else if ins then
            (let m = m\<lparr>slots := (slots m)[p := \<lparr>ekey = Some key, evalue = None, ehash = hash\<rparr>],
                       occupancy := occupancy m + 1\<rparr>
             in if occupancy m + occupancy m div 4 \<ge> capacity m then
                  (case d of
                     0 \<Rightarrow> None
                   | Suc d' \<Rightarrow>
                       (case Resize_rec d' m of
                          None \<Rightarrow> None
                        | Some m \<Rightarrow> map_option (\<lambda>p. (Some p, m)) (Probe m key hash)))
                else Some (Some p, m))
          else Some (None, m))"
| "Resize_rec d m =
     Resize_loop d (slots m) (unat (occupancy m)) (Initialize m (capacity m * 2))"
| "Resize_loop d old n m =
     (if n > 0 then
        (case old of
           [] \<Rightarrow> None
         | p # old' \<Rightarrow>
             (case ekey p of
                None \<Rightarrow> Resize_loop d old' n m
              | Some key \<Rightarrow>
                  (case Lookup_rec d m key (ehash p) True of
                     Some (Some q, m) \<Rightarrow>
                       Resize_loop d old' (n - 1)
                         (m\<lparr>slots := (slots m)[q := (slots m ! q)\<lparr>evalue := evalue p\<rparr>]\<rparr>)
                   | _ \<Rightarrow> None)))
      else Some m)"
  by pat_completeness auto
termination
  by (relation "measures
        [case_sum (\<lambda>x. fst x) (case_sum (\<lambda>x. fst x) (\<lambda>x. fst x)),
         case_sum (\<lambda>x. 0) (case_sum (\<lambda>(d, m). Suc (Suc (length (slots m)))) (\<lambda>(d, old, n, m). Suc (length old)))]")
    auto

declare Lookup_rec.simps [simp del] Resize_rec.simps [simp del] Resize_loop.simps [simp del]

definition Lookup :: "('k, 'v) HashMap \<Rightarrow> 'k \<Rightarrow> u32 \<Rightarrow> bool \<Rightarrow> (nat option \<times> ('k, 'v) HashMap) option" where
  "Lookup = Lookup_rec 1"

partial_function (option) Remove_loop ::
    "u32 \<Rightarrow> ('k, 'v) Entry list \<Rightarrow> nat \<Rightarrow> nat \<Rightarrow> (('k, 'v) Entry list \<times> nat) option" where
  "Remove_loop cap mp candidate next =
     (let next = next + 1;
          next = (if next = unat cap then 0 else next)
      in if \<not> next < length mp then None
         else if ekey (mp ! next) = None then Some (mp, candidate)
         else
           (let start = unat (ehash (mp ! next) AND (cap - 1))
            in if next > candidate \<and> (start \<le> candidate \<or> start > next)
                  \<or> next < candidate \<and> (start \<le> candidate \<and> start > next)
               then Remove_loop cap (mp[candidate := mp ! next]) next next
               else Remove_loop cap mp candidate next))"

definition Remove :: "('k, 'v) HashMap \<Rightarrow> 'k \<Rightarrow> u32 \<Rightarrow> ('k, 'v) HashMap option" where
  "Remove m key hash =
     (case Probe m key hash of
        None \<Rightarrow> None
      | Some candidate \<Rightarrow>
          if ekey (slots m ! candidate) = None then Some m
          else
            (case Remove_loop (capacity m) (slots m) candidate candidate of
               None \<Rightarrow> None
             | Some (mp, candidate) \<Rightarrow>
                 Some (m\<lparr>slots := mp[candidate := (mp ! candidate)\<lparr>ekey := None\<rparr>],
                         occupancy := occupancy m - 1\<rparr>)))"

text \<open>Iteration. \<open>Start\<close> is \<open>Next\<close> of the position before the first entry.\<close>

function Next_loop :: "('k, 'v) HashMap \<Rightarrow> nat \<Rightarrow> nat option" where
  "Next_loop m p =
     (if p < length (slots m)
      then if ekey (slots m ! p) \<noteq> None then Some p else Next_loop m (Suc p)
      else None)"
  by pat_completeness auto
termination
  by (relation "measure (\<lambda>(m, p). length (slots m) - p)") auto

declare Next_loop.simps [simp del]

definition Next :: "('k, 'v) HashMap \<Rightarrow> int \<Rightarrow> nat option" where
  "Next m p = Next_loop m (nat (p + 1))"

definition Start :: "('k, 'v) HashMap \<Rightarrow> nat option" where
  "Start m = Next m (- 1)"

section \<open>The table as a linear probing table\<close>

definition hm_size :: "nat \<Rightarrow> bool" where
  "hm_size n \<longleftrightarrow> (\<exists>k < 32. n = 2 ^ k)"

definition hm_unused :: "('k, 'v) Entry \<Rightarrow> bool" where
  "hm_unused e \<longleftrightarrow> ekey e = None"

definition hm_live :: "('k, 'v) Entry \<Rightarrow> bool" where
  "hm_live e \<longleftrightarrow> ekey e \<noteq> None"

definition hm_home :: "nat \<Rightarrow> ('k, 'v) Entry \<Rightarrow> nat" where
  "hm_home n e = unat (ehash e AND (of_nat n - 1))"

lemmas hm_slot_defs = hm_unused_def hm_live_def

lemma hm_home_of_hash:
  assumes "hm_size n"
  shows "unat (h AND (of_nat n - 1) :: u32) = unat h mod n"
  using assms by (auto simp: hm_size_def unat_and_pow2_minus_1)

lemma hm_size_pos: "hm_size n \<Longrightarrow> 0 < n"
  by (auto simp: hm_size_def)

interpretation hm: probe_table hm_size hm_unused hm_live hm_home Probe_next
proof unfold_locales
  show "hm_live s \<Longrightarrow> \<not> hm_unused s" for s :: "('k, 'v) Entry"
    by (simp add: hm_slot_defs)
  show "hm_size n \<Longrightarrow> hm_home n s < n" for n and s :: "('k, 'v) Entry"
    by (simp add: hm_home_def hm_home_of_hash hm_size_pos)
  show "hm_size n \<Longrightarrow> i < n \<Longrightarrow> Probe_next n i = Suc i mod n" for n i
    by (auto simp: Probe_next_def Let_def mod_if)
qed

definition hm_matches :: "('k, 'v) HashMap \<Rightarrow> 'k \<Rightarrow> u32 \<Rightarrow> ('k, 'v) Entry \<Rightarrow> bool" where
  "hm_matches m k h e \<longleftrightarrow> ehash e = h \<and> (case ekey e of None \<Rightarrow> False | Some k' \<Rightarrow> match_fn m k k')"

definition hm_same :: "('k, 'v) HashMap \<Rightarrow> ('k, 'v) Entry \<Rightarrow> ('k, 'v) Entry \<Rightarrow> bool" where
  "hm_same m e e' \<longleftrightarrow> (case ekey e of None \<Rightarrow> False | Some k \<Rightarrow> hm_matches m k (ehash e) e')"

text \<open>The invariant: the capacity is the length of the array and a power of two, the occupancy
  counts the entries, at least one slot is unused, every entry is reachable and no two entries are
  for the same key.\<close>

definition hm_table :: "('k, 'v) HashMap \<Rightarrow> bool" where
  "hm_table m \<longleftrightarrow>
     hm_size (length (slots m)) \<and> unat (capacity m) = length (slots m)
     \<and> unat (occupancy m) = size (entries hm_live (slots m))
     \<and> chained hm_unused hm_live hm_home (slots m)
     \<and> clash_free (hm_same m) (entries hm_live (slots m))"

definition hm_invar :: "('k, 'v) HashMap \<Rightarrow> bool" where
  "hm_invar m \<longleftrightarrow> hm_table m \<and> unat (occupancy m) + unat (occupancy m) div 4 < unat (capacity m)"

lemma hm_home_hash:
  "hm_table m \<Longrightarrow> unat (h AND (capacity m - 1)) = hm_home (length (slots m)) e \<longleftrightarrow>
     unat h mod length (slots m) = unat (ehash e) mod length (slots m)"
proof -
  assume m: "hm_table m"
  then have "capacity m = of_nat (length (slots m))"
    by (intro word_eq_of_unat) (simp add: hm_table_def)
  with m show ?thesis by (simp add: hm_home_def hm_home_of_hash hm_table_def)
qed

lemma Probe_stop: "(\<not> Probe_continues m k h e) = (hm_unused e \<or> hm_matches m k h e)"
  by (auto simp: Probe_continues_def hm_unused_def hm_matches_def split: option.splits)

lemma unused_slot_exists:
  assumes "size (entries hm_live a) < length a"
  obtains e where "e < length a" "hm_unused (a ! e)"
proof -
  have "filter hm_live a \<noteq> a" using assms by (auto simp: size_entries)
  then have "\<exists>s \<in> set a. \<not> hm_live s" by (auto simp: filter_id_conv)
  then show thesis using that by (auto simp: in_set_conv_nth hm_slot_defs)
qed

lemma Probe_spec:
  fixes m :: "('k, 'v) HashMap"
  assumes m: "hm_table m" and room: "unat (occupancy m) < unat (capacity m)"
  obtains p where "p < length (slots m)" "Probe m k h = Some p"
    "if \<exists>e \<in> set (slots m). hm_matches m k h e then hm_matches m k h (slots m ! p)
     else hm_unused (slots m ! p)"
    "\<And>c (e :: ('k, 'v) Entry). ehash e = h \<Longrightarrow> c < length (slots m) \<Longrightarrow> in_chain (length (slots m)) (hm_home (length (slots m)) e) p c \<Longrightarrow>
       \<not> hm_unused (slots m ! c)"
proof -
  let ?a = "slots m" and ?h = "unat (h AND (capacity m - 1))"
  have size: "hm_size (length ?a)" and ch: "chained hm_unused hm_live hm_home ?a"
    and cap: "unat (capacity m) = length ?a"
    using m by (auto simp: hm_table_def)
  obtain e where e: "e < length ?a" "hm_unused (?a ! e)"
    using unused_slot_exists [of ?a] m room by (auto simp: hm_table_def)
  have hh: "?h = hm_home (length ?a) e'" if "ehash e' = h" for e' :: "('k, 'v) Entry"
    using hm_home_hash [OF m] that by blast
  have h: "?h < length ?a"
    using hm.home_less [OF size] hh [of "\<lparr>ekey = None, evalue = None, ehash = h\<rparr>"] by simp
  have P: "hm_live s \<and> hm_home (length ?a) s = ?h" if "hm_matches m k h s" for s
    using hh [of s] that by (auto simp: hm_matches_def hm_live_def split: option.splits)
  obtain p where p: "p < length ?a"
      "probe_loop (\<lambda>s. hm_unused s \<or> hm_matches m k h s) (Probe_next (length ?a)) ?a ?h = Some p"
      "if \<exists>s \<in> set ?a. hm_matches m k h s then hm_matches m k h (?a ! p) else hm_unused (?a ! p)"
      "\<And>c. c < length ?a \<Longrightarrow> in_chain (length ?a) ?h p c \<Longrightarrow> \<not> hm_unused (?a ! c)"
    using hm.search_spec [OF size ch e, of "hm_matches m k h" ?h] P h by blast
  show thesis
  proof (rule that [OF p(1) _ p(3)])
    show "Probe m k h = Some p" using p(2) by (simp add: Probe_def Probe_stop cap)
    show "\<not> hm_unused (?a ! c)" if "ehash e = h" "c < length ?a" "in_chain (length ?a) (hm_home (length ?a) e) p c" for c and e :: "('k, 'v) Entry"
      using p(4) [of c] hh [OF that(1)] that by simp
  qed
qed

lemma hm_matches_cong: "match_fn m = match_fn m' \<Longrightarrow> hm_matches m = hm_matches m'"
  by (intro ext) (simp add: hm_matches_def split: option.split)

lemma hm_same_cong: "match_fn m = match_fn m' \<Longrightarrow> hm_same m = hm_same m'"
  by (intro ext) (simp add: hm_same_def hm_matches_cong [of m m'] split: option.split)

lemma hm_matches_updates [simp]:
  "hm_matches (slots_update f m) = hm_matches m"
  "hm_matches (occupancy_update g m) = hm_matches m"
  "hm_matches (capacity_update g m) = hm_matches m"
  by (rule hm_matches_cong, simp)+

lemma hm_same_updates [simp]:
  "hm_same (slots_update f m) = hm_same m"
  "hm_same (occupancy_update g m) = hm_same m"
  "hm_same (capacity_update g m) = hm_same m"
  by (rule hm_same_cong, simp)+

lemma hm_same_sym:
  "equivp (match_fn m) \<Longrightarrow> hm_same m e e' \<Longrightarrow> hm_same m e' e"
  by (auto simp: hm_same_def hm_matches_def split: option.splits dest: equivp_symp)

lemma hm_same_matches:
  assumes "equivp (match_fn m)" "hm_matches m k h e"
  shows "hm_same m e e' \<longleftrightarrow> hm_matches m k h e'"
  using assms by (auto simp: hm_same_def hm_matches_def split: option.splits
      dest: equivp_symp equivp_transp)

lemma hm_live_matches: "hm_matches m k h e \<Longrightarrow> hm_live e"
  by (auto simp: hm_matches_def hm_live_def split: option.splits)

lemma hm_table_bounds:
  assumes "hm_table m"
  shows "unat (occupancy m) \<le> length (slots m)" "length (slots m) \<le> 2 ^ 31" "0 < length (slots m)"
proof -
  show "unat (occupancy m) \<le> length (slots m)"
    using assms by (simp add: hm_table_def size_entries)
  from assms obtain k where k: "k < 32" "length (slots m) = 2 ^ k" by (auto simp: hm_table_def hm_size_def)
  then have "(2::nat) ^ k \<le> 2 ^ 31" by (intro power_increasing) auto
  then show "length (slots m) \<le> 2 ^ 31" "0 < length (slots m)" using k by auto
qed

lemma unat_load:
  fixes occ :: u32
  assumes "unat occ \<le> 2 ^ 31"
  shows "unat (occ + occ div 4) = unat occ + unat occ div 4"
proof -
  have "unat (occ div 4) = unat occ div 4" by (simp add: unat_div)
  moreover have "unat occ + unat occ div 4 < 2 ^ LENGTH(32)" using assms by simp
  ultimately show ?thesis by (simp add: unat_word_ariths(1))
qed

lemma unat_Suc:
  fixes x :: u32
  assumes "unat x < 2 ^ 31"
  shows "unat (x + 1) = unat x + 1"
  using assms by (simp add: unat_word_ariths(1))

lemma hm_place:
  assumes m: "hm_table m" and eq: "equivp (match_fn m)"
    and p: "p < length (slots m)" "hm_unused (slots m ! p)"
    and e: "ekey e = Some k" "ehash e = h"
    and chain: "\<And>c. c < length (slots m) \<Longrightarrow>
        in_chain (length (slots m)) (hm_home (length (slots m)) e) p c \<Longrightarrow> \<not> hm_unused (slots m ! c)"
    and new: "\<not> (\<exists>e \<in> set (slots m). hm_matches m k h e)"
    and occ: "unat (occupancy m) < length (slots m)"
  defines "m' \<equiv> m\<lparr>slots := (slots m)[p := e], occupancy := occupancy m + 1\<rparr>"
  shows "hm_table m'" "entries hm_live (slots m') = add_mset e (entries hm_live (slots m))"
    "unat (occupancy m') = unat (occupancy m) + 1"
proof -
  show ent: "entries hm_live (slots m') = add_mset e (entries hm_live (slots m))"
    using p e by (simp add: m'_def entries_update hm_slot_defs)
  show occ': "unat (occupancy m') = unat (occupancy m) + 1"
    using occ hm_table_bounds [OF m] by (simp add: m'_def unat_Suc)
  have "chained hm_unused hm_live hm_home (slots m')"
    unfolding m'_def using m p e
    by (simp add: hm_table_def) (rule hm.chained_update, auto dest: chain simp: hm_slot_defs)
  moreover have "clash_free (hm_same m') (entries hm_live (slots m'))"
  proof -
    have me: "hm_matches m k h e" using e eq by (simp add: hm_matches_def equivp_reflp)
    have "\<not> hm_same m e x" "\<not> hm_same m x e" if "x \<in># entries hm_live (slots m)" for x
      using that new hm_same_matches [OF eq me] hm_same_sym [OF eq] by (auto simp: set_entries)
    then show ?thesis
      unfolding ent using m by (simp add: clash_free_add hm_table_def m'_def)
  qed
  ultimately show "hm_table m'"
    using m occ' unfolding hm_table_def ent by (simp add: m'_def)
qed

definition hm_set_value :: "('k, 'v) HashMap \<Rightarrow> nat \<Rightarrow> 'v option \<Rightarrow> ('k, 'v) HashMap" where
  "hm_set_value m p v = m\<lparr>slots := (slots m)[p := (slots m ! p)\<lparr>evalue := v\<rparr>]\<rparr>"

lemma hm_set_value:
  assumes m: "hm_table m" and p: "p < length (slots m)" "hm_live (slots m ! p)"
  shows "hm_table (hm_set_value m p v)"
    "entries hm_live (slots (hm_set_value m p v)) =
       add_mset ((slots m ! p)\<lparr>evalue := v\<rparr>) (entries hm_live (slots m) - {#slots m ! p#})"
proof -
  let ?e = "(slots m ! p)\<lparr>evalue := v\<rparr>" and ?m = "hm_set_value m p v"
  show ent: "entries hm_live (slots ?m) = add_mset ?e (entries hm_live (slots m) - {#slots m ! p#})"
    using p by (simp add: hm_set_value_def entries_update hm_slot_defs)
  have mem: "slots m ! p \<in># entries hm_live (slots m)"
    using p by (auto simp: set_entries)
  have "chained hm_unused hm_live hm_home (slots ?m)"
    using m p unfolding hm_table_def hm_set_value_def
    by (auto intro!: hm.chained_overwrite simp: hm_slot_defs hm_home_def)
  moreover have "clash_free (hm_same ?m) (entries hm_live (slots ?m))"
  proof -
    have "hm_same m ?e x = hm_same m (slots m ! p) x" "hm_same m x ?e = hm_same m x (slots m ! p)" for x
      by (simp_all add: hm_same_def hm_matches_def split: option.split)
    moreover have "clash_free (hm_same m) (add_mset (slots m ! p) (entries hm_live (slots m) - {#slots m ! p#}))"
      using m mem by (simp add: hm_table_def)
    ultimately show ?thesis
      unfolding ent by (simp add: clash_free_add hm_set_value_def)
  qed
  ultimately show "hm_table ?m"
    using m mem unfolding hm_table_def ent
    by (simp add: hm_set_value_def size_Diff_singleton) (metis Suc_pred empty_iff gr0I set_mset_empty size_eq_0_iff_empty)
qed

lemma Lookup_rec_present:
  assumes "hm_table m" "unat (occupancy m) < unat (capacity m)"
    and "\<exists>e \<in> set (slots m). hm_matches m k h e"
  obtains p where "Lookup_rec d m k h ins = Some (Some p, m)" "p < length (slots m)" "hm_matches m k h (slots m ! p)"
proof -
  obtain p where p: "p < length (slots m)" "Probe m k h = Some p"
      "if \<exists>e \<in> set (slots m). hm_matches m k h e then hm_matches m k h (slots m ! p)
       else hm_unused (slots m ! p)"
    by (rule Probe_spec [OF assms(1,2), of k h]) (rule that)
  then have p': "hm_matches m k h (slots m ! p)" using assms(3) by simp
  then have "ekey (slots m ! p) \<noteq> None" by (auto dest: hm_live_matches simp: hm_live_def)
  with p p' show thesis by (intro that [of p]) (simp_all add: Lookup_rec.simps)
qed

lemma Lookup_rec_absent:
  assumes "hm_table m" "unat (occupancy m) < unat (capacity m)"
    and "\<not> (\<exists>e \<in> set (slots m). hm_matches m k h e)"
  shows "Lookup_rec d m k h False = Some (None, m)"
proof -
  obtain p where "Probe m k h = Some p"
      "if \<exists>e \<in> set (slots m). hm_matches m k h e then hm_matches m k h (slots m ! p)
       else hm_unused (slots m ! p)"
    by (rule Probe_spec [OF assms(1,2), of k h]) (rule that)
  then show ?thesis using assms(3) by (simp add: Lookup_rec.simps hm_unused_def)
qed

lemma Lookup_rec_insert:
  assumes m: "hm_table m" "equivp (match_fn m)" and occ: "unat (occupancy m) < unat (capacity m)"
    and new: "\<not> (\<exists>e \<in> set (slots m). hm_matches m k h e)"
  defines "e \<equiv> \<lparr>ekey = Some k, evalue = None, ehash = h\<rparr>"
  obtains p m' where "p < length (slots m)" "hm_table m'"
    "m' = m\<lparr>slots := (slots m)[p := e], occupancy := occupancy m + 1\<rparr>"
    "entries hm_live (slots m') = add_mset e (entries hm_live (slots m))"
    "unat (occupancy m') = unat (occupancy m) + 1"
    "Lookup_rec d m k h True =
      (if unat (occupancy m') + unat (occupancy m') div 4 \<ge> unat (capacity m)
       then case d of 0 \<Rightarrow> None | Suc d' \<Rightarrow>
              (case Resize_rec d' m' of None \<Rightarrow> None
               | Some m \<Rightarrow> map_option (\<lambda>p. (Some p, m)) (Probe m k h))
       else Some (Some p, m'))"
proof -
  obtain p where p: "p < length (slots m)" "Probe m k h = Some p"
      "if \<exists>e \<in> set (slots m). hm_matches m k h e then hm_matches m k h (slots m ! p)
       else hm_unused (slots m ! p)"
      "\<And>c (e :: ('a, 'b) Entry). ehash e = h \<Longrightarrow> c < length (slots m) \<Longrightarrow>
         in_chain (length (slots m)) (hm_home (length (slots m)) e) p c \<Longrightarrow> \<not> hm_unused (slots m ! c)"
    by (rule Probe_spec [OF m(1) occ, of k h]) (rule that)
  then have u: "hm_unused (slots m ! p)" using new by simp
  let ?m = "m\<lparr>slots := (slots m)[p := e], occupancy := occupancy m + 1\<rparr>"
  have occ': "unat (occupancy m) < length (slots m)" using m(1) occ by (simp add: hm_table_def)
  have ek: "ekey e = Some k" "ehash e = h" by (simp_all add: e_def)
  note place = hm_place [OF m p(1) u ek p(4) [of e, OF ek(2)] new occ']
  have "unat (occupancy ?m) \<le> 2 ^ 31"
    using place(3) occ' hm_table_bounds [OF m(1)] by simp
  then have load: "capacity m \<le> occupancy ?m + occupancy ?m div 4 \<longleftrightarrow>
      unat (capacity m) \<le> unat (occupancy ?m) + unat (occupancy ?m) div 4"
    by (simp add: word_le_nat_alt unat_load del: HashMap.simps)
  show thesis
  proof (rule that [of p ?m])
    show "Lookup_rec d m k h True =
      (if unat (occupancy ?m) + unat (occupancy ?m) div 4 \<ge> unat (capacity m)
       then case d of 0 \<Rightarrow> None | Suc d' \<Rightarrow>
              (case Resize_rec d' ?m of None \<Rightarrow> None
               | Some m \<Rightarrow> map_option (\<lambda>p. (Some p, m)) (Probe m k h))
       else Some (Some p, ?m))"
      using u load by (simp add: Lookup_rec.simps p(2) hm_unused_def Let_def e_def cong: nat.case_cong)
  qed (use p(1) place in \<open>simp_all add: e_def\<close>)
qed

text \<open>Copying the entries of the old table into a larger one never grows the larger one.\<close>

lemma Resize_loop_spec:
  assumes "hm_table m" "equivp (match_fn m)" "n = size (entries hm_live old)"
    and "unat (occupancy m) + n + (unat (occupancy m) + n) div 4 < unat (capacity m)"
    and "clash_free (hm_same m) (entries hm_live (slots m) + entries hm_live old)"
  shows "\<exists>m'. Resize_loop d old n m = Some m' \<and> hm_table m' \<and> capacity m' = capacity m
     \<and> match_fn m' = match_fn m
     \<and> entries hm_live (slots m') = entries hm_live (slots m) + entries hm_live old"
  using assms
proof (induction old arbitrary: m n)
  case Nil
  then show ?case by (simp add: Resize_loop.simps)
next
  case (Cons p old)
  show ?case
  proof (cases "ekey p")
    case None
    then have nl: "\<not> hm_live p" by (simp add: hm_live_def)
    show ?thesis
    proof (cases "n = 0")
      case True
      with Cons.prems nl show ?thesis by (simp add: Resize_loop.simps)
    next
      case False
      then have "Resize_loop d (p # old) n m = Resize_loop d old n m"
        using None by (simp add: Resize_loop.simps [of d "p # old"])
      with Cons nl show ?thesis by simp
    qed
  next
    case (Some k)
    then have l: "hm_live p" by (simp add: hm_live_def)
    have cf: "clash_free (hm_same m) (add_mset p (entries hm_live (slots m) + entries hm_live old))"
      using Cons.prems(5) l by simp
    have new: "\<not> (\<exists>e \<in> set (slots m). hm_matches m k (ehash p) e)"
    proof
      assume "\<exists>e \<in> set (slots m). hm_matches m k (ehash p) e"
      then obtain e where "e \<in># entries hm_live (slots m)" "hm_same m p e"
        using Some by (auto simp: hm_same_def set_entries hm_live_matches)
      with cf show False by (simp add: clash_free_add)
    qed
    let ?e = "\<lparr>ekey = Some k, evalue = None, ehash = ehash p\<rparr> :: ('a, 'b) Entry"
    have occ: "unat (occupancy m) < unat (capacity m)" using Cons.prems(4) by simp
    have n: "n = Suc (size (entries hm_live old))" using Cons.prems(3) l by simp
    obtain q m' where q: "q < length (slots m)" "hm_table m'"
        "m' = m\<lparr>slots := (slots m)[q := ?e], occupancy := occupancy m + 1\<rparr>"
        "entries hm_live (slots m') = add_mset ?e (entries hm_live (slots m))"
        "unat (occupancy m') = unat (occupancy m) + 1"
        "Lookup_rec d m k (ehash p) True =
          (if unat (occupancy m') + unat (occupancy m') div 4 \<ge> unat (capacity m)
           then case d of 0 \<Rightarrow> None | Suc d' \<Rightarrow>
                  (case Resize_rec d' m' of None \<Rightarrow> None
                   | Some m'' \<Rightarrow> map_option (\<lambda>p. (Some p, m'')) (Probe m'' k (ehash p)))
           else Some (Some q, m'))"
      by (rule Lookup_rec_insert [OF Cons.prems(1,2) occ new, of d])
    have "unat (occupancy m') + unat (occupancy m') div 4
        \<le> unat (occupancy m) + n + (unat (occupancy m) + n) div 4"
      using q(5) n by (intro add_mono div_le_mono) auto
    then have look: "Lookup_rec d m k (ehash p) True = Some (Some q, m')"
      using q(6) Cons.prems(4) by simp
    let ?m = "hm_set_value m' q (evalue p)"
    have e: "slots m' ! q = ?e" "q < length (slots m')" using q(1,3) by simp_all
    have p: "?e\<lparr>evalue := evalue p\<rparr> = p" using Some by simp
    have m2: "hm_table ?m" "entries hm_live (slots ?m) = add_mset p (entries hm_live (slots m))"
      using hm_set_value [OF q(2) e(2), of "evalue p"] e p q(4) by (simp_all add: hm_live_def)
    have upd: "capacity ?m = capacity m" "match_fn ?m = match_fn m" "occupancy ?m = occupancy m'"
      using q(3) by (simp_all add: hm_set_value_def)
    have "Resize_loop d (p # old) n m = Resize_loop d old (n - 1) ?m"
      using n Some look by (simp add: Resize_loop.simps [of d "p # old"] hm_set_value_def)
    moreover have "\<exists>m'. Resize_loop d old (n - 1) ?m = Some m' \<and> hm_table m' \<and> capacity m' = capacity ?m
       \<and> match_fn m' = match_fn ?m \<and> entries hm_live (slots m') = entries hm_live (slots ?m) + entries hm_live old"
    proof (rule Cons.IH)
      show "clash_free (hm_same ?m) (entries hm_live (slots ?m) + entries hm_live old)"
        using cf m2(2) hm_same_cong [OF upd(2)] by simp
    qed (use m2 upd n q(5) Cons.prems in simp_all)
    ultimately show ?thesis using upd m2(2) l by simp
  qed
qed

lemma Initialize_spec:
  assumes "hm_size (unat cap)"
  shows "hm_table (Initialize m cap)" "entries hm_live (slots (Initialize m cap)) = {#}"
    "capacity (Initialize m cap) = cap" "match_fn (Initialize m cap) = match_fn m"
    "occupancy (Initialize m cap) = 0"
proof -
  show ent: "entries hm_live (slots (Initialize m cap)) = {#}"
    by (simp add: Initialize_def Clear_def entries_def hm_live_def)
  show "capacity (Initialize m cap) = cap" "match_fn (Initialize m cap) = match_fn m"
    "occupancy (Initialize m cap) = 0"
    by (simp_all add: Initialize_def Clear_def)
  show "hm_table (Initialize m cap)"
    unfolding hm_table_def ent using assms
    by (auto simp: Initialize_def Clear_def hm_live_def intro: hm.chained_no_live)
qed

lemma Resize_rec_spec:
  assumes m: "hm_table m" "equivp (match_fn m)" and cap: "unat (capacity m) \<le> 2 ^ 30"
  obtains m' where "Resize_rec d m = Some m'" "hm_table m'" "match_fn m' = match_fn m"
    "unat (capacity m') = 2 * unat (capacity m)" "occupancy m' = occupancy m"
    "entries hm_live (slots m') = entries hm_live (slots m)"
proof -
  obtain k where k: "unat (capacity m) = 2 ^ k" using m(1) by (auto simp: hm_table_def hm_size_def)
  have k30: "k \<le> 30" using cap unfolding k by (rule power_le_imp_le_exp [rotated]) simp
  have dbl: "unat (capacity m * 2) = 2 * unat (capacity m)"
    using cap by (simp add: unat_word_ariths(2))
  then have "unat (capacity m * 2) = 2 ^ Suc k" using k by simp
  then have size: "hm_size (unat (capacity m * 2))"
    unfolding hm_size_def using k30 by (intro exI [of _ "Suc k"]) auto
  note I = Initialize_spec [OF size, of m]
  have occ: "unat (occupancy m) = size (entries hm_live (slots m))"
      "unat (occupancy m) \<le> unat (capacity m)" "0 < unat (capacity m)"
    using m(1) hm_table_bounds [OF m(1)] by (auto simp: hm_table_def)
  have "\<exists>m'. Resize_loop d (slots m) (unat (occupancy m)) (Initialize m (capacity m * 2)) = Some m'
     \<and> hm_table m' \<and> capacity m' = capacity (Initialize m (capacity m * 2))
     \<and> match_fn m' = match_fn (Initialize m (capacity m * 2))
     \<and> entries hm_live (slots m') =
        entries hm_live (slots (Initialize m (capacity m * 2))) + entries hm_live (slots m)"
  proof (rule Resize_loop_spec)
    show "clash_free (hm_same (Initialize m (capacity m * 2)))
       (entries hm_live (slots (Initialize m (capacity m * 2))) + entries hm_live (slots m))"
      using m(1) I(2) hm_same_cong [OF I(4)] by (simp add: hm_table_def)
  qed (use I m dbl occ in auto)
  then obtain m' where m': "Resize_rec d m = Some m'" "hm_table m'" "capacity m' = capacity m * 2"
      "match_fn m' = match_fn m" "entries hm_live (slots m') = entries hm_live (slots m)"
    using I by (auto simp: Resize_rec.simps)
  show thesis
  proof (rule that [OF m'(1,2,4) _ _ m'(5)])
    show "unat (capacity m') = 2 * unat (capacity m)" using m'(3) dbl by simp
    show "occupancy m' = occupancy m"
      using m'(2,5) occ by (intro word_unat_eq_iff [THEN iffD2]) (simp add: hm_table_def)
  qed
qed

lemma Lookup_insert_spec:
  assumes m: "hm_invar m" "equivp (match_fn m)" and small: "unat (occupancy m) < 2 ^ 30"
    and new: "\<not> (\<exists>e \<in> set (slots m). hm_matches m k h e)"
  defines "e \<equiv> \<lparr>ekey = Some k, evalue = None, ehash = h\<rparr>"
  obtains p m' where "Lookup m k h True = Some (Some p, m')" "hm_invar m'" "match_fn m' = match_fn m"
    "p < length (slots m')" "hm_matches m' k h (slots m' ! p)"
    "entries hm_live (slots m') = add_mset e (entries hm_live (slots m))"
    "unat (occupancy m') = unat (occupancy m) + 1"
proof -
  have tab: "hm_table m" and occ: "unat (occupancy m) < unat (capacity m)"
    using m(1) by (auto simp: hm_invar_def)
  obtain p m' where p: "p < length (slots m)" "hm_table m'"
    "m' = m\<lparr>slots := (slots m)[p := e], occupancy := occupancy m + 1\<rparr>"
    "entries hm_live (slots m') = add_mset e (entries hm_live (slots m))"
    "unat (occupancy m') = unat (occupancy m) + 1"
    "Lookup_rec 1 m k h True =
      (if unat (occupancy m') + unat (occupancy m') div 4 \<ge> unat (capacity m)
       then case 1 of 0 \<Rightarrow> None | Suc d' \<Rightarrow>
              (case Resize_rec d' m' of None \<Rightarrow> None
               | Some m \<Rightarrow> map_option (\<lambda>p. (Some p, m)) (Probe m k h))
       else Some (Some p, m'))"
    unfolding e_def by (rule Lookup_rec_insert [OF tab m(2) occ new, of 1])
  have mf: "match_fn m' = match_fn m" "capacity m' = capacity m" using p(3) by simp_all
  have me: "hm_matches m k h e" using m(2) by (simp add: hm_matches_def e_def equivp_reflp)
  show thesis
  proof (cases "unat (occupancy m') + unat (occupancy m') div 4 \<ge> unat (capacity m)")
    case False
    show thesis
    proof (rule that [of p m'])
      show "hm_invar m'" using False p(2) mf by (simp add: hm_invar_def)
      show "hm_matches m' k h (slots m' ! p)" using p(1,3) me by simp
    qed (use False p mf in \<open>simp_all add: Lookup_def\<close>)
  next
    case True
    obtain j where j: "unat (capacity m) = 2 ^ j" using tab by (auto simp: hm_table_def hm_size_def)
    have "(2::nat) ^ j < 2 ^ 31" using True small p(5) j by simp
    then have "j < 31" by (rule power_less_imp_less_exp [rotated]) simp
    then have cap: "unat (capacity m') \<le> 2 ^ 30" unfolding mf j by (intro power_increasing) auto
    obtain m'' where r: "Resize_rec 0 m' = Some m''" "hm_table m''" "match_fn m'' = match_fn m'"
      "unat (capacity m'') = 2 * unat (capacity m')" "occupancy m'' = occupancy m'"
      "entries hm_live (slots m'') = entries hm_live (slots m')"
      using m(2) by (rule_tac Resize_rec_spec [OF p(2) _ cap, of 0]) (simp_all add: mf)
    have inv: "hm_invar m''" and room: "unat (occupancy m'') < unat (capacity m'')"
      using r(2,4,5) p(5) mf occ by (simp_all add: hm_invar_def)
    have mm: "hm_matches m'' = hm_matches m" using r(3) mf by (intro hm_matches_cong) simp
    have "e \<in># entries hm_live (slots m'')" using r(6) p(4) by simp
    then have ex: "\<exists>e \<in> set (slots m''). hm_matches m'' k h e"
      using me unfolding mm by (auto simp: set_entries)
    obtain q where q: "q < length (slots m'')" "Probe m'' k h = Some q"
      "if \<exists>e \<in> set (slots m''). hm_matches m'' k h e then hm_matches m'' k h (slots m'' ! q)
       else hm_unused (slots m'' ! q)"
      by (rule Probe_spec [OF r(2) room, of k h]) (rule that)
    show thesis
    proof (rule that [OF _ inv _ q(1)])
      show "Lookup m k h True = Some (Some q, m'')"
        using p(6) True r(1) q(2) by (simp add: Lookup_def)
      show "hm_matches m'' k h (slots m'' ! q)" using q(3) ex by simp
    qed (use r p mf in simp_all)
  qed
qed

section \<open>The table as a partial map\<close>

definition hm_get :: "('k, 'v) HashMap \<Rightarrow> 'k \<Rightarrow> u32 \<Rightarrow> 'v option option" where
  "hm_get m k h = map_option evalue (find (hm_matches m k h) (slots m))"

lemma hm_get_None: "hm_get m k h = None \<longleftrightarrow> \<not> (\<exists>e \<in># entries hm_live (slots m). hm_matches m k h e)"
  by (auto simp: hm_get_def find_None_iff set_entries dest: hm_live_matches)

lemma hm_get_Some:
  assumes "hm_table m" "equivp (match_fn m)" "e \<in># entries hm_live (slots m)" "hm_matches m k h e"
  shows "hm_get m k h = Some (evalue e)"
proof -
  obtain e' where e': "find (hm_matches m k h) (slots m) = Some e'"
    using assms(3,4) by (cases "find (hm_matches m k h) (slots m)") (auto simp: find_None_iff set_entries)
  then have "e' \<in># entries hm_live (slots m)" "hm_matches m k h e'"
    by (auto simp: find_Some_iff set_entries dest: hm_live_matches)
  with assms have "e' = e"
    using hm_same_matches [OF assms(2), of k h e' e] clash_free_unique [of "hm_same m" "entries hm_live (slots m)" e' e]
    by (simp add: hm_table_def)
  with e' show ?thesis by (simp add: hm_get_def)
qed

lemma hm_matches_trans:
  assumes "equivp (match_fn m)" "hm_matches m k h e"
  shows "hm_matches m k' h' e \<longleftrightarrow> h = h' \<and> match_fn m k k'"
  using assms by (auto simp: hm_matches_def split: option.splits dest: equivp_symp equivp_transp)

text \<open>A table whose entries are those of another one, except that exactly the keys matching \<open>(k, h)\<close>
  are mapped to \<open>v\<close>.\<close>

lemma hm_get_update:
  assumes "hm_table m" "equivp (match_fn m)" "hm_table m'" "match_fn m' = match_fn m"
    and e: "hm_matches m k h e" "evalue e = v"
    and ent: "entries hm_live (slots m') = add_mset e (filter_mset (\<lambda>x. \<not> hm_matches m k h x) (entries hm_live (slots m)))"
  shows "hm_get m' k' h' = (if h = h' \<and> match_fn m k k' then Some v else hm_get m k' h')"
proof -
  have mm: "hm_matches m' = hm_matches m" using assms(4) by (rule hm_matches_cong)
  have eq': "equivp (match_fn m')" using assms(2,4) by simp
  show ?thesis
  proof (cases "h = h' \<and> match_fn m k k'")
    case True
    then have "hm_matches m' k' h' e" using hm_matches_trans [OF assms(2) e(1)] by (simp add: mm)
    then have "hm_get m' k' h' = Some v"
      using hm_get_Some [OF assms(3) eq', of e] ent e(2) by simp
    with True show ?thesis by simp
  next
    case False
    then have ne: "\<not> hm_matches m k' h' e" using hm_matches_trans [OF assms(2) e(1)] by simp
    have nk: "\<not> hm_matches m k h x" if "hm_matches m k' h' x" for x
      using that False hm_matches_trans [OF assms(2), of k h x k' h'] by blast
    have "hm_get m' k' h' = hm_get m k' h'"
    proof (cases "\<exists>x \<in># entries hm_live (slots m). hm_matches m k' h' x")
      case True
      then obtain x where x: "x \<in># entries hm_live (slots m)" "hm_matches m k' h' x" by blast
      with nk have "x \<in># entries hm_live (slots m')" by (simp add: ent)
      then show ?thesis
        using hm_get_Some [OF assms(1,2) x] hm_get_Some [OF assms(3) eq', of x] x(2) by (simp add: mm)
    next
      case False
      then have "hm_get m k' h' = None" by (simp add: hm_get_None)
      moreover have "hm_get m' k' h' = None" using False ne by (auto simp: hm_get_None mm ent)
      ultimately show ?thesis by simp
    qed
    with False show ?thesis by auto
  qed
qed

section \<open>Removal\<close>

text \<open>The loop of \<open>Remove\<close> walks from the entry to remove, at \<open>c\<close>, to the next unused slot, and
  moves into the hole every entry whose search passes it.\<close>

definition remove_inv :: "('k, 'v) Entry list \<Rightarrow> nat \<Rightarrow> nat \<Rightarrow> nat \<Rightarrow> bool" where
  "remove_inv a u c nx \<longleftrightarrow>
     hm_size (length a) \<and> c < length a \<and> nx < length a \<and> u < length a \<and> hm_unused (a ! u) \<and> hm_live (a ! c)
     \<and> chained hm_unused hm_live hm_home a
     \<and> (\<forall>i < length a. cdist (length a) c i \<le> cdist (length a) c nx \<longrightarrow> hm_live (a ! i))
     \<and> (\<forall>j < length a. j \<noteq> c \<and> hm_live (a ! j) \<and> in_chain (length a) (hm_home (length a) (a ! j)) j c
          \<longrightarrow> cdist (length a) c nx < cdist (length a) c j)"

lemma in_chain_code:
  assumes "s < n" "c < n" "nx < n" "nx \<noteq> c"
  shows "(nx > c \<and> (s \<le> c \<or> s > nx) \<or> nx < c \<and> (s \<le> c \<and> s > nx)) \<longleftrightarrow> in_chain n s nx c"
  using assms by (auto simp: in_chain_def cdist_def)

lemma remove_inv_ahead:
  assumes "remove_inv a u c nx"
  shows "cdist (length a) c nx < cdist (length a) c u"
proof (rule ccontr)
  assume "\<not> cdist (length a) c nx < cdist (length a) c u"
  with assms have "hm_live (a ! u)" by (simp add: remove_inv_def)
  with assms show False by (simp add: remove_inv_def hm_slot_defs)
qed

lemma remove_inv_move:
  assumes inv: "remove_inv a u c nx" and nx': "nx' = Suc nx mod length a" and live: "hm_live (a ! nx')"
    and chain: "in_chain (length a) (hm_home (length a) (a ! nx')) nx' c"
  shows "remove_inv (a[c := a ! nx']) u nx' nx'"
    "entries hm_live (a[c := a ! nx']) - {#a ! nx'#} = entries hm_live a - {#a ! c#}"
proof -
  have b: "c < length a" "nx < length a" "u < length a" "hm_live (a ! c)" "hm_unused (a ! u)"
      "hm_size (length a)" "chained hm_unused hm_live hm_home a"
    using inv by (auto simp: remove_inv_def)
  note st = cdist_step [OF b(1-3) remove_inv_ahead [OF inv], folded nx']
  have n': "nx' < length a" using b(1) unfolding nx' by (intro mod_less_divisor) linarith
  have ch: "chained hm_unused hm_live hm_home (a[c := a ! nx'])"
  proof (rule hm.chained_update [OF b(7,1)])
    show "\<forall>x < length a. in_chain (length a) (hm_home (length a) (a ! nx')) c x \<longrightarrow> \<not> hm_unused (a ! x)"
      using chain chainedD [OF b(7) n' live] by (auto simp: in_chain_def)
  qed (use live in \<open>simp add: hm_slot_defs\<close>)
  have "u \<noteq> c" "u \<noteq> nx'" using b(4,5) live by (auto simp: hm_slot_defs)
  moreover have "cdist (length a) nx' i = 0 \<Longrightarrow> i = nx'" if "i < length a" for i
    using cdist_pos [OF n' that] by (cases "i = nx'") auto
  ultimately show "remove_inv (a[c := a ! nx']) u nx' nx'"
    unfolding remove_inv_def using b n' ch st(2) live cdist_pos [OF n']
    by (auto simp: nth_list_update_if)
  show "entries hm_live (a[c := a ! nx']) - {#a ! nx'#} = entries hm_live a - {#a ! c#}"
    using b(1,4) live by (simp add: entries_update)
qed

lemma remove_inv_keep:
  assumes inv: "remove_inv a u c nx" and nx': "nx' = Suc nx mod length a" and live: "hm_live (a ! nx')"
    and chain: "\<not> in_chain (length a) (hm_home (length a) (a ! nx')) nx' c"
  shows "remove_inv a u c nx'"
proof -
  have b: "c < length a" "nx < length a" "u < length a"
    using inv by (auto simp: remove_inv_def)
  note st = cdist_step [OF b remove_inv_ahead [OF inv], folded nx']
  have n': "nx' < length a" using b(1) unfolding nx' by (intro mod_less_divisor) linarith
  have "hm_live (a ! i)" if "i < length a" "cdist (length a) c i \<le> cdist (length a) c nx'" for i
  proof (cases "cdist (length a) c i \<le> cdist (length a) c nx")
    case True
    with inv that(1) show ?thesis by (simp add: remove_inv_def)
  next
    case False
    with that(2) st(1) have "cdist (length a) c i = cdist (length a) c nx'" by simp
    with cdist_inj [OF b(1) that(1) n'] live show ?thesis by simp
  qed
  moreover have "cdist (length a) c nx' < cdist (length a) c j"
    if "j < length a" "j \<noteq> c" "hm_live (a ! j)" "in_chain (length a) (hm_home (length a) (a ! j)) j c" for j
  proof -
    have "cdist (length a) c nx < cdist (length a) c j" using inv that by (simp add: remove_inv_def)
    moreover have "cdist (length a) c j \<noteq> cdist (length a) c nx'"
      using cdist_inj [OF b(1) that(1) n'] that(4) chain by blast
    ultimately show ?thesis using st(1) by linarith
  qed
  ultimately show ?thesis using inv n' unfolding remove_inv_def by blast
qed

lemma remove_inv_done:
  assumes inv: "remove_inv a u c nx" and nx': "nx' = Suc nx mod length a" and un: "hm_unused (a ! nx')"
    and e: "hm_unused e"
  shows "chained hm_unused hm_live hm_home (a[c := e])"
proof -
  have b: "c < length a" "nx < length a" "u < length a" and size: "hm_size (length a)"
    and ch: "chained hm_unused hm_live hm_home a"
    using inv by (auto simp: remove_inv_def)
  note st = cdist_step [OF b remove_inv_ahead [OF inv], folded nx']
  have n': "nx' < length a" using b(1) unfolding nx' by (intro mod_less_divisor) linarith
  have not_c: "\<not> in_chain (length a) (hm_home (length a) (a ! j)) j c"
    if j: "j < length a" "j \<noteq> c" "hm_live (a ! j)" for j
  proof
    assume ic: "in_chain (length a) (hm_home (length a) (a ! j)) j c"
    have "cdist (length a) c j \<noteq> cdist (length a) c nx'"
      using cdist_inj [OF b(1) j(1) n'] j un by (auto simp: hm_slot_defs)
    moreover have "cdist (length a) c nx < cdist (length a) c j" using inv j ic by (simp add: remove_inv_def)
    ultimately have "cdist (length a) c nx' < cdist (length a) c j"
      using st(1) by linarith
    then have "in_chain (length a) (hm_home (length a) (a ! j)) j nx'"
      by (rule in_chain_between [OF hm.home_less [OF size] b(1) j(1) n' ic])
    with chainedD [OF ch j(1,3) n'] un show False by blast
  qed
  show ?thesis
    unfolding chained_def
  proof (intro allI impI)
    fix j x assume j: "j < length (a[c := e])" "hm_live (a[c := e] ! j)"
      and x: "x < length (a[c := e])"
      and ic: "in_chain (length (a[c := e])) (hm_home (length (a[c := e])) (a[c := e] ! j)) j x"
    have jc: "j \<noteq> c" using j e by (auto simp: hm_slot_defs)
    with j ic have j': "hm_live (a ! j)" "in_chain (length a) (hm_home (length a) (a ! j)) j x" by simp_all
    with not_c [of j] j(1) jc have "x \<noteq> c" by auto
    with chainedD [OF ch _ j'(1) _ j'(2)] j(1) x show "\<not> hm_unused (a[c := e] ! x)" by simp
  qed
qed

lemma Remove_loop_spec:
  assumes "remove_inv a u c nx" "unat cap = length a"
  shows "\<exists>a' c'. Remove_loop cap a c nx = Some (a', c') \<and> length a' = length a \<and> c' < length a
     \<and> hm_live (a' ! c') \<and> entries hm_live a' - {#a' ! c'#} = entries hm_live a - {#a ! c#}
     \<and> chained hm_unused hm_live hm_home (a'[c' := (a' ! c')\<lparr>ekey := None\<rparr>])"
  using assms
proof (induction "cdist (length a) nx u" arbitrary: a c nx)
  case 0
  then show ?case using remove_inv_ahead [OF 0(2)] cdist_pos [of nx "length a" u]
    by (cases "nx = u") (auto simp: remove_inv_def)
next
  case (Suc d)
  let ?n = "length a"
  define nx' where "nx' = Suc nx mod ?n"
  have b: "c < ?n" "nx < ?n" "u < ?n" and size: "hm_size ?n"
    using Suc.prems by (auto simp: remove_inv_def)
  note st = cdist_step [OF b remove_inv_ahead [OF Suc.prems(1)], folded nx'_def]
  have n': "nx' < ?n" using b(1) unfolding nx'_def by (intro mod_less_divisor) linarith
  have wrap: "(let next = nx + 1 in if next = unat cap then 0 else next) = nx'"
    using b(2) Suc.prems(2) by (auto simp: nx'_def)
  have capw: "cap = of_nat ?n" using Suc.prems(2) by (intro word_eq_of_unat) simp
  let ?move = "in_chain ?n (hm_home ?n (a ! nx')) nx' c"
  have unfold: "Remove_loop cap a c nx =
     (if hm_unused (a ! nx') then Some (a, c)
      else if ?move then Remove_loop cap (a[c := a ! nx']) nx' nx' else Remove_loop cap a c nx')"
    using wrap n' in_chain_code [OF hm.home_less [OF size] b(1) n' st(2), of "a ! nx'"]
    by (subst Remove_loop.simps) (simp add: Let_def hm_unused_def hm_home_def capw del: One_nat_def)
  have dist: "d = cdist ?n nx' u" using Suc.hyps(2) st(3) by simp
  consider (stop) "hm_unused (a ! nx')" | (move) "hm_live (a ! nx')" ?move | (keep) "hm_live (a ! nx')" "\<not> ?move"
    by (auto simp: hm_slot_defs)
  then show ?case
  proof cases
    case stop
    with remove_inv_done [OF Suc.prems(1) nx'_def stop, of "(a ! c)\<lparr>ekey := None\<rparr>"] unfold b(1)
    show ?thesis using Suc.prems(1) by (auto simp: hm_unused_def remove_inv_def)
  next
    case move
    note mv = remove_inv_move [OF Suc.prems(1) nx'_def move]
    have "a[c := a ! nx'] ! nx' = a ! nx'" using st(2) by simp
    moreover have "Remove_loop cap a c nx = Remove_loop cap (a[c := a ! nx']) nx' nx'"
      using unfold move by (simp add: hm.live_not_empty)
    ultimately show ?thesis
      using Suc.hyps(1) [of "a[c := a ! nx']" nx' nx'] dist mv Suc.prems(2) by simp
  next
    case keep
    note kp = remove_inv_keep [OF Suc.prems(1) nx'_def keep]
    moreover have "Remove_loop cap a c nx = Remove_loop cap a c nx'"
      using unfold keep by (simp add: hm.live_not_empty)
    ultimately show ?thesis
      using Suc.hyps(1) [of a nx' c] dist Suc.prems(2) by simp
  qed
qed

lemma clash_free_remove:
  assumes "clash_free (hm_same m) M" "equivp (match_fn m)" "x \<in># M" "hm_matches m k h x"
  shows "M - {#x#} = filter_mset (\<lambda>y. \<not> hm_matches m k h y) M"
proof -
  obtain N where M: "M = add_mset x N" using assms(3) by (metis insert_DiffM)
  have "\<not> hm_matches m k h y" if "y \<in># N" for y
    using that assms(1) hm_same_matches [OF assms(2,4)] unfolding M clash_free_add by blast
  then have "filter_mset (\<lambda>y. \<not> hm_matches m k h y) N = N" by (intro filter_mset_id) auto
  with assms(4) show ?thesis unfolding M by simp
qed

lemma Remove_spec:
  assumes m: "hm_invar m" "equivp (match_fn m)"
  obtains m' where "Remove m k h = Some m'" "hm_invar m'" "match_fn m' = match_fn m"
    "entries hm_live (slots m') = filter_mset (\<lambda>x. \<not> hm_matches m k h x) (entries hm_live (slots m))"
    "capacity m' = capacity m" "unat (occupancy m') \<le> unat (occupancy m)"
proof -
  have tab: "hm_table m" and occ: "unat (occupancy m) < unat (capacity m)"
    using m(1) by (auto simp: hm_invar_def)
  obtain p where p: "p < length (slots m)" "Probe m k h = Some p"
      "if \<exists>e \<in> set (slots m). hm_matches m k h e then hm_matches m k h (slots m ! p)
       else hm_unused (slots m ! p)"
    by (rule Probe_spec [OF tab occ, of k h]) (rule that)
  show thesis
  proof (cases "\<exists>e \<in> set (slots m). hm_matches m k h e")
    case False
    then have "filter_mset (\<lambda>x. \<not> hm_matches m k h x) (entries hm_live (slots m)) = entries hm_live (slots m)"
      by (intro filter_mset_id) (auto simp: set_entries)
    moreover have "Remove m k h = Some m" using p(2,3) False by (simp add: Remove_def hm_unused_def)
    ultimately show thesis using m(1) by (intro that [of m]) simp_all
  next
    case True
    with p(3) have mat: "hm_matches m k h (slots m ! p)" by simp
    then have live: "hm_live (slots m ! p)" by (rule hm_live_matches)
    have size: "hm_size (length (slots m))" "unat (capacity m) = length (slots m)"
      using tab by (auto simp: hm_table_def)
    obtain u where u: "u < length (slots m)" "hm_unused (slots m ! u)"
      using unused_slot_exists [of "slots m"] tab occ by (auto simp: hm_table_def)
    have "remove_inv (slots m) u p p"
      unfolding remove_inv_def using tab p(1) u live cdist_pos [OF p(1)]
      by (auto simp: hm_table_def) (metis less_nat_zero_code)
    from Remove_loop_spec [OF this size(2)] obtain a c where a:
        "Remove_loop (capacity m) (slots m) p p = Some (a, c)" "length a = length (slots m)" "c < length (slots m)"
        "hm_live (a ! c)" "entries hm_live a - {#a ! c#} = entries hm_live (slots m) - {#slots m ! p#}"
        "chained hm_unused hm_live hm_home (a[c := (a ! c)\<lparr>ekey := None\<rparr>])" by blast
    let ?m = "m\<lparr>slots := a[c := (a ! c)\<lparr>ekey := None\<rparr>], occupancy := occupancy m - 1\<rparr>"
    have mem: "slots m ! p \<in># entries hm_live (slots m)" using p(1) live by (simp add: set_entries)
    have ent: "entries hm_live (slots ?m) = entries hm_live (slots m) - {#slots m ! p#}"
      using a by (simp add: entries_update) (simp add: hm_live_def)
    have cnt: "unat (occupancy m) = size (entries hm_live (slots m))" using tab by (simp add: hm_table_def)
    have pos: "0 < unat (occupancy m)" unfolding cnt using mem by (metis gr0I empty_not_add_mset insert_DiffM size_eq_0_iff_empty)
    then have dec: "unat (occupancy ?m) = unat (occupancy m) - 1" by (simp add: unat_minus_one unat_gt_0)
    have cf: "clash_free (hm_same m) (entries hm_live (slots m))" using tab by (simp add: hm_table_def)
    have "hm_table ?m"
      unfolding hm_table_def ent using a(2,6) tab dec cnt mem cf
      by (simp add: hm_table_def size_Diff_singleton clash_free_diff)
    moreover have "unat (occupancy m) - 1 + (unat (occupancy m) - 1) div 4 \<le> unat (occupancy m) + unat (occupancy m) div 4"
      by (intro add_mono div_le_mono) auto
    ultimately have "hm_invar ?m" using m(1) dec by (simp add: hm_invar_def)
    moreover have "Remove m k h = Some ?m"
      using p(2) live a(1) by (auto simp: Remove_def hm_live_def)
    ultimately show thesis
      using clash_free_remove [OF cf m(2) mem mat] ent dec by (intro that [of ?m]) simp_all
  qed
qed

definition hm_read :: "('k, 'v) HashMap \<Rightarrow> 'k \<times> u32 \<Rightarrow> 'v option option" where
  "hm_read m kh =
     (case Lookup m (fst kh) (snd kh) False of
        Some (Some p, m') \<Rightarrow> Some (evalue (slots m' ! p))
      | _ \<Rightarrow> None)"

definition hm_write :: "('k, 'v) HashMap \<Rightarrow> 'k \<times> u32 \<Rightarrow> 'v option option \<Rightarrow> ('k, 'v) HashMap option" where
  "hm_write m kh w =
     (case w of
        None \<Rightarrow> Remove m (fst kh) (snd kh)
      | Some v \<Rightarrow>
          (case Lookup m (fst kh) (snd kh) True of
             Some (Some p, m') \<Rightarrow> Some (hm_set_value m' p v)
           | _ \<Rightarrow> None))"

definition hm_same_key :: "('k, 'v) HashMap \<Rightarrow> 'k \<times> u32 \<Rightarrow> 'k \<times> u32 \<Rightarrow> bool" where
  "hm_same_key m kh kh' \<longleftrightarrow> snd kh = snd kh' \<and> match_fn m (fst kh) (fst kh')"

lemma hm_read_get:
  assumes "hm_invar m" "equivp (match_fn m)"
  shows "hm_read m (k, h) = hm_get m k h"
proof (cases "\<exists>e \<in> set (slots m). hm_matches m k h e")
  case True
  have tab: "hm_table m" and occ: "unat (occupancy m) < unat (capacity m)"
    using assms by (auto simp: hm_invar_def)
  obtain p where p: "Lookup_rec 1 m k h False = Some (Some p, m)" "p < length (slots m)" "hm_matches m k h (slots m ! p)"
    by (rule Lookup_rec_present [OF tab occ True])
  then have "hm_get m k h = Some (evalue (slots m ! p))"
    by (intro hm_get_Some [OF tab assms(2)]) (auto simp: set_entries hm_live_matches)
  with p show ?thesis by (simp add: hm_read_def Lookup_def)
next
  case False
  then have "Lookup m k h False = Some (None, m)"
    unfolding Lookup_def using assms by (intro Lookup_rec_absent) (auto simp: hm_invar_def)
  moreover have "hm_get m k h = None" using False by (simp add: hm_get_def find_None_iff)
  ultimately show ?thesis by (simp add: hm_read_def)
qed

text \<open>Both branches of a store: the entry is found or created, then its value is set.\<close>

lemma hm_store_spec:
  assumes m: "hm_invar m" "equivp (match_fn m)" and small: "unat (occupancy m) < 2 ^ 30"
  obtains m' e where "hm_write m (k, h) (Some v) = Some m'" "hm_invar m'" "match_fn m' = match_fn m"
    "unat (occupancy m') \<le> Suc (unat (occupancy m))" "hm_matches m k h e" "evalue e = v"
    "entries hm_live (slots m') = add_mset e (filter_mset (\<lambda>x. \<not> hm_matches m k h x) (entries hm_live (slots m)))"
proof -
  have tab: "hm_table m" and occ: "unat (occupancy m) < unat (capacity m)"
    using m(1) by (auto simp: hm_invar_def)
  have "\<exists>p m'. Lookup m k h True = Some (Some p, m') \<and> hm_invar m' \<and> match_fn m' = match_fn m
      \<and> p < length (slots m') \<and> hm_matches m' k h (slots m' ! p) \<and> unat (occupancy m') \<le> Suc (unat (occupancy m))
      \<and> filter_mset (\<lambda>x. \<not> hm_matches m k h x) (entries hm_live (slots m')) =
        filter_mset (\<lambda>x. \<not> hm_matches m k h x) (entries hm_live (slots m))"
  proof (cases "\<exists>e \<in> set (slots m). hm_matches m k h e")
    case True
    obtain p where "Lookup_rec 1 m k h True = Some (Some p, m)" "p < length (slots m)" "hm_matches m k h (slots m ! p)"
      by (rule Lookup_rec_present [OF tab occ True])
    with m(1) show ?thesis by (auto simp: Lookup_def)
  next
    case False
    have "hm_matches m k h \<lparr>ekey = Some k, evalue = None, ehash = h\<rparr>"
      using m(2) by (simp add: hm_matches_def equivp_reflp)
    then show ?thesis
      by (rule_tac Lookup_insert_spec [OF m small False]) auto
  qed
  then obtain p m' where l: "Lookup m k h True = Some (Some p, m')" "hm_invar m'" "match_fn m' = match_fn m"
      "p < length (slots m')" "hm_matches m' k h (slots m' ! p)" "unat (occupancy m') \<le> Suc (unat (occupancy m))"
      "filter_mset (\<lambda>x. \<not> hm_matches m k h x) (entries hm_live (slots m')) =
        filter_mset (\<lambda>x. \<not> hm_matches m k h x) (entries hm_live (slots m))" by blast
  have mm: "hm_matches m' = hm_matches m" using l(3) by (rule hm_matches_cong)
  have live: "hm_live (slots m' ! p)" using l(5) by (rule hm_live_matches)
  have tab': "hm_table m'" using l(2) by (simp add: hm_invar_def)
  note sv = hm_set_value [OF tab' l(4) live, of v]
  have mem: "slots m' ! p \<in># entries hm_live (slots m')" using l(4) live by (simp add: set_entries)
  have cf: "clash_free (hm_same m') (entries hm_live (slots m'))" "equivp (match_fn m')"
    using tab' m(2) l(3) by (simp_all add: hm_table_def)
  show thesis
  proof (rule that [of "hm_set_value m' p v" "(slots m' ! p)\<lparr>evalue := v\<rparr>"])
    show "hm_matches m k h ((slots m' ! p)\<lparr>evalue := v\<rparr>)"
      using l(5) unfolding mm by (simp add: hm_matches_def)
    show "entries hm_live (slots (hm_set_value m' p v)) =
       add_mset ((slots m' ! p)\<lparr>evalue := v\<rparr>) (filter_mset (\<lambda>x. \<not> hm_matches m k h x) (entries hm_live (slots m)))"
      using sv(2) clash_free_remove [OF cf mem l(5)] l(7) by (simp add: mm)
    show "hm_invar (hm_set_value m' p v)"
      using sv(1) l(2) by (simp add: hm_invar_def hm_set_value_def)
  qed (use l in \<open>simp_all add: hm_write_def hm_set_value_def\<close>)
qed

lemma hm_get_remove:
  assumes "hm_table m" "equivp (match_fn m)" "hm_table m'" "match_fn m' = match_fn m"
    and ent: "entries hm_live (slots m') = filter_mset (\<lambda>x. \<not> hm_matches m k h x) (entries hm_live (slots m))"
  shows "hm_get m' k' h' = (if h = h' \<and> match_fn m k k' then None else hm_get m k' h')"
proof -
  have mm: "hm_matches m' = hm_matches m" using assms(4) by (rule hm_matches_cong)
  have kk: "hm_matches m k' h' x \<Longrightarrow> hm_matches m k h x \<longleftrightarrow> h = h' \<and> match_fn m k k'" for x
    using hm_matches_trans [OF assms(2), of k' h' x k h] equivp_symp [OF assms(2)] by auto
  show ?thesis
  proof (cases "\<exists>x \<in># entries hm_live (slots m'). hm_matches m k' h' x")
    case True
    then obtain x where x: "x \<in># entries hm_live (slots m')" "hm_matches m k' h' x" by blast
    then have "x \<in># entries hm_live (slots m)" "\<not> (h = h' \<and> match_fn m k k')"
      using kk [OF x(2)] by (auto simp: ent)
    then show ?thesis
      using hm_get_Some [OF assms(1,2) _ x(2)] hm_get_Some [OF assms(3) _ x(1)] x(2) assms(2,4)
      by (auto simp: mm)
  next
    case False
    then have "hm_get m' k' h' = None" by (simp add: hm_get_None mm)
    moreover have "hm_get m k' h' = None" if "\<not> (h = h' \<and> match_fn m k k')"
      using False that kk by (auto simp: hm_get_None ent)
    ultimately show ?thesis by auto
  qed
qed

lemma hm_write_spec:
  assumes m: "hm_invar m" "equivp (match_fn m)" and small: "unat (occupancy m) < 2 ^ 30"
  shows "\<exists>m'. hm_write m kh w = Some m' \<and> hm_invar m' \<and> match_fn m' = match_fn m
     \<and> unat (occupancy m') \<le> Suc (unat (occupancy m))
     \<and> (\<forall>kh'. hm_read m' kh' = (if hm_same_key m kh kh' then w else hm_read m kh'))"
proof -
  obtain k h where kh: "kh = (k, h)" by (cases kh)
  have tab: "hm_table m" using m(1) by (simp add: hm_invar_def)
  have "\<exists>m'. hm_write m kh w = Some m' \<and> hm_invar m' \<and> match_fn m' = match_fn m
     \<and> unat (occupancy m') \<le> Suc (unat (occupancy m))
     \<and> (\<forall>k' h'. hm_get m' k' h' = (if h = h' \<and> match_fn m k k' then w else hm_get m k' h'))"
  proof (cases w)
    case None
    obtain m' where m': "Remove m k h = Some m'" "hm_invar m'" "match_fn m' = match_fn m"
        "entries hm_live (slots m') = filter_mset (\<lambda>x. \<not> hm_matches m k h x) (entries hm_live (slots m))"
        "capacity m' = capacity m" "unat (occupancy m') \<le> unat (occupancy m)"
      by (rule Remove_spec [OF m])
    then have "hm_table m'" by (simp add: hm_invar_def)
    from hm_get_remove [OF tab m(2) this m'(3,4)] m' kh None show ?thesis
      by (auto simp: hm_write_def)
  next
    case (Some v)
    obtain m' e where m': "hm_write m (k, h) (Some v) = Some m'" "hm_invar m'" "match_fn m' = match_fn m"
        "unat (occupancy m') \<le> Suc (unat (occupancy m))" "hm_matches m k h e" "evalue e = v"
        "entries hm_live (slots m') = add_mset e (filter_mset (\<lambda>x. \<not> hm_matches m k h x) (entries hm_live (slots m)))"
      by (rule hm_store_spec [OF m small])
    then have "hm_table m'" by (simp add: hm_invar_def)
    from hm_get_update [OF tab m(2) this m'(3,5,6,7)] m' kh Some show ?thesis by auto
  qed
  then obtain m' where m': "hm_write m kh w = Some m'" "hm_invar m'" "match_fn m' = match_fn m"
     "unat (occupancy m') \<le> Suc (unat (occupancy m))"
     "\<And>k' h'. hm_get m' k' h' = (if h = h' \<and> match_fn m k k' then w else hm_get m k' h')" by blast
  have "hm_read m' (k', h') = hm_get m' k' h'" "hm_read m (k', h') = hm_get m k' h'" for k' h'
    using m m'(2,3) by (simp_all add: hm_read_get)
  then have "hm_read m' kh' = (if hm_same_key m kh kh' then w else hm_read m kh')" for kh'
    using m'(5) by (cases kh') (simp add: hm_same_key_def kh)
  with m'(1-4) show ?thesis by blast
qed

definition hm_store_invar :: "('k, 'v) HashMap \<Rightarrow> bool" where
  "hm_store_invar m \<longleftrightarrow> hm_invar m \<and> equivp (match_fn m)"

interpretation hm_store: keyed_store hm_store_invar "\<lambda>m. unat (occupancy m)" "2 ^ 30" hm_same_key hm_read hm_write
proof
  fix s :: "('k, 'v) HashMap" and k w
  assume s: "hm_store_invar s" "unat (occupancy s) < 2 ^ 30"
  then obtain m' where m': "hm_write s k w = Some m'" "hm_invar m'" "match_fn m' = match_fn s"
     "unat (occupancy m') \<le> Suc (unat (occupancy s))"
     "\<And>k'. hm_read m' k' = (if hm_same_key s k k' then w else hm_read s k')"
    using hm_write_spec [of s k w] by (auto simp: hm_store_invar_def)
  moreover have "hm_same_key m' = hm_same_key s" using m'(3) by (intro ext) (simp add: hm_same_key_def)
  ultimately show "\<exists>s'. hm_write s k w = Some s' \<and> hm_store_invar s' \<and> unat (occupancy s') \<le> Suc (unat (occupancy s))
      \<and> hm_same_key s' = hm_same_key s \<and> (\<forall>k'. hm_read s' k' = (if hm_same_key s k k' then w else hm_read s k'))"
    using s(1) by (auto simp: hm_store_invar_def)
qed

lemma HashMap_new_invar:
  assumes "j < 32" "initial_capacity = 2 ^ j" "equivp match"
  defines "m \<equiv> HashMap_new match initial_capacity :: ('k, 'v) HashMap"
  shows "hm_store_invar m" "occupancy m = 0" "match_fn m = match" "hm_read m kh = None"
proof -
  have size: "hm_size (unat initial_capacity)"
    using assms(1,2) by (auto simp: hm_size_def unat_pow2)
  note I = Initialize_spec [OF size, of "\<lparr>match_fn = match, slots = [], capacity = 0, occupancy = 0\<rparr> :: ('k, 'v) HashMap",
      folded HashMap_new_def, folded m_def]
  have inv: "hm_invar m" using I hm_size_pos [OF size] by (simp add: hm_invar_def)
  then show "hm_store_invar m" using I assms(3) by (simp add: hm_store_invar_def)
  show "occupancy m = 0" "match_fn m = match" using I by simp_all
  have "hm_get m k h = None" for k h unfolding hm_get_None I(2) by simp
  then show "hm_read m kh = None"
    using hm_read_get [OF inv] I assms(3) by (cases kh) simp
qed

text \<open>C1: A map made by the constructor with a power of two as capacity behaves, under every sequence
  of at most \<open>2 ^ 30\<close> stores (\<open>Lookup\<close> with insertion followed by setting the value) and
  removals, as the function from keys to values that the same sequence defines: every operation
  returns, including the ones that grow the table, and what \<open>Lookup\<close> finds for any key afterwards is
  the last value stored for a key that matches it, or nothing when it was removed since.\<close>

theorem HashMap_refines_map:
  assumes "j < 32" "equivp match" "length ops \<le> 2 ^ 30"
  shows "\<exists>m :: ('k, 'v) HashMap. run_updates hm_write ops (HashMap_new match (2 ^ j)) = Some m
    \<and> hm_read m = apply_updates (\<lambda>kh kh'. snd kh = snd kh' \<and> match (fst kh) (fst kh')) ops (\<lambda>_. None)"
proof -
  note new = HashMap_new_invar [OF assms(1) refl assms(2)]
  let ?new = "HashMap_new match (2 ^ j) :: ('k, 'v) HashMap"
  have "hm_same_key ?new = (\<lambda>kh kh'. snd kh = snd kh' \<and> match (fst kh) (fst kh'))"
    by (intro ext) (simp add: hm_same_key_def new(3))
  moreover have "hm_read ?new = (\<lambda>_. None)" by (intro ext) (rule new(4))
  ultimately show ?thesis
    using hm_store.run_updates_refines [OF new(1), of ops] assms(3) by (auto simp: new(2))
qed

theorem HashMap_refines_map_witness:
  "\<exists>m. run_updates hm_write [((5, 7), Some (Some 3)), ((6, 7), Some None), ((5, 7), None)]
         (HashMap_new (=) (2 ^ 2)) = Some (m :: (nat, nat) HashMap)
     \<and> hm_read m (5, 7) = None \<and> hm_read m (6, 7) = Some None \<and> hm_read m (6, 8) = None"
  using HashMap_refines_map [of 2 "(=) :: nat \<Rightarrow> nat \<Rightarrow> bool"
      "[((5, 7), Some (Some 3)), ((6, 7), Some None), ((5, 7), None)] :: ((nat \<times> u32) \<times> nat option option) list"]
  by (auto simp: identity_equivp)

lemma Clear_spec:
  assumes "hm_store_invar m"
  shows "hm_store_invar (Clear m)" "hm_read (Clear m) kh = None" "capacity (Clear m) = capacity m"
proof -
  have ent: "entries hm_live (slots (Clear m)) = {#}"
    by (auto simp: Clear_def entries_def hm_live_def filter_mset_eq_conv)
  have pos: "0 < unat (capacity m)"
    using assms hm_table_bounds [of m] by (auto simp: hm_store_invar_def hm_invar_def hm_table_def)
  have tab: "hm_table (Clear m)"
    unfolding hm_table_def ent using assms
    by (auto simp: Clear_def hm_store_invar_def hm_invar_def hm_table_def hm_live_def intro!: hm.chained_no_live)
  have inv: "hm_invar (Clear m)" using tab pos by (simp add: hm_invar_def Clear_def)
  have eq: "equivp (match_fn (Clear m))" using assms by (simp add: hm_store_invar_def Clear_def)
  show "hm_store_invar (Clear m)" using inv eq by (simp add: hm_store_invar_def)
  have "hm_get (Clear m) k h = None" for k h unfolding hm_get_None ent by simp
  then show "hm_read (Clear m) kh = None" using hm_read_get [OF inv eq] by (cases kh) simp
  show "capacity (Clear m) = capacity m" by (simp add: Clear_def)
qed

section \<open>Iteration\<close>

lemma Next_loop_spec:
  "Next_loop m p = find (\<lambda>i. ekey (slots m ! i) \<noteq> None) [p..<length (slots m)]"
proof (induction "length (slots m) - p" arbitrary: p)
  case 0
  then show ?case by (subst Next_loop.simps) simp
next
  case (Suc d)
  then have p: "p < length (slots m)" and IH: "Next_loop m (Suc p) = find (\<lambda>i. ekey (slots m ! i) \<noteq> None) [Suc p..<length (slots m)]"
    using Suc.hyps(1) [of "Suc p"] by simp_all
  then show ?case by (subst Next_loop.simps) (simp add: upt_conv_Cons)
qed

text \<open>The loop of a client: \<open>for (p = Start(); p != NULL; p = Next(p))\<close>.\<close>

function hm_walk :: "('k, 'v) HashMap \<Rightarrow> nat option \<Rightarrow> nat list" where
  "hm_walk m None = []"
| "hm_walk m (Some p) = p # (if p < length (slots m) then hm_walk m (Next m (int p)) else [])"
  by pat_completeness auto
termination
proof (relation "measure (\<lambda>(m, p). case p of None \<Rightarrow> 0 | Some p \<Rightarrow> Suc (length (slots m) - p))")
  fix m :: "('k, 'v) HashMap" and p assume p: "p < length (slots m)"
  have "q > p" if "Next m (int p) = Some q" for q
    using that by (auto simp: Next_def Next_loop_spec find_Some_iff nat_add_distrib)
  with p show "((m, Next m (int p)), (m, Some p)) \<in>
      measure (\<lambda>(m, p). case p of None \<Rightarrow> 0 | Some p \<Rightarrow> Suc (length (slots m) - p))"
    by (auto split: option.splits)
qed simp

lemma find_upt_filter:
  "find P [p..<n] = Some q \<Longrightarrow> filter P [p..<n] = q # filter P [Suc q..<n]"
proof (induction "n - p" arbitrary: p)
  case (Suc d)
  then have "p < n" by simp
  with Suc show ?case by (auto simp: upt_conv_Cons split: if_splits)
qed simp

lemma hm_walk_Next_loop:
  "hm_walk m (Next_loop m p) = filter (\<lambda>i. hm_live (slots m ! i)) [p..<length (slots m)]"
proof (induction "length (slots m) - p" arbitrary: p rule: less_induct)
  case less
  show ?case
  proof (cases "Next_loop m p")
    case None
    then have "filter (\<lambda>i. hm_live (slots m ! i)) [p..<length (slots m)] = []"
      by (auto simp: Next_loop_spec find_None_iff hm_live_def filter_empty_conv)
    with None show ?thesis by simp
  next
    case (Some q)
    then have f: "find (\<lambda>i. ekey (slots m ! i) \<noteq> None) [p..<length (slots m)] = Some q" by (simp add: Next_loop_spec)
    then have q: "p \<le> q" "q < length (slots m)" by (auto simp: find_Some_iff)
    with less [of "Suc q"] find_upt_filter [OF f] Some show ?thesis
      by (simp add: Next_def hm_live_def nat_add_distrib)
  qed
qed

text \<open>C22: Walking a map from \<open>Start\<close> with \<open>Next\<close> until \<open>NULL\<close> visits exactly the
  occupied slots, each once and in the order of the array.\<close>

theorem hm_walk_visits_entries:
  "hm_walk m (Start m) = filter (\<lambda>i. ekey (slots m ! i) \<noteq> None) [0..<length (slots m)]"
  using hm_walk_Next_loop [of m 0] by (simp add: Start_def Next_def hm_live_def)

end
