(* ===== verification/Serializer.thy ===== *)
theory Serializer
  imports Main
begin

text \<open>
  The contract between a writer and a reader of a sequence of values: what the writer appends for a value is read
  back as that value wherever it stands, and the reader stops behind it. Whole sequences then round trip. The
  contract is discharged for the data streams.
\<close>

fun write_all :: "('w \<Rightarrow> 'v \<Rightarrow> 'e + 'w) \<Rightarrow> 'w \<Rightarrow> 'v list \<Rightarrow> 'e + 'w" where
  "write_all put w [] = Inr w"
| "write_all put w (v # vs) = (case put w v of Inl e \<Rightarrow> Inl e | Inr w' \<Rightarrow> write_all put w' vs)"

fun read_all :: "('k \<Rightarrow> 'b list \<Rightarrow> nat \<Rightarrow> ('v \<times> nat) option) \<Rightarrow> 'k list \<Rightarrow> 'b list \<Rightarrow> nat \<Rightarrow> ('v list \<times> nat) option" where
  "read_all get [] bs i = Some ([], i)"
| "read_all get (k # ks) bs i =
     (case get k bs i of
        None \<Rightarrow> None
      | Some (v, j) \<Rightarrow> (case read_all get ks bs j of None \<Rightarrow> None | Some (vs, l) \<Rightarrow> Some (v # vs, l)))"

locale serializer =
  fixes invar :: "'w \<Rightarrow> bool"
    and written :: "'w \<Rightarrow> 'b list"
    and valid :: "'v \<Rightarrow> bool"
    and put :: "'w \<Rightarrow> 'v \<Rightarrow> 'e + 'w"
    and kind :: "'v \<Rightarrow> 'k"
    and get :: "'k \<Rightarrow> 'b list \<Rightarrow> nat \<Rightarrow> ('v \<times> nat) option"
  assumes put_law: "invar w \<Longrightarrow> valid v \<Longrightarrow> put w v = Inr w' \<Longrightarrow>
      invar w' \<and> (\<exists>bs. written w' = written w @ bs
        \<and> (\<forall>pre post. get (kind v) (pre @ bs @ post) (length pre) = Some (v, length pre + length bs)))"
begin

lemma write_all_roundtrip:
  assumes "invar w" "list_all valid vs" "write_all put w vs = Inr w'"
  shows "invar w' \<and> (\<exists>bs. written w' = written w @ bs
    \<and> (\<forall>pre post. read_all get (map kind vs) (pre @ bs @ post) (length pre) = Some (vs, length pre + length bs)))"
  using assms
proof (induction vs arbitrary: w)
  case (Cons v vs)
  from Cons.prems(3) obtain w1 where w1: "put w v = Inr w1" "write_all put w1 vs = Inr w'"
    by (auto split: sum.splits)
  from put_law [OF Cons.prems(1) _ w1(1)] Cons.prems(2) obtain b where b: "invar w1" "written w1 = written w @ b"
      "\<And>pre post. get (kind v) (pre @ b @ post) (length pre) = Some (v, length pre + length b)" by auto
  from Cons.IH [OF b(1) _ w1(2)] Cons.prems(2) obtain bs where bs: "invar w'" "written w' = written w1 @ bs"
      "\<And>pre post. read_all get (map kind vs) (pre @ bs @ post) (length pre) = Some (vs, length pre + length bs)" by auto
  have "read_all get (map kind (v # vs)) (pre @ (b @ bs) @ post) (length pre) = Some (v # vs, length pre + length (b @ bs))"
    for pre post
    using b(3) [of pre "bs @ post"] bs(3) [of "pre @ b" post] by simp
  then show ?case using b(2) bs(1,2) by (intro conjI exI [of _ "b @ bs"]) auto
qed simp

end

end
