(* ===== verification/Data_Stream.thy ===== *)
theory Data_Stream
  imports Dart_Utils Serializer "HOL-Library.Monad_Syntax"
begin

text \<open>
  The streams of \<^verbatim>\<open>vm/datastream.h\<close>, which snapshots and messages are written to and read from. Integers are
  written seven bits at a time, least significant first, the last byte marked by its value. The write stream grows
  its buffer with a reallocation function of the caller, a field of the stream; the failure of a reallocation is the
  error \<open>OutOfMemory\<close>. The read functions of the fixed widths are written out unrolled in the source and here.
\<close>

section \<open>Constants\<close>

abbreviation (input) kDataBitsPerByte :: nat where "kDataBitsPerByte \<equiv> 7"
abbreviation (input) kByteMask :: int where "kByteMask \<equiv> 2 ^ kDataBitsPerByte - 1"
abbreviation (input) kMaxUnsignedDataPerByte :: int where "kMaxUnsignedDataPerByte \<equiv> kByteMask"
abbreviation (input) kMinDataPerByte :: int where "kMinDataPerByte \<equiv> - (2 ^ (kDataBitsPerByte - 1))"
abbreviation (input) kMaxDataPerByte :: int where "kMaxDataPerByte \<equiv> NOT kMinDataPerByte AND kByteMask"
abbreviation (input) kEndByteMarker :: u8 where "kEndByteMarker \<equiv> of_int (255 - kMaxDataPerByte)"
abbreviation (input) kEndUnsignedByteMarker :: u8 where "kEndUnsignedByteMarker \<equiv> of_int (255 - kMaxUnsignedDataPerByte)"

section \<open>Reading\<close>

text \<open>The stream is the buffer of \<open>size\<close> bytes and the position of \<open>current_\<close> in it. An access at \<open>end_\<close>
  or beyond, which the code asserts does not happen, is \<open>None\<close>.\<close>

record ReadStream =
  rs_buffer :: "u8 list"
  rs_current :: nat

definition SetStream :: "u8 list \<Rightarrow> ReadStream" where
  "SetStream buffer = \<lparr>rs_buffer = buffer, rs_current = 0\<rparr>"

definition Position :: "ReadStream \<Rightarrow> nat" where
  "Position st = rs_current st"

definition SetPosition :: "ReadStream \<Rightarrow> nat \<Rightarrow> ReadStream option" where
  "SetPosition st value = (if length (rs_buffer st) > value then Some (st\<lparr>rs_current := value\<rparr>) else None)"

definition Advance :: "ReadStream \<Rightarrow> nat \<Rightarrow> ReadStream option" where
  "Advance st value =
     (if length (rs_buffer st) - rs_current st > value then Some (st\<lparr>rs_current := rs_current st + value\<rparr>) else None)"

definition PendingBytes :: "ReadStream \<Rightarrow> nat option" where
  "PendingBytes st = (if rs_current st \<le> length (rs_buffer st) then Some (length (rs_buffer st) - rs_current st) else None)"

definition fetch_byte :: "ReadStream \<Rightarrow> nat \<Rightarrow> (u8 \<times> nat) option" where
  "fetch_byte st c = (if c < length (rs_buffer st) then Some (rs_buffer st ! c, Suc c) else None)"

definition ReadByte :: "ReadStream \<Rightarrow> (u8 \<times> ReadStream) option" where
  "ReadByte st = do {
     (b, c) \<leftarrow> fetch_byte st (rs_current st);
     Some (b, st\<lparr>rs_current := c\<rparr>)
   }"

definition ReadBytes :: "ReadStream \<Rightarrow> nat \<Rightarrow> (u8 list \<times> ReadStream) option" where
  "ReadBytes st len =
     (if rs_current st + len \<le> length (rs_buffer st)
      then Some (take len (drop (rs_current st) (rs_buffer st)), st\<lparr>rs_current := rs_current st + len\<rparr>) else None)"

definition is_end_byte :: "u8 \<Rightarrow> bool" where
  "is_end_byte b \<longleftrightarrow> uint b > kMaxUnsignedDataPerByte"

text \<open>The loop of the template \<open>Read\<close>, entered with the first byte known not to be the last. The shift \<open>s\<close> is an
  8-bit counter. The recursion ends because every iteration takes a byte of the buffer.\<close>

function Read_loop :: "ReadStream \<Rightarrow> u8 \<Rightarrow> nat \<Rightarrow> u8 \<Rightarrow> 'a::len word \<Rightarrow> u8 \<Rightarrow> ('a word \<times> ReadStream) option" where
  "Read_loop st end_byte_marker c b r s =
     (let r = r OR push_bit (unat s) (ucast b);
          s = s + of_nat kDataBitsPerByte
      in case fetch_byte st c of
           None \<Rightarrow> None
         | Some (b, c) \<Rightarrow>
             if \<not> is_end_byte b then Read_loop st end_byte_marker c b r s
             else Some (r OR push_bit (unat s) (ucast b - ucast end_byte_marker), st\<lparr>rs_current := c\<rparr>))"
  by pat_completeness auto
termination
  by (relation "measure (\<lambda>(st, _, c, _, _, _). length (rs_buffer st) - c)") (auto simp: fetch_byte_def split: if_splits)

declare Read_loop.simps [simp del]

definition Read :: "ReadStream \<Rightarrow> u8 \<Rightarrow> ('a::len word \<times> ReadStream) option" where
  "Read st end_byte_marker = do {
     (b, c) \<leftarrow> fetch_byte st (rs_current st);
     if is_end_byte b then Some (ucast b - ucast end_byte_marker, st\<lparr>rs_current := c\<rparr>)
     else Read_loop st end_byte_marker c b 0 0
   }"

definition ReadUnsigned :: "ReadStream \<Rightarrow> (uword \<times> ReadStream) option" where
  "ReadUnsigned st = Read st kEndUnsignedByteMarker"

definition Read16 :: "ReadStream \<Rightarrow> u8 \<Rightarrow> (u16 \<times> ReadStream) option" where
  "Read16 st end_byte_marker = do {
     (b, c) \<leftarrow> fetch_byte st (rs_current st);
     if is_end_byte b then Some (ucast b - ucast end_byte_marker, st\<lparr>rs_current := c\<rparr>) else do {
     r \<leftarrow> Some (ucast b);
     (b, c) \<leftarrow> fetch_byte st c;
     if is_end_byte b then Some (r OR push_bit 7 (ucast b - ucast end_byte_marker), st\<lparr>rs_current := c\<rparr>) else do {
     r \<leftarrow> Some (r OR push_bit 7 (ucast b));
     (b, c) \<leftarrow> fetch_byte st c;
     Some (r OR push_bit 14 (ucast b - ucast end_byte_marker), st\<lparr>rs_current := c\<rparr>)
   }}}"

definition Read32 :: "ReadStream \<Rightarrow> u8 \<Rightarrow> (u32 \<times> ReadStream) option" where
  "Read32 st end_byte_marker = do {
     (b, c) \<leftarrow> fetch_byte st (rs_current st);
     if is_end_byte b then Some (ucast b - ucast end_byte_marker, st\<lparr>rs_current := c\<rparr>) else do {
     r \<leftarrow> Some (ucast b);
     (b, c) \<leftarrow> fetch_byte st c;
     if is_end_byte b then Some (r OR push_bit 7 (ucast b - ucast end_byte_marker), st\<lparr>rs_current := c\<rparr>) else do {
     r \<leftarrow> Some (r OR push_bit 7 (ucast b));
     (b, c) \<leftarrow> fetch_byte st c;
     if is_end_byte b then Some (r OR push_bit 14 (ucast b - ucast end_byte_marker), st\<lparr>rs_current := c\<rparr>) else do {
     r \<leftarrow> Some (r OR push_bit 14 (ucast b));
     (b, c) \<leftarrow> fetch_byte st c;
     if is_end_byte b then Some (r OR push_bit 21 (ucast b - ucast end_byte_marker), st\<lparr>rs_current := c\<rparr>) else do {
     r \<leftarrow> Some (r OR push_bit 21 (ucast b));
     (b, c) \<leftarrow> fetch_byte st c;
     Some (r OR push_bit 28 (ucast b - ucast end_byte_marker), st\<lparr>rs_current := c\<rparr>)
   }}}}}"

definition Read64 :: "ReadStream \<Rightarrow> u8 \<Rightarrow> (uword \<times> ReadStream) option" where
  "Read64 st end_byte_marker = do {
     (b, c) \<leftarrow> fetch_byte st (rs_current st);
     if is_end_byte b then Some (ucast b - ucast end_byte_marker, st\<lparr>rs_current := c\<rparr>) else do {
     r \<leftarrow> Some (ucast b);
     (b, c) \<leftarrow> fetch_byte st c;
     if is_end_byte b then Some (r OR push_bit 7 (ucast b - ucast end_byte_marker), st\<lparr>rs_current := c\<rparr>) else do {
     r \<leftarrow> Some (r OR push_bit 7 (ucast b));
     (b, c) \<leftarrow> fetch_byte st c;
     if is_end_byte b then Some (r OR push_bit 14 (ucast b - ucast end_byte_marker), st\<lparr>rs_current := c\<rparr>) else do {
     r \<leftarrow> Some (r OR push_bit 14 (ucast b));
     (b, c) \<leftarrow> fetch_byte st c;
     if is_end_byte b then Some (r OR push_bit 21 (ucast b - ucast end_byte_marker), st\<lparr>rs_current := c\<rparr>) else do {
     r \<leftarrow> Some (r OR push_bit 21 (ucast b));
     (b, c) \<leftarrow> fetch_byte st c;
     if is_end_byte b then Some (r OR push_bit 28 (ucast b - ucast end_byte_marker), st\<lparr>rs_current := c\<rparr>) else do {
     r \<leftarrow> Some (r OR push_bit 28 (ucast b));
     (b, c) \<leftarrow> fetch_byte st c;
     if is_end_byte b then Some (r OR push_bit 35 (ucast b - ucast end_byte_marker), st\<lparr>rs_current := c\<rparr>) else do {
     r \<leftarrow> Some (r OR push_bit 35 (ucast b));
     (b, c) \<leftarrow> fetch_byte st c;
     if is_end_byte b then Some (r OR push_bit 42 (ucast b - ucast end_byte_marker), st\<lparr>rs_current := c\<rparr>) else do {
     r \<leftarrow> Some (r OR push_bit 42 (ucast b));
     (b, c) \<leftarrow> fetch_byte st c;
     if is_end_byte b then Some (r OR push_bit 49 (ucast b - ucast end_byte_marker), st\<lparr>rs_current := c\<rparr>) else do {
     r \<leftarrow> Some (r OR push_bit 49 (ucast b));
     (b, c) \<leftarrow> fetch_byte st c;
     if is_end_byte b then Some (r OR push_bit 56 (ucast b - ucast end_byte_marker), st\<lparr>rs_current := c\<rparr>) else do {
     r \<leftarrow> Some (r OR push_bit 56 (ucast b));
     (b, c) \<leftarrow> fetch_byte st c;
     Some (r OR push_bit 63 (ucast b - ucast end_byte_marker), st\<lparr>rs_current := c\<rparr>)
   }}}}}}}}}}"

text \<open>The \<open>Raw\<close> templates read with the signed marker.\<close>

definition RawRead1 :: "ReadStream \<Rightarrow> (u8 \<times> ReadStream) option" where
  "RawRead1 st = ReadByte st"

definition RawRead2 :: "ReadStream \<Rightarrow> (u16 \<times> ReadStream) option" where
  "RawRead2 st = Read16 st kEndByteMarker"

definition RawRead4 :: "ReadStream \<Rightarrow> (u32 \<times> ReadStream) option" where
  "RawRead4 st = Read32 st kEndByteMarker"

definition RawRead8 :: "ReadStream \<Rightarrow> (uword \<times> ReadStream) option" where
  "RawRead8 st = Read64 st kEndByteMarker"

section \<open>Writing\<close>

text \<open>The reallocation function gets the old contents, the old and the new size; \<open>None\<close> is the null pointer.\<close>

type_synonym ReAlloc = "u8 list \<Rightarrow> nat \<Rightarrow> nat \<Rightarrow> u8 list option"

datatype stream_error = OutOfMemory

record WriteStream =
  ws_buffer :: "u8 list"
  ws_current :: nat
  current_size :: nat
  ws_alloc :: ReAlloc
  initial_size :: nat

definition WriteStream_new :: "ReAlloc \<Rightarrow> nat \<Rightarrow> stream_error + WriteStream" where
  "WriteStream_new alloc initial =
     (case alloc [] 0 initial of
        None \<Rightarrow> Inl OutOfMemory
      | Some buffer \<Rightarrow>
          Inr \<lparr>ws_buffer = buffer, ws_current = 0, current_size = initial, ws_alloc = alloc, initial_size = initial\<rparr>)"

definition bytes_written :: "WriteStream \<Rightarrow> nat" where
  "bytes_written st = ws_current st"

definition set_current :: "WriteStream \<Rightarrow> nat \<Rightarrow> WriteStream" where
  "set_current st value = st\<lparr>ws_current := value\<rparr>"

definition Resize :: "WriteStream \<Rightarrow> nat \<Rightarrow> stream_error + WriteStream" where
  "Resize st size_needed =
     (let increment_size =
            (if size_needed > current_size st then unat (RoundUp (of_nat size_needed) (of_nat (initial_size st) :: uword))
             else current_size st);
          new_size = current_size st + increment_size
      in case ws_alloc st (ws_buffer st) (current_size st) new_size of
           None \<Rightarrow> Inl OutOfMemory
         | Some buffer \<Rightarrow> Inr (st\<lparr>ws_buffer := buffer, current_size := new_size\<rparr>))"

definition WriteByte :: "WriteStream \<Rightarrow> u8 \<Rightarrow> stream_error + WriteStream" where
  "WriteByte st value =
     (case (if ws_current st \<ge> current_size st then Resize st 1 else Inr st) of
        Inl e \<Rightarrow> Inl e
      | Inr st \<Rightarrow> Inr (st\<lparr>ws_buffer := (ws_buffer st)[ws_current st := value], ws_current := Suc (ws_current st)\<rparr>))"

definition WriteBytes :: "WriteStream \<Rightarrow> u8 list \<Rightarrow> stream_error + WriteStream" where
  "WriteBytes st addr =
     (case (if current_size st - ws_current st < length addr then Resize st (length addr) else Inr st) of
        Inl e \<Rightarrow> Inl e
      | Inr st \<Rightarrow>
          Inr (st\<lparr>ws_buffer := take (ws_current st) (ws_buffer st) @ addr @ drop (ws_current st + length addr) (ws_buffer st),
                  ws_current := ws_current st + length addr\<rparr>))"

function Write :: "WriteStream \<Rightarrow> 'a::len word \<Rightarrow> stream_error + WriteStream" where
  "Write st v =
     (if sint v < kMinDataPerByte \<or> sint v > kMaxDataPerByte then
        case WriteByte st (ucast (v AND of_int kByteMask)) of
          Inl e \<Rightarrow> Inl e
        | Inr st \<Rightarrow> Write st (signed_drop_bit kDataBitsPerByte v)
      else WriteByte st (ucast (v + ucast kEndByteMarker)))"
  by pat_completeness auto
termination
  by (relation "measure (\<lambda>(_, v). nat \<bar>sint v\<bar>)") (auto simp: sint_signed_drop_bit_eq drop_bit_eq_div)

declare Write.simps [simp del]

function WriteUnsigned :: "WriteStream \<Rightarrow> uword \<Rightarrow> stream_error + WriteStream" where
  "WriteUnsigned st value =
     (if sint value > kMaxUnsignedDataPerByte then
        case WriteByte st (ucast (value AND of_int kByteMask)) of
          Inl e \<Rightarrow> Inl e
        | Inr st \<Rightarrow> WriteUnsigned st (signed_drop_bit kDataBitsPerByte value)
      else WriteByte st (ucast (value + ucast kEndUnsignedByteMarker)))"
  by pat_completeness auto
termination
  by (relation "measure (\<lambda>(_, v). nat \<bar>sint v\<bar>)") (auto simp: sint_signed_drop_bit_eq drop_bit_eq_div)

declare WriteUnsigned.simps [simp del]

definition RawWrite1 :: "WriteStream \<Rightarrow> u8 \<Rightarrow> stream_error + WriteStream" where
  "RawWrite1 st value = WriteByte st value"

definition RawWrite2 :: "WriteStream \<Rightarrow> u16 \<Rightarrow> stream_error + WriteStream" where
  "RawWrite2 st value = Write st value"

definition RawWrite4 :: "WriteStream \<Rightarrow> u32 \<Rightarrow> stream_error + WriteStream" where
  "RawWrite4 st value = Write st value"

definition RawWrite8 :: "WriteStream \<Rightarrow> uword \<Rightarrow> stream_error + WriteStream" where
  "RawWrite8 st value = Write st value"

section \<open>What the bytes mean\<close>

fun terminated :: "u8 list \<Rightarrow> bool" where
  "terminated [] \<longleftrightarrow> False"
| "terminated (b # bs) \<longleftrightarrow> (if is_end_byte b then bs = [] else terminated bs)"

fun varint :: "u8 \<Rightarrow> u8 list \<Rightarrow> int" where
  "varint m [] = 0"
| "varint m (b # bs) = (if is_end_byte b then uint b - uint m else uint b + 2 ^ 7 * varint m bs)"

lemma fetch_byte_append [simp]:
  "fetch_byte \<lparr>rs_buffer = pre @ b # post, rs_current = i\<rparr> (length pre) = Some (b, Suc (length pre))"
  by (simp add: fetch_byte_def)

lemma or_push_bit:
  fixes r w :: "'a::len word"
  assumes "take_bit s r = r"
  shows "r OR push_bit s w = r + 2 ^ s * w"
proof -
  have "r AND push_bit s w = 0"
    by (subst assms [symmetric], rule bit_word_eqI) (auto simp: bit_simps)
  then show ?thesis by (simp add: disjunctive_add_eq_or push_bit_eq_mult mult.commute)
qed

lemma take_bit_or_push_bit:
  fixes r :: "'a::len word" and b :: u8
  assumes "take_bit s r = r" "\<not> is_end_byte b"
  shows "take_bit (s + 7) (r OR push_bit s (ucast b)) = r OR push_bit s (ucast b)"
proof -
  have "take_bit 7 (uint b) = uint b" using assms(2) by (simp add: is_end_byte_def take_bit_eq_mod)
  then have "take_bit 7 b = b" by (metis unsigned_take_bit_eq word_uint_eq_iff)
  then have b: "\<not> bit b n" if "7 \<le> n" for n using that by (metis bit_take_bit_iff leD)
  have r: "\<not> bit r n" if "s \<le> n" for n using that assms(1) by (metis bit_take_bit_iff leD)
  show ?thesis by (rule bit_word_eqI) (auto simp: bit_simps r b)
qed

text \<open>The unrolled readers are one loop over the shifts of their stages.\<close>

fun read_stages :: "ReadStream \<Rightarrow> u8 \<Rightarrow> nat list \<Rightarrow> 'a::len word \<Rightarrow> nat \<Rightarrow> ('a word \<times> ReadStream) option" where
  "read_stages st m [] r c = None"
| "read_stages st m (s # ss) r c = do {
     (b, c) \<leftarrow> fetch_byte st c;
     if is_end_byte b \<or> ss = [] then Some (r OR push_bit s (ucast b - ucast m), st\<lparr>rs_current := c\<rparr>)
     else read_stages st m ss (r OR push_bit s (ucast b)) c
   }"

lemma Read16_stages: "Read16 st m = read_stages st m [0, 7, 14] 0 (rs_current st)"
  by (simp add: Read16_def cong: if_cong)

lemma Read32_stages: "Read32 st m = read_stages st m [0, 7, 14, 21, 28] 0 (rs_current st)"
  by (simp add: Read32_def cong: if_cong)

lemma Read64_stages: "Read64 st m = read_stages st m [0, 7, 14, 21, 28, 35, 42, 49, 56, 63] 0 (rs_current st)"
  by (simp add: Read64_def cong: if_cong)

lemma read_stages_terminated:
  assumes "terminated bs" "length bs \<le> n" "take_bit s r = r"
  shows "read_stages \<lparr>rs_buffer = pre @ bs @ post, rs_current = i\<rparr> m (map (\<lambda>j. s + 7 * j) [0..<n]) r (length pre)
    = Some (r + 2 ^ s * word_of_int (varint m bs), \<lparr>rs_buffer = pre @ bs @ post, rs_current = length pre + length bs\<rparr>)"
  using assms
proof (induction bs arbitrary: pre n s r)
  case (Cons b bs)
  obtain n' where n: "n = Suc n'" using Cons.prems(2) by (cases n) auto
  have upt: "map (\<lambda>j. s + 7 * j) [0..<n] = s # map (\<lambda>j. (s + 7) + 7 * j) [0..<n']"
    unfolding n upt_conv_Cons [OF zero_less_Suc] by (simp add: map_Suc_upt [symmetric] del: upt_Suc map_Suc_upt)
  show ?case
  proof (cases "is_end_byte b")
    case True
    then show ?thesis using Cons.prems(1,3) unfolding upt by (simp add: or_push_bit)
  next
    case False
    have "n' \<noteq> 0" using Cons.prems False n by (cases bs) auto
    moreover note Cons.IH [of n' "s + 7" "r OR push_bit s (ucast b)" "pre @ [b]", OF _ _ take_bit_or_push_bit [OF Cons.prems(3) False]]
    moreover have "(r OR push_bit s (ucast b)) + 2 ^ (s + 7) * word_of_int (varint m bs)
        = r + 2 ^ s * word_of_int (varint m (b # bs))"
      using Cons.prems(3) False by (simp add: or_push_bit power_add algebra_simps)
    ultimately show ?thesis using Cons.prems False n unfolding upt by simp
  qed
qed simp

lemma Read_loop_terminated:
  assumes "terminated bs" "\<not> is_end_byte b" "unat s + 7 * length bs < 256" "take_bit (unat s) r = r"
  shows "Read_loop \<lparr>rs_buffer = pre @ bs @ post, rs_current = i\<rparr> m (length pre) b r s
    = Some (r + 2 ^ unat s * word_of_int (varint m (b # bs)), \<lparr>rs_buffer = pre @ bs @ post, rs_current = length pre + length bs\<rparr>)"
  using assms
proof (induction bs arbitrary: pre b s r)
  case (Cons b' bs)
  let ?r = "r OR push_bit (unat s) (ucast b)"
  have s: "unat (s + 7) = unat s + 7" using Cons.prems(3) by (simp add: unat_word_ariths)
  have r: "take_bit (unat (s + 7)) ?r = ?r" unfolding s by (rule take_bit_or_push_bit [OF Cons.prems(4,2)])
  have eq: "?r + 2 ^ (unat s + 7) * w = r + 2 ^ unat s * (ucast b + 2 ^ 7 * w)" for w
    using Cons.prems(4) by (simp add: or_push_bit power_add algebra_simps)
  show ?case
  proof (cases "is_end_byte b'")
    case True
    then show ?thesis using Cons.prems(1,2) r eq [of "ucast b' - ucast m"] s
      by (subst Read_loop.simps) (simp add: Let_def or_push_bit [of "unat s + 7"])
  next
    case False
    have "Read_loop \<lparr>rs_buffer = (pre @ [b']) @ bs @ post, rs_current = i\<rparr> m (length (pre @ [b'])) b' ?r (s + 7)
        = Some (?r + 2 ^ unat (s + 7) * word_of_int (varint m (b' # bs)),
            \<lparr>rs_buffer = (pre @ [b']) @ bs @ post, rs_current = length (pre @ [b']) + length bs\<rparr>)"
      using Cons.prems False s by (intro Cons.IH r) auto
    then show ?thesis using False Cons.prems(2) eq [of "word_of_int (varint m (b' # bs))"] s
      by (subst Read_loop.simps) (simp add: Let_def)
  qed
qed simp

lemma Read_terminated:
  assumes "terminated bs" "7 * length bs < 256"
  shows "Read \<lparr>rs_buffer = pre @ bs @ post, rs_current = length pre\<rparr> m
    = Some (word_of_int (varint m bs), \<lparr>rs_buffer = pre @ bs @ post, rs_current = length pre + length bs\<rparr>)"
proof (cases bs)
  case (Cons b bs')
  then show ?thesis
    using assms Read_loop_terminated [of bs' b 0 0 "pre @ [b]" post "length pre" m] by (auto simp: Read_def)
qed (use assms in simp)

lemma terminated_prefix:
  assumes "c + j < length xs" "is_end_byte (xs ! (c + j))"
  obtains bs post where "xs = take c xs @ bs @ post" "terminated bs" "length bs \<le> Suc j"
  using assms
proof (induction j arbitrary: c thesis)
  case 0
  then show ?case using Cons_nth_drop_Suc [of c xs] append_take_drop_id [of c xs]
    by (intro "0.prems"(1) [of "[xs ! c]" "drop (Suc c) xs"]) auto
next
  case (Suc j)
  have c: "xs = take c xs @ [xs ! c] @ drop (Suc c) xs" using Suc.prems(2) by (simp add: id_take_nth_drop)
  show ?case
  proof (cases "is_end_byte (xs ! c)")
    case True
    then show ?thesis using c by (intro Suc.prems(1) [of "[xs ! c]"]) auto
  next
    case False
    from Suc.IH [of "Suc c"] Suc.prems(2,3) obtain bs post where
        b: "xs = take (Suc c) xs @ bs @ post" "terminated bs" "length bs \<le> Suc j" by auto
    have "take (Suc c) xs = take c xs @ [xs ! c]" using Suc.prems(2) by (simp add: take_Suc_conv_app_nth)
    then show ?thesis using b False by (intro Suc.prems(1) [of "xs ! c # bs" post]) auto
  qed
qed

lemma stages_agree:
  assumes "rs_current st + j < length (rs_buffer st)" "is_end_byte (rs_buffer st ! (rs_current st + j))" "j < n" "n \<le> 36"
  shows "read_stages st m (map (\<lambda>j. 7 * j) [0..<n]) 0 (rs_current st) = Read st m"
proof -
  from terminated_prefix [OF assms(1,2)] obtain bs post where
    b: "rs_buffer st = take (rs_current st) (rs_buffer st) @ bs @ post" "terminated bs" "length bs \<le> Suc j" .
  let ?pre = "take (rs_current st) (rs_buffer st)"
  have st: "st = \<lparr>rs_buffer = ?pre @ bs @ post, rs_current = length ?pre\<rparr>" using b(1) assms(1) by simp
  show ?thesis
    by (subst (1 2 3) st, subst Read_terminated)
      (use b assms read_stages_terminated [of bs n 0 0 ?pre post "length ?pre" m] in auto)
qed

text \<open>C24: The readers of 16, 32 and 64-bit integers, written out for their 3, 5 and 10 bytes, agree with the loop of
  the template \<open>Read\<close> on every stream and for both markers, whenever the last byte of the integer is among
  these bytes: they return the same value and move to the same position.\<close>

theorem unrolled_reads_agree:
  assumes "rs_current st + j < length (rs_buffer st)" "is_end_byte (rs_buffer st ! (rs_current st + j))"
  shows "(j < 3 \<longrightarrow> Read16 st m = Read st m) \<and> (j < 5 \<longrightarrow> Read32 st m = Read st m) \<and> (j < 10 \<longrightarrow> Read64 st m = Read st m)"
proof -
  have "map ((*) 7) [0..<3] = [0, 7, 14]" "map ((*) 7) [0..<5] = [0, 7, 14, 21, 28]"
    "map ((*) 7) [0..<10] = [0, 7, 14, 21, 28, 35, 42, 49, 56, 63 :: nat]"
    by code_simp+
  then show ?thesis
    using stages_agree [OF assms, of 3 m] stages_agree [OF assms, of 5 m] stages_agree [OF assms, of 10 m]
    unfolding Read16_stages Read32_stages Read64_stages by auto
qed

theorem unrolled_reads_agree_witness:
  "Read64 \<lparr>rs_buffer = [5, 3, 200], rs_current = 0\<rparr> kEndByteMarker = Read \<lparr>rs_buffer = [5, 3, 200], rs_current = 0\<rparr> kEndByteMarker
    \<and> Read64 \<lparr>rs_buffer = [5, 3, 200], rs_current = 0\<rparr> kEndByteMarker = Some (131461, \<lparr>rs_buffer = [5, 3, 200], rs_current = 3\<rparr>)"
proof -
  have "Read64 \<lparr>rs_buffer = [5, 3, 200], rs_current = 0\<rparr> kEndByteMarker = Some (131461, \<lparr>rs_buffer = [5, 3, 200], rs_current = 3\<rparr>)"
    by code_simp
  then show ?thesis
    using unrolled_reads_agree [of "\<lparr>rs_buffer = [5, 3, 200], rs_current = 0\<rparr>" 2 kEndByteMarker]
    by (simp add: is_end_byte_def)
qed

section \<open>What the writer writes\<close>

text \<open>A reallocation function keeps the old bytes. The initial size is a power of two, as \<open>RoundUp\<close> asserts.\<close>

definition realloc_ok :: "ReAlloc \<Rightarrow> bool" where
  "realloc_ok alloc \<longleftrightarrow> (\<forall>xs n ys. length xs \<le> n \<longrightarrow> alloc xs (length xs) n = Some ys \<longrightarrow> length ys = n \<and> take (length xs) ys = xs)"

definition ws_inv :: "WriteStream \<Rightarrow> bool" where
  "ws_inv st \<longleftrightarrow> length (ws_buffer st) = current_size st \<and> ws_current st \<le> current_size st \<and> 0 < current_size st
     \<and> (\<exists>k < 62. initial_size st = 2 ^ k) \<and> realloc_ok (ws_alloc st)"

definition ws_written :: "WriteStream \<Rightarrow> u8 list" where
  "ws_written st = take (bytes_written st) (ws_buffer st)"

lemma realloc_okD:
  "realloc_ok alloc \<Longrightarrow> alloc xs m n = Some ys \<Longrightarrow> m = length xs \<Longrightarrow> m \<le> n \<Longrightarrow> length ys = n \<and> take m ys = xs"
  unfolding realloc_ok_def by blast

lemma RoundUp_ge:
  assumes "k < 62" "n \<le> 2 ^ 62"
  shows "n \<le> unat (RoundUp (of_nat n) (of_nat (2 ^ k) :: uword))"
proof -
  have pow: "(2::nat) ^ k \<le> 2 ^ 62" using assms(1) by (intro power_increasing) auto
  have n: "unat (of_nat n :: uword) = n" using assms(2) unfolding unat_of_nat by (intro mod_less) simp
  have "unat (of_nat n :: uword) \<le> unat (RoundUp (of_nat n) (2 ^ k :: uword))"
    by (rule RoundUp_spec(2)) (use assms pow n in simp_all)
  then show ?thesis unfolding n by simp
qed

definition new_size :: "WriteStream \<Rightarrow> nat \<Rightarrow> nat" where
  "new_size st n = current_size st +
     (if n > current_size st then unat (RoundUp (of_nat n) (of_nat (initial_size st) :: uword)) else current_size st)"

lemma new_size_ge:
  assumes "ws_inv st" "n \<le> 2 ^ 62"
  shows "current_size st + n \<le> new_size st n"
  using assms RoundUp_ge [OF _ assms(2)] by (auto simp: ws_inv_def new_size_def simp del: of_nat_power)

lemma Resize_new_size:
  assumes "Resize st n = Inr st'"
  obtains ys where "ws_alloc st (ws_buffer st) (current_size st) (new_size st n) = Some ys"
    "st' = st\<lparr>ws_buffer := ys, current_size := new_size st n\<rparr>"
  using assms unfolding Resize_def Let_def new_size_def [symmetric] by (auto split: option.splits)

lemma Resize_spec:
  assumes "ws_inv st" "Resize st n = Inr st'" "n \<le> 2 ^ 62"
  shows "ws_inv st'" "ws_current st' = ws_current st" "ws_current st' + n \<le> current_size st'"
    "take (ws_current st) (ws_buffer st') = take (ws_current st) (ws_buffer st)"
proof -
  from assms(2) obtain ys where ys: "ws_alloc st (ws_buffer st) (current_size st) (new_size st n) = Some ys"
      "st' = st\<lparr>ws_buffer := ys, current_size := new_size st n\<rparr>" by (rule Resize_new_size)
  have inv: "realloc_ok (ws_alloc st)" "current_size st = length (ws_buffer st)" "ws_current st \<le> current_size st"
    using assms(1) by (auto simp: ws_inv_def)
  note new = new_size_ge [OF assms(1,3)]
  have y: "length ys = new_size st n" "take (current_size st) ys = ws_buffer st"
    using realloc_okD [OF inv(1) ys(1) inv(2)] new by auto
  have "take (ws_current st) ys = take (ws_current st) (take (current_size st) ys)" using inv(3) by (simp add: take_take min_def)
  then show "take (ws_current st) (ws_buffer st') = take (ws_current st) (ws_buffer st)" by (simp add: ys(2) y(2))
  show "ws_current st' + n \<le> current_size st'" "ws_current st' = ws_current st" using new inv(3) by (simp_all add: ys(2))
  show "ws_inv st'" using assms(1) new y(1) by (auto simp: ws_inv_def ys(2))
qed

lemma WriteBytes_appends:
  assumes "ws_inv st" "WriteBytes st bs = Inr st'" "length bs \<le> 2 ^ 62"
  shows "ws_inv st' \<and> ws_written st' = ws_written st @ bs"
proof -
  obtain st1 where st1: "ws_inv st1" "ws_current st1 = ws_current st" "ws_current st1 + length bs \<le> current_size st1"
      "take (ws_current st) (ws_buffer st1) = take (ws_current st) (ws_buffer st)"
      "st' = st1\<lparr>ws_buffer := take (ws_current st1) (ws_buffer st1) @ bs @ drop (ws_current st1 + length bs) (ws_buffer st1),
         ws_current := ws_current st1 + length bs\<rparr>"
  proof (cases "current_size st - ws_current st < length bs")
    case True
    then show ?thesis using assms(2) Resize_spec [OF assms(1) _ assms(3)] that
      by (auto simp: WriteBytes_def split: sum.splits)
  next
    case False
    then show ?thesis using assms(1,2) that [of st] by (auto simp: WriteBytes_def ws_inv_def)
  qed
  then have "ws_current st \<le> length (ws_buffer st)" "ws_current st \<le> length (ws_buffer st1)"
    using assms(1) by (auto simp: ws_inv_def)
  then show ?thesis using st1 by (auto simp: ws_inv_def ws_written_def bytes_written_def min_def)
qed

lemma WriteByte_WriteBytes:
  assumes "ws_inv st"
  shows "WriteByte st b = WriteBytes st [b]"
proof -
  have "xs[c := b] = take c xs @ b # drop (Suc c) xs" if "c < length xs" for xs c
    using that by (rule upd_conv_take_nth_drop)
  moreover have "ws_current st1 < length (ws_buffer st1)" if "Resize st (Suc 0) = Inr st1" for st1
    using Resize_spec [OF assms that] by (auto simp: ws_inv_def)
  moreover have "ws_current st < current_size st \<Longrightarrow> ws_current st < length (ws_buffer st)" using assms by (auto simp: ws_inv_def)
  ultimately show ?thesis by (auto simp: WriteByte_def WriteBytes_def split: sum.splits)
qed

lemma WriteByte_appends:
  assumes "ws_inv st" "WriteByte st b = Inr st'"
  shows "ws_inv st' \<and> ws_written st' = ws_written st @ [b]"
  using WriteBytes_appends [OF assms(1), of "[b]" st'] assms(2) WriteByte_WriteBytes [OF assms(1)] by simp

lemma low_seven_bits:
  fixes v :: "'a::len word"
  assumes "8 \<le> LENGTH('a)"
  shows "uint (ucast (v AND 127) :: u8) = sint v mod 128"
proof -
  have m: "127 = (mask 7 :: 'a word)" by (simp add: mask_eq_exp_minus_1)
  have "uint (ucast (v AND mask 7) :: u8) = take_bit 7 (sint v)"
    using assms by (intro bit_eqI) (auto simp: bit_simps bit_sint_iff min_def)
  then show ?thesis unfolding m by (simp add: take_bit_eq_mod)
qed

lemma marked_byte:
  fixes v :: "'a::len word"
  assumes "8 \<le> LENGTH('a)" "0 \<le> sint v + numeral m" "sint v + numeral m < 256"
  shows "uint (ucast (v + numeral m) :: u8) = sint v + numeral m"
proof -
  have "v + numeral m = word_of_int (sint v + numeral m)" by simp
  then have "uint (ucast (v + numeral m) :: u8) = (sint v + numeral m) mod 2 ^ LENGTH('a) mod 2 ^ 8"
    by (simp only: unsigned_ucast_eq take_bit_eq_mod uint_word_of_int) simp
  also have "\<dots> = (sint v + numeral m) mod 2 ^ 8" using assms(1) by (intro mod_mod_cancel le_imp_power_dvd)
  finally show ?thesis using assms(2,3) by simp
qed

text \<open>Both loops write the low seven bits of the value and continue with the rest.\<close>

definition encodes :: "u8 \<Rightarrow> WriteStream \<Rightarrow> WriteStream \<Rightarrow> int \<Rightarrow> nat \<Rightarrow> bool" where
  "encodes m st st' x n \<longleftrightarrow> ws_inv st' \<and>
     (\<exists>bs. ws_written st' = ws_written st @ bs \<and> terminated bs \<and> varint m bs = x \<and> length bs \<le> n)"

lemma encodes_more:
  assumes "ws_inv st" "WriteByte st b = Inr st1" "uint b = x mod 128" "encodes m st1 st' (x div 128) n"
  shows "encodes m st st' x (Suc n)"
proof -
  from assms(4) obtain bs where bs: "ws_inv st'" "ws_written st' = ws_written st1 @ bs" "terminated bs"
      "varint m bs = x div 128" "length bs \<le> n" by (auto simp: encodes_def)
  have "\<not> is_end_byte b" using assms(3) pos_mod_bound [of 128 x] by (simp add: is_end_byte_def)
  then show ?thesis using WriteByte_appends [OF assms(1,2)] bs assms(3)
    by (auto simp: encodes_def intro!: exI [of _ "b # bs"])
qed

lemma encodes_last:
  assumes "ws_inv st" "WriteByte st b = Inr st'" "uint b = x + uint m" "127 < uint b"
  shows "encodes m st st' x (Suc n)"
  using WriteByte_appends [OF assms(1,2)] assms(3,4) by (auto simp: encodes_def is_end_byte_def intro!: exI [of _ "[b]"])

lemma Write_encodes:
  fixes v :: "'a::len word"
  assumes "8 \<le> LENGTH('a)" "ws_inv st" "Write st v = Inr st'" "- (2 ^ (7 * n + 6)) \<le> sint v" "sint v < 2 ^ (7 * n + 6)"
  shows "encodes kEndByteMarker st st' (sint v) (Suc n)"
  using assms(2-)
proof (induction st v arbitrary: n rule: Write.induct)
  case (1 st v)
  show ?case
  proof (cases "sint v < - 64 \<or> sint v > 63")
    case True
    then obtain st1 where st1: "WriteByte st (ucast (v AND 127)) = Inr st1" "Write st1 (signed_drop_bit 7 v) = Inr st'"
      using "1.prems"(2) by (subst (asm) Write.simps) (auto split: sum.splits)
    have d: "sint (signed_drop_bit 7 v) = sint v div 128" by (simp add: sint_signed_drop_bit_eq drop_bit_eq_div)
    obtain n' where n: "n = Suc n'" using True "1.prems"(3,4) by (cases n) auto
    have "encodes kEndByteMarker st1 st' (sint (signed_drop_bit 7 v)) (Suc n')"
      using True st1 WriteByte_appends [OF "1.prems"(1) st1(1)] "1.prems"(3,4) "1.IH" [of st1 n']
      by (auto simp: d n power_add)
    then show ?thesis unfolding n d using low_seven_bits [OF assms(1)] by (intro encodes_more [OF "1.prems"(1) st1(1)])
  next
    case False
    then have "WriteByte st (ucast (v + 192)) = Inr st'" using "1.prems"(2) by (subst (asm) Write.simps) auto
    then show ?thesis using marked_byte [OF assms(1)] False by (intro encodes_last [OF "1.prems"(1)]) auto
  qed
qed

lemma WriteUnsigned_encodes:
  assumes "ws_inv st" "WriteUnsigned st v = Inr st'" "0 \<le> sint v" "sint v < 2 ^ (7 * n + 7)"
  shows "encodes kEndUnsignedByteMarker st st' (sint v) (Suc n)"
  using assms
proof (induction st v arbitrary: n rule: WriteUnsigned.induct)
  case (1 st v)
  show ?case
  proof (cases "sint v > 127")
    case True
    then obtain st1 where st1: "WriteByte st (ucast (v AND 127)) = Inr st1" "WriteUnsigned st1 (signed_drop_bit 7 v) = Inr st'"
      using "1.prems"(2) by (subst (asm) WriteUnsigned.simps) (auto split: sum.splits)
    have d: "sint (signed_drop_bit 7 v) = sint v div 128" by (simp add: sint_signed_drop_bit_eq drop_bit_eq_div)
    obtain n' where n: "n = Suc n'" using True "1.prems"(3,4) by (cases n) auto
    have "encodes kEndUnsignedByteMarker st1 st' (sint (signed_drop_bit 7 v)) (Suc n')"
      using True st1 WriteByte_appends [OF "1.prems"(1) st1(1)] "1.prems"(3,4) "1.IH" [of st1 n']
      by (auto simp: d n power_add)
    then show ?thesis unfolding n d using low_seven_bits [of v] by (intro encodes_more [OF "1.prems"(1) st1(1)]) auto
  next
    case False
    then have "WriteByte st (ucast (v + 128)) = Inr st'" using "1.prems"(2) by (subst (asm) WriteUnsigned.simps) auto
    then show ?thesis using marked_byte [of v "num.Bit0 _"] "1.prems"(3) False by (intro encodes_last [OF "1.prems"(1)]) auto
  qed
qed

section \<open>Sequences of values\<close>

text \<open>What the clients of the streams write: raw values of one, two, four and eight bytes, unsigned integers and byte
  arrays. The reader knows the kind of each value and the length of each array.\<close>

datatype item = Item8 u8 | Item16 u16 | Item32 u32 | Item64 uword | ItemUnsigned uword | ItemBytes "u8 list"

datatype shape = Shape8 | Shape16 | Shape32 | Shape64 | ShapeUnsigned | ShapeBytes nat

fun shape_of :: "item \<Rightarrow> shape" where
  "shape_of (Item8 v) = Shape8"
| "shape_of (Item16 v) = Shape16"
| "shape_of (Item32 v) = Shape32"
| "shape_of (Item64 v) = Shape64"
| "shape_of (ItemUnsigned v) = ShapeUnsigned"
| "shape_of (ItemBytes bs) = ShapeBytes (length bs)"

fun valid_item :: "item \<Rightarrow> bool" where
  "valid_item (ItemUnsigned v) \<longleftrightarrow> 0 \<le> sint v"
| "valid_item (ItemBytes bs) \<longleftrightarrow> length bs \<le> 2 ^ 62"
| "valid_item _ \<longleftrightarrow> True"

fun write_item :: "WriteStream \<Rightarrow> item \<Rightarrow> stream_error + WriteStream" where
  "write_item st (Item8 v) = RawWrite1 st v"
| "write_item st (Item16 v) = RawWrite2 st v"
| "write_item st (Item32 v) = RawWrite4 st v"
| "write_item st (Item64 v) = RawWrite8 st v"
| "write_item st (ItemUnsigned v) = WriteUnsigned st v"
| "write_item st (ItemBytes bs) = WriteBytes st bs"

definition at_position :: "('v \<Rightarrow> item) \<Rightarrow> ('v \<times> ReadStream) option \<Rightarrow> (item \<times> nat) option" where
  "at_position f r = map_option (\<lambda>(v, st). (f v, Position st)) r"

fun read_item :: "shape \<Rightarrow> u8 list \<Rightarrow> nat \<Rightarrow> (item \<times> nat) option" where
  "read_item Shape8 bs i = at_position Item8 (RawRead1 \<lparr>rs_buffer = bs, rs_current = i\<rparr>)"
| "read_item Shape16 bs i = at_position Item16 (RawRead2 \<lparr>rs_buffer = bs, rs_current = i\<rparr>)"
| "read_item Shape32 bs i = at_position Item32 (RawRead4 \<lparr>rs_buffer = bs, rs_current = i\<rparr>)"
| "read_item Shape64 bs i = at_position Item64 (RawRead8 \<lparr>rs_buffer = bs, rs_current = i\<rparr>)"
| "read_item ShapeUnsigned bs i = at_position ItemUnsigned (ReadUnsigned \<lparr>rs_buffer = bs, rs_current = i\<rparr>)"
| "read_item (ShapeBytes n) bs i = at_position ItemBytes (ReadBytes \<lparr>rs_buffer = bs, rs_current = i\<rparr> n)"

lemma shifts: "[0, 7, 14] = map (\<lambda>j. 0 + 7 * j) [0..<3]" "[0, 7, 14, 21, 28] = map (\<lambda>j. 0 + 7 * j) [0..<5]"
  "[0, 7, 14, 21, 28, 35, 42, 49, 56, 63 :: nat] = map (\<lambda>j. 0 + 7 * j) [0..<10]"
  by code_simp+

lemma Read16_terminated:
  assumes "terminated bs" "length bs \<le> 3"
  shows "Read16 \<lparr>rs_buffer = pre @ bs @ post, rs_current = length pre\<rparr> m
    = Some (word_of_int (varint m bs), \<lparr>rs_buffer = pre @ bs @ post, rs_current = length pre + length bs\<rparr>)"
  unfolding Read16_stages shifts using read_stages_terminated [OF assms, of 0 0 pre post "length pre" m] by simp

lemma Read32_terminated:
  assumes "terminated bs" "length bs \<le> 5"
  shows "Read32 \<lparr>rs_buffer = pre @ bs @ post, rs_current = length pre\<rparr> m
    = Some (word_of_int (varint m bs), \<lparr>rs_buffer = pre @ bs @ post, rs_current = length pre + length bs\<rparr>)"
  unfolding Read32_stages shifts using read_stages_terminated [OF assms, of 0 0 pre post "length pre" m] by simp

lemma Read64_terminated:
  assumes "terminated bs" "length bs \<le> 10"
  shows "Read64 \<lparr>rs_buffer = pre @ bs @ post, rs_current = length pre\<rparr> m
    = Some (word_of_int (varint m bs), \<lparr>rs_buffer = pre @ bs @ post, rs_current = length pre + length bs\<rparr>)"
  unfolding Read64_stages shifts using read_stages_terminated [OF assms, of 0 0 pre post "length pre" m] by simp

lemmas read_terminated = Read_terminated Read16_terminated Read32_terminated Read64_terminated

lemma encodes_readable:
  assumes "encodes m st st' x n" "\<And>bs pre post. terminated bs \<Longrightarrow> length bs \<le> n \<Longrightarrow> varint m bs = x \<Longrightarrow>
    read_item k (pre @ bs @ post) (length pre) = Some (v, length pre + length bs)"
  shows "ws_inv st' \<and> (\<exists>bs. ws_written st' = ws_written st @ bs
    \<and> (\<forall>pre post. read_item k (pre @ bs @ post) (length pre) = Some (v, length pre + length bs)))"
  using assms unfolding encodes_def by blast

lemma write_item_law:
  assumes "ws_inv st" "valid_item v" "write_item st v = Inr st'"
  shows "ws_inv st' \<and> (\<exists>bs. ws_written st' = ws_written st @ bs
    \<and> (\<forall>pre post. read_item (shape_of v) (pre @ bs @ post) (length pre) = Some (v, length pre + length bs)))"
proof (cases v)
  case (Item8 b)
  then show ?thesis using assms WriteByte_appends [OF assms(1), of b st']
    by (auto simp: RawWrite1_def RawRead1_def ReadByte_def at_position_def Position_def fetch_byte_def)
next
  case (ItemBytes bs)
  then show ?thesis using assms WriteBytes_appends [OF assms(1), of bs st']
    by (auto simp: ReadBytes_def at_position_def Position_def)
next
  case (Item16 w)
  have "encodes kEndByteMarker st st' (sint w) (Suc 2)"
    using assms Item16 sint_range_size [of w] by (intro Write_encodes) (auto simp: RawWrite2_def word_size)
  then show ?thesis unfolding Item16
    by (rule encodes_readable) (simp add: RawRead2_def read_terminated at_position_def Position_def)
next
  case (Item32 w)
  have "encodes kEndByteMarker st st' (sint w) (Suc 4)"
    using assms Item32 sint_range_size [of w] by (intro Write_encodes) (auto simp: RawWrite4_def word_size)
  then show ?thesis unfolding Item32
    by (rule encodes_readable) (simp add: RawRead4_def read_terminated at_position_def Position_def)
next
  case (Item64 w)
  have "encodes kEndByteMarker st st' (sint w) (Suc 9)"
    using assms Item64 sint_range_size [of w] by (intro Write_encodes) (auto simp: RawWrite8_def word_size)
  then show ?thesis unfolding Item64
    by (rule encodes_readable) (simp add: RawRead8_def read_terminated at_position_def Position_def)
next
  case (ItemUnsigned w)
  have "encodes kEndUnsignedByteMarker st st' (sint w) (Suc 8)"
    using assms ItemUnsigned sint_range_size [of w] by (intro WriteUnsigned_encodes) (auto simp: word_size)
  then show ?thesis unfolding ItemUnsigned
    by (rule encodes_readable) (simp add: ReadUnsigned_def read_terminated at_position_def Position_def)
qed

interpretation ds: serializer ws_inv ws_written valid_item write_item shape_of read_item
  by unfold_locales (rule write_item_law)

text \<open>Writing fails only when a reallocation does.\<close>

definition alloc_fails :: "WriteStream \<Rightarrow> bool" where
  "alloc_fails st \<longleftrightarrow> (\<exists>xs m n. ws_alloc st xs m n = None)"

definition fails_only_oom :: "WriteStream \<Rightarrow> stream_error + WriteStream \<Rightarrow> bool" where
  "fails_only_oom st r \<longleftrightarrow> (case r of Inl e \<Rightarrow> e = OutOfMemory \<and> alloc_fails st | Inr st' \<Rightarrow> ws_alloc st' = ws_alloc st)"

lemma fails_only_oom_bind:
  assumes "fails_only_oom st r" "\<And>st'. r = Inr st' \<Longrightarrow> ws_alloc st' = ws_alloc st \<Longrightarrow> fails_only_oom st' (f st')"
  shows "fails_only_oom st (case r of Inl e \<Rightarrow> Inl e | Inr st' \<Rightarrow> f st')"
  using assms by (auto simp: fails_only_oom_def alloc_fails_def split: sum.splits)

lemma Resize_oom: "fails_only_oom st (Resize st n)"
  by (auto simp: fails_only_oom_def alloc_fails_def Resize_def Let_def split: option.splits)

lemma Write_bytes_oom: "fails_only_oom st (WriteByte st b)" "fails_only_oom st (WriteBytes st bs)"
  unfolding WriteByte_def WriteBytes_def
  by (rule fails_only_oom_bind; use Resize_oom in \<open>simp add: fails_only_oom_def\<close>)+

lemma Write_oom: "fails_only_oom st (Write st v)"
proof (induction st v rule: Write.induct)
  case (1 st v)
  then show ?case by (subst Write.simps) (auto intro!: fails_only_oom_bind Write_bytes_oom)
qed

lemma WriteUnsigned_oom: "fails_only_oom st (WriteUnsigned st v)"
proof (induction st v rule: WriteUnsigned.induct)
  case (1 st v)
  then show ?case by (subst WriteUnsigned.simps) (auto intro!: fails_only_oom_bind Write_bytes_oom)
qed

lemma write_all_oom: "fails_only_oom st (write_all write_item st vs)"
proof (induction vs arbitrary: st)
  case (Cons v vs)
  have "fails_only_oom st (write_item st v)"
    by (cases v) (simp_all add: Write_bytes_oom Write_oom WriteUnsigned_oom RawWrite1_def RawWrite2_def RawWrite4_def RawWrite8_def)
  then show ?case using Cons.IH by (auto intro!: fails_only_oom_bind)
qed (simp add: fails_only_oom_def)

text \<open>C23: What is written to a stream is read back: for every sequence of raw integers of one to eight bytes, unsigned
  integers and byte arrays, written in order behind what the stream holds already, reading the written bytes from there with
  the same kinds returns the same values and ends at the last byte, however often the buffer was
  reallocated. Bytes written before are kept. Writing fails only with out of memory, after a reallocation failed.\<close>

theorem stream_roundtrip:
  assumes "ws_inv st" "list_all valid_item items"
  shows "case write_all write_item st items of
      Inl e \<Rightarrow> e = OutOfMemory \<and> (\<exists>xs m n. ws_alloc st xs m n = None)
    | Inr st' \<Rightarrow> ws_inv st' \<and> take (bytes_written st) (ws_written st') = ws_written st
        \<and> read_all read_item (map shape_of items) (ws_written st') (bytes_written st) = Some (items, bytes_written st')"
proof (cases "write_all write_item st items")
  case (Inl e)
  then show ?thesis using write_all_oom [of st items] by (simp add: fails_only_oom_def alloc_fails_def)
next
  case (Inr st')
  have len: "length (ws_written s) = bytes_written s" if "ws_inv s" for s
    using that by (auto simp: ws_inv_def ws_written_def bytes_written_def)
  from ds.write_all_roundtrip [OF assms Inr] obtain bs where bs: "ws_inv st'" "ws_written st' = ws_written st @ bs"
      "\<And>pre post. read_all read_item (map shape_of items) (pre @ bs @ post) (length pre) = Some (items, length pre + length bs)"
    by blast
  then show ?thesis using Inr len [OF assms(1)] len [OF bs(1)] bs(3) [of "ws_written st" "[]"] by simp
qed

theorem stream_roundtrip_witness:
  "\<exists>st st'. WriteStream_new (\<lambda>xs m n. Some (xs @ replicate (n - m) 0)) 2 = Inr st
     \<and> write_all write_item st [Item64 (- 1000000), ItemUnsigned 300, ItemBytes [1, 2, 3], Item8 255] = Inr st'
     \<and> read_all read_item [Shape64, ShapeUnsigned, ShapeBytes 3, Shape8] (ws_written st') 0
        = Some ([Item64 (- 1000000), ItemUnsigned 300, ItemBytes [1, 2, 3], Item8 255], bytes_written st')"
proof -
  define alloc :: ReAlloc where "alloc = (\<lambda>xs m n. Some (xs @ replicate (n - m) 0))"
  define st where "st = \<lparr>ws_buffer = [0, 0], ws_current = 0, current_size = 2, ws_alloc = alloc, initial_size = 2\<rparr>"
  have new: "WriteStream_new alloc 2 = Inr st" by (simp add: WriteStream_new_def st_def alloc_def numeral_2_eq_2)
  have "realloc_ok alloc" by (simp add: realloc_ok_def alloc_def)
  then have "ws_inv st" by (auto simp: ws_inv_def st_def intro!: exI [of _ 1])
  from stream_roundtrip [OF this, of "[Item64 (- 1000000), ItemUnsigned 300, ItemBytes [1, 2, 3], Item8 255]"]
  show ?thesis using new unfolding alloc_def [symmetric]
    by (auto simp: st_def alloc_def bytes_written_def numeral_3_eq_3 split: sum.splits)
qed

end
