(* ===== verification/Unicode.thy ===== *)
theory Unicode
  imports Prelude Serializer
begin

text \<open>
  The Unicode encodings of \<^verbatim>\<open>vm/unicode.h\<close> and \<^verbatim>\<open>vm/unicode.cc\<close>, and the iterator over the code points of a string
  of \<^verbatim>\<open>vm/object.cc\<close>. Code points are integers of type \<open>int32_t\<close>, UTF-8 arrays are lists of bytes and
  the strings of the virtual machine are lists of UTF-16 code units. A decoder that would write behind the end of
  its output buffer has the result \<open>None\<close>.
\<close>

section \<open>Code points\<close>

abbreviation (input) kMaxCodePoint :: int where "kMaxCodePoint \<equiv> 0x10FFFF"

definition IsLatin1 :: "int \<Rightarrow> bool" where
  "IsLatin1 code_point \<longleftrightarrow> code_point \<ge> 0 \<and> code_point \<le> 0xFF"

definition IsBmp :: "int \<Rightarrow> bool" where
  "IsBmp code_point \<longleftrightarrow> code_point \<ge> 0 \<and> code_point \<le> 0xFFFF"

definition IsSupplementary :: "int \<Rightarrow> bool" where
  "IsSupplementary code_point \<longleftrightarrow> code_point > 0xFFFF \<and> code_point \<le> kMaxCodePoint"

definition IsOutOfRange :: "int \<Rightarrow> bool" where
  "IsOutOfRange code_point \<longleftrightarrow> code_point < 0 \<or> code_point > kMaxCodePoint"

section \<open>UTF-16\<close>

abbreviation (input) kMaxCodeUnit :: int where "kMaxCodeUnit \<equiv> 0xFFFF"
abbreviation (input) kLeadSurrogateOffset :: int where "kLeadSurrogateOffset \<equiv> 0xD800 - drop_bit 10 0x10000"

definition Utf16_Length :: "int \<Rightarrow> int" where
  "Utf16_Length ch = (if ch \<le> kMaxCodeUnit then 1 else 2)"

definition IsSurrogate :: "int \<Rightarrow> bool" where
  "IsSurrogate ch \<longleftrightarrow> ch AND 0xFFFFF800 = 0xD800"

definition IsLeadSurrogate :: "int \<Rightarrow> bool" where
  "IsLeadSurrogate ch \<longleftrightarrow> ch AND 0xFFFFFC00 = 0xD800"

definition IsTrailSurrogate :: "int \<Rightarrow> bool" where
  "IsTrailSurrogate ch \<longleftrightarrow> ch AND 0xFFFFFC00 = 0xDC00"

definition Utf16_Decode :: "int \<Rightarrow> int \<Rightarrow> int" where
  "Utf16_Decode lead trail = 0x10000 + push_bit 10 (lead AND 0x3FF) + (trail AND 0x3FF)"

definition Utf16_Encode :: "int \<Rightarrow> u16 list" where
  "Utf16_Encode codepoint =
     [word_of_int (kLeadSurrogateOffset + drop_bit 10 codepoint), word_of_int (0xDC00 + (codepoint AND 0x3FF))]"

definition Utf16_Next :: "u16 list \<Rightarrow> nat \<Rightarrow> int \<times> nat" where
  "Utf16_Next characters i =
     (let ch = uint (characters ! i)
      in if IsLeadSurrogate ch \<and> int i < int (length characters) - 1 \<and> IsTrailSurrogate (uint (characters ! (i + 1)))
         then (Utf16_Decode ch (uint (characters ! (i + 1))), i + 1 + 1)
         else (ch, i + 1))"

text \<open>The iterator over the code points of a string.\<close>

record CodePointIterator =
  it_str :: "u16 list"
  it_ch :: int
  it_index :: int
  it_end :: int

definition CodePointIterator_new :: "u16 list \<Rightarrow> CodePointIterator" where
  "CodePointIterator_new str = \<lparr>it_str = str, it_ch = 0, it_index = - 1, it_end = int (length str)\<rparr>"

definition CharAt :: "u16 list \<Rightarrow> int \<Rightarrow> int" where
  "CharAt str i = uint (str ! nat i)"

definition it_Next :: "CodePointIterator \<Rightarrow> bool \<times> CodePointIterator" where
  "it_Next it =
     (let len = Utf16_Length (it_ch it)
      in if it_index it < it_end it - len then
           let index = it_index it + len;
               ch = CharAt (it_str it) index;
               ch2 = CharAt (it_str it) (index + 1);
               ch = (if IsLeadSurrogate ch \<and> index < it_end it - 1 \<and> IsTrailSurrogate ch2 then Utf16_Decode ch ch2 else ch)
           in (True, it\<lparr>it_index := index, it_ch := ch\<rparr>)
         else (False, it\<lparr>it_index := it_end it\<rparr>))"

lemma it_Next_measure: "it_Next it = (True, it') \<Longrightarrow> it_end it' = it_end it \<and> it_index it < it_index it' \<and> it_index it' < it_end it"
  by (auto simp: it_Next_def Let_def Utf16_Length_def split: if_splits)

section \<open>UTF-8\<close>

datatype Utf8_Type = kLatin1 | kBMP | kSupplementary

abbreviation (input) kMaxOneByteChar :: int where "kMaxOneByteChar \<equiv> 0x7F"
abbreviation (input) kMaxTwoByteChar :: int where "kMaxTwoByteChar \<equiv> 0x7FF"
abbreviation (input) kMaxThreeByteChar :: int where "kMaxThreeByteChar \<equiv> 0xFFFF"

definition kTrailBytes :: "nat list" where
  "kTrailBytes = replicate 128 1 @ replicate 64 0 @ replicate 32 2 @ replicate 16 3 @ replicate 8 4 @ [5, 5, 5, 5, 6, 6, 0, 0]"

definition kMagicBits :: "u32 list" where
  "kMagicBits = [0, 0x00000000, 0x00003080, 0x000E2080, 0x03C82080, 0xFA082080, 0x82082080]"

definition kOverlongMinimum :: "u32 list" where
  "kOverlongMinimum = [0, 0x0, 0x80, 0x800, 0x10000, 0xFFFFFFFF, 0xFFFFFFFF]"

definition IsTrailByte :: "u8 \<Rightarrow> bool" where
  "IsTrailByte code_unit \<longleftrightarrow> code_unit AND 0xC0 = 0x80"

definition IsNonShortestForm :: "u32 \<Rightarrow> nat \<Rightarrow> bool" where
  "IsNonShortestForm code_point num_code_units \<longleftrightarrow> code_point < kOverlongMinimum ! num_code_units"

definition IsLatin1SequenceStart :: "u8 \<Rightarrow> bool" where
  "IsLatin1SequenceStart code_unit \<longleftrightarrow> code_unit \<le> 0xC3"

definition IsSupplementarySequenceStart :: "u8 \<Rightarrow> bool" where
  "IsSupplementarySequenceStart code_unit \<longleftrightarrow> code_unit \<ge> 0xF0"

fun CodeUnitCount_loop :: "u8 list \<Rightarrow> nat \<Rightarrow> Utf8_Type \<Rightarrow> nat \<times> Utf8_Type" where
  "CodeUnitCount_loop [] len char_type = (len, char_type)"
| "CodeUnitCount_loop (code_unit # a) len char_type =
     (if \<not> IsTrailByte code_unit then
        if \<not> IsLatin1SequenceStart code_unit then
          if IsSupplementarySequenceStart code_unit then CodeUnitCount_loop a (len + 1 + 1) kSupplementary
          else CodeUnitCount_loop a (len + 1) (if char_type = kLatin1 then kBMP else char_type)
        else CodeUnitCount_loop a (len + 1) char_type
      else CodeUnitCount_loop a len char_type)"

definition CodeUnitCount :: "u8 list \<Rightarrow> nat \<times> Utf8_Type" where
  "CodeUnitCount utf8_array = CodeUnitCount_loop utf8_array 0 kLatin1"

text \<open>The loop over the trail bytes of a sequence that starts at \<open>i\<close>; \<open>None\<close> when the array ends before the
  sequence does.\<close>

function trail_loop :: "u8 list \<Rightarrow> nat \<Rightarrow> nat \<Rightarrow> nat \<Rightarrow> u32 \<Rightarrow> bool \<Rightarrow> (nat \<times> u32 \<times> bool) option" where
  "trail_loop utf8_array i num_trail_bytes j ch is_malformed =
     (if j < num_trail_bytes then
        if i + j < length utf8_array then
          let code_unit = utf8_array ! (i + j)
          in trail_loop utf8_array i num_trail_bytes (j + 1) (push_bit 6 ch + ucast code_unit)
               (is_malformed \<or> \<not> IsTrailByte code_unit)
        else None
      else Some (j, ch, is_malformed))"
  by pat_completeness auto
termination by (relation "measure (\<lambda>(_, _, n, j, _, _). n - j)") auto

declare trail_loop.simps [simp del]

lemma trail_loop_ge: "trail_loop a i n j ch m = Some (j', r) \<Longrightarrow> j \<le> j'"
proof (induction a i n j ch m rule: trail_loop.induct)
  case (1 a i n j ch m)
  then show ?case using trail_loop.simps [of a i n j ch m] by (fastforce simp: Let_def split: if_splits)
qed

text \<open>The tests on a decoded sequence, which \<open>IsValid\<close> and \<open>Decode\<close> share.\<close>

definition accepted :: "nat \<Rightarrow> nat \<Rightarrow> u32 \<Rightarrow> bool \<Rightarrow> bool" where
  "accepted num_trail_bytes j ch is_malformed \<longleftrightarrow>
     is_malformed = False \<and> j = num_trail_bytes \<and> \<not> IsOutOfRange (uint ch) \<and> \<not> IsNonShortestForm ch j \<and> \<not> IsSurrogate (sint ch)"

function IsValid_loop :: "u8 list \<Rightarrow> nat \<Rightarrow> bool" where
  "IsValid_loop utf8_array i =
     (if i < length utf8_array then
        let ch = ucast (utf8_array ! i) AND 0xFF :: u32
        in if ch \<ge> 0x80 then
             let num_trail_bytes = kTrailBytes ! unat ch
             in case trail_loop utf8_array i num_trail_bytes 1 ch False of
                  None \<Rightarrow> False
                | Some (j, ch, is_malformed) \<Rightarrow>
                    if accepted num_trail_bytes j (ch - kMagicBits ! num_trail_bytes) is_malformed
                    then IsValid_loop utf8_array (i + j) else False
           else IsValid_loop utf8_array (i + 1)
      else True)"
  by pat_completeness auto
termination by (relation "measure (\<lambda>(a, i). length a - i)") (auto dest!: trail_loop_ge)

declare IsValid_loop.simps [simp del]

definition IsValid :: "u8 list \<Rightarrow> bool" where
  "IsValid utf8_array = IsValid_loop utf8_array 0"

definition Utf8_Length :: "int \<Rightarrow> nat" where
  "Utf8_Length ch = (if ch \<le> kMaxOneByteChar then 1 else if ch \<le> kMaxTwoByteChar then 2 else if ch \<le> kMaxThreeByteChar then 3 else 4)"

function Utf8_Length_loop :: "CodePointIterator \<Rightarrow> nat \<Rightarrow> nat" where
  "Utf8_Length_loop it len =
     (case it_Next it of
        (True, it') \<Rightarrow> Utf8_Length_loop it' (len + Utf8_Length (it_ch it'))
      | (False, _) \<Rightarrow> len)"
  by pat_completeness auto
termination
  by (relation "measure (\<lambda>(it, _). nat (it_end it - it_index it))") (auto dest!: sym [THEN it_Next_measure])

declare Utf8_Length_loop.simps [simp del]

definition Utf8_Length_String :: "u16 list \<Rightarrow> nat" where
  "Utf8_Length_String str = Utf8_Length_loop (CodePointIterator_new str) 0"

definition Utf8_Encode :: "int \<Rightarrow> u8 list" where
  "Utf8_Encode ch =
     (let kMask = NOT (push_bit 6 1) :: int
      in if ch \<le> kMaxOneByteChar then [word_of_int ch]
         else if ch \<le> kMaxTwoByteChar then
           [word_of_int (0xC0 OR drop_bit 6 ch), word_of_int (0x80 OR (ch AND kMask))]
         else if ch \<le> kMaxThreeByteChar then
           [word_of_int (0xE0 OR drop_bit 12 ch), word_of_int (0x80 OR (drop_bit 6 ch AND kMask)),
            word_of_int (0x80 OR (ch AND kMask))]
         else
           [word_of_int (0xF0 OR drop_bit 18 ch), word_of_int (0x80 OR (drop_bit 12 ch AND kMask)),
            word_of_int (0x80 OR (drop_bit 6 ch AND kMask)), word_of_int (0x80 OR (ch AND kMask))])"

text \<open>Encoding a string into a buffer of \<open>len\<close> bytes: the bytes written, whose number is the position returned.\<close>

function Utf8_Encode_loop :: "CodePointIterator \<Rightarrow> nat \<Rightarrow> u8 list \<Rightarrow> u8 list" where
  "Utf8_Encode_loop it len dst =
     (case it_Next it of
        (True, it') \<Rightarrow>
          (let num_bytes = Utf8_Length (it_ch it')
           in if length dst + num_bytes > len then dst
              else Utf8_Encode_loop it' len (dst @ Utf8_Encode (it_ch it')))
      | (False, _) \<Rightarrow> dst)"
  by pat_completeness auto
termination
  by (relation "measure (\<lambda>(it, _, _). nat (it_end it - it_index it))") (auto dest!: sym [THEN it_Next_measure])

declare Utf8_Encode_loop.simps [simp del]

definition Utf8_Encode_String :: "u16 list \<Rightarrow> nat \<Rightarrow> u8 list" where
  "Utf8_Encode_String src len = Utf8_Encode_loop (CodePointIterator_new src) len []"

text \<open>The code point and the number of bytes of the sequence at the start of the array, \<open>- 1\<close> and 0 if there is none.\<close>

definition Utf8_Decode :: "u8 list \<Rightarrow> int \<times> nat" where
  "Utf8_Decode utf8_array =
     (let ch = ucast (utf8_array ! 0) AND 0xFF :: u32
      in if ch \<ge> 0x80 then
           let num_trail_bytes = kTrailBytes ! unat ch
           in case trail_loop utf8_array 0 num_trail_bytes 1 ch False of
                None \<Rightarrow> (- 1, 0)
              | Some (i, ch, is_malformed) \<Rightarrow>
                  let ch = ch - kMagicBits ! num_trail_bytes
                  in if \<not> accepted num_trail_bytes i ch is_malformed then (- 1, 0) else (sint ch, i)
         else (sint ch, 1))"

lemma Utf8_Decode_pos: "Utf8_Decode a = (ch, n) \<Longrightarrow> ch \<noteq> - 1 \<Longrightarrow> 0 < n"
  by (auto simp: Utf8_Decode_def Let_def split: if_splits option.splits dest!: trail_loop_ge)

text \<open>The decoders of whole arrays, for an output buffer \<open>dst\<close> of the given length.\<close>

definition put :: "'a list \<Rightarrow> nat \<Rightarrow> 'a \<Rightarrow> 'a list option" where
  "put dst j v = (if j < length dst then Some (dst[j := v]) else None)"

function DecodeToLatin1_loop :: "u8 list \<Rightarrow> u8 list \<Rightarrow> nat \<Rightarrow> nat \<Rightarrow> (bool \<times> u8 list) option" where
  "DecodeToLatin1_loop utf8_array dst i j =
     (if i < length utf8_array \<and> j < length dst then
        case Utf8_Decode (drop i utf8_array) of (ch, num_bytes) \<Rightarrow>
          if ch = - 1 then Some (False, dst)
          else (case put dst j (word_of_int ch) of
                  None \<Rightarrow> None
                | Some dst \<Rightarrow> DecodeToLatin1_loop utf8_array dst (i + num_bytes) (j + 1))
      else if i < length utf8_array \<and> j = length dst then Some (False, dst)
      else Some (True, dst))"
  by pat_completeness auto
termination
  by (relation "measure (\<lambda>(a, _, i, _). length a - i)") (auto dest!: sym [THEN Utf8_Decode_pos])

definition DecodeToLatin1 :: "u8 list \<Rightarrow> u8 list \<Rightarrow> (bool \<times> u8 list) option" where
  "DecodeToLatin1 utf8_array dst = DecodeToLatin1_loop utf8_array dst 0 0"

function DecodeToUTF16_loop :: "u8 list \<Rightarrow> u16 list \<Rightarrow> nat \<Rightarrow> nat \<Rightarrow> (bool \<times> u16 list) option" where
  "DecodeToUTF16_loop utf8_array dst i j =
     (if i < length utf8_array \<and> j < length dst then
        let is_supplementary = IsSupplementarySequenceStart (utf8_array ! i)
        in case Utf8_Decode (drop i utf8_array) of (ch, num_bytes) \<Rightarrow>
          if ch = - 1 then Some (False, dst)
          else if is_supplementary then
            (case put dst j (Utf16_Encode ch ! 0) of
               None \<Rightarrow> None
             | Some dst \<Rightarrow>
                 (case put dst (j + 1) (Utf16_Encode ch ! 1) of
                    None \<Rightarrow> None
                  | Some dst \<Rightarrow> DecodeToUTF16_loop utf8_array dst (i + num_bytes) (j + 1 + 1)))
          else (case put dst j (word_of_int ch) of
                  None \<Rightarrow> None
                | Some dst \<Rightarrow> DecodeToUTF16_loop utf8_array dst (i + num_bytes) (j + 1))
      else if i < length utf8_array \<and> j = length dst then Some (False, dst)
      else Some (True, dst))"
  by pat_completeness auto
termination
  by (relation "measure (\<lambda>(a, _, i, _). length a - i)") (auto dest!: sym [THEN Utf8_Decode_pos])

definition DecodeToUTF16 :: "u8 list \<Rightarrow> u16 list \<Rightarrow> (bool \<times> u16 list) option" where
  "DecodeToUTF16 utf8_array dst = DecodeToUTF16_loop utf8_array dst 0 0"

function DecodeToUTF32_loop :: "u8 list \<Rightarrow> int list \<Rightarrow> nat \<Rightarrow> nat \<Rightarrow> (bool \<times> int list) option" where
  "DecodeToUTF32_loop utf8_array dst i j =
     (if i < length utf8_array \<and> j < length dst then
        case Utf8_Decode (drop i utf8_array) of (ch, num_bytes) \<Rightarrow>
          if ch = - 1 then Some (False, dst)
          else (case put dst j ch of
                  None \<Rightarrow> None
                | Some dst \<Rightarrow> DecodeToUTF32_loop utf8_array dst (i + num_bytes) (j + 1))
      else if i < length utf8_array \<and> j = length dst then Some (False, dst)
      else Some (True, dst))"
  by pat_completeness auto
termination
  by (relation "measure (\<lambda>(a, _, i, _). length a - i)") (auto dest!: sym [THEN Utf8_Decode_pos])

definition DecodeToUTF32 :: "u8 list \<Rightarrow> int list \<Rightarrow> (bool \<times> int list) option" where
  "DecodeToUTF32 utf8_array dst = DecodeToUTF32_loop utf8_array dst 0 0"

definition DecodeCStringToUTF32 :: "u8 list \<Rightarrow> int list \<Rightarrow> (bool \<times> int list) option" where
  "DecodeCStringToUTF32 str dst = DecodeToUTF32 (takeWhile (\<lambda>c. c \<noteq> 0) str) dst"

declare DecodeToLatin1_loop.simps [simp del] DecodeToUTF16_loop.simps [simp del] DecodeToUTF32_loop.simps [simp del]

end
