(* ===== verification/Utf8_Bytes.thy ===== *)
theory Utf8_Bytes
  imports Unicode
begin

text \<open>
  The bit operations of the UTF-8 encoder and decoder as arithmetic on the values of the bytes.
\<close>

section \<open>A code point as bytes\<close>

definition scalar :: "int \<Rightarrow> bool" where
  "scalar ch \<longleftrightarrow> 0 \<le> ch \<and> ch \<le> 0x10FFFF \<and> \<not> (0xD800 \<le> ch \<and> ch \<le> 0xDFFF)"

text \<open>The bit tests as ranges.\<close>

lemma and_high_bits:
  assumes "0 \<le> ch" "ch < 2 ^ (k + n)"
  shows "ch AND push_bit k (mask n) = ch div 2 ^ k * (2 ^ k :: int)"
proof -
  have less: "ch div 2 ^ k < 2 ^ n"
  proof (rule ccontr)
    assume "\<not> ch div 2 ^ k < 2 ^ n"
    then have "2 ^ n * 2 ^ k \<le> ch div 2 ^ k * 2 ^ k" by (intro mult_right_mono) auto
    also have "\<dots> \<le> ch" using div_mult_mod_eq [of ch "2 ^ k"] pos_mod_sign [of "2 ^ k" ch, OF zero_less_power [OF zero_less_numeral]] by linarith
    finally show False using assms(2) by (simp add: power_add mult.commute)
  qed
  have "ch AND push_bit k (mask n) = push_bit k (take_bit n (drop_bit k ch))"
    by (rule bit_eqI) (auto simp: bit_simps)
  also have "take_bit n (drop_bit k ch) = drop_bit k ch"
    using assms less by (simp add: take_bit_int_eq_self_iff drop_bit_eq_div pos_imp_zdiv_nonneg_iff)
  finally show ?thesis by (simp add: push_bit_eq_mult drop_bit_eq_div)
qed

lemma surrogate_masks: "(0xFFFFF800 :: int) = push_bit 11 (mask 21)" "(0xFFFFFC00 :: int) = push_bit 10 (mask 22)"
  by (simp_all add: mask_eq_exp_minus_1 push_bit_eq_mult)

lemma div_block:
  fixes x :: int
  assumes "0 < d"
  shows "x div d * d = q * d \<longleftrightarrow> q * d \<le> x \<and> x < q * d + d"
proof
  assume "x div d * d = q * d"
  then show "q * d \<le> x \<and> x < q * d + d"
    using div_mult_mod_eq [of x d] pos_mod_sign [OF assms, of x] pos_mod_bound [OF assms, of x] by linarith
next
  assume "q * d \<le> x \<and> x < q * d + d"
  then have "x div d = q" by (intro int_div_pos_eq [where r = "x - d * q"]) (auto simp: mult.commute)
  then show "x div d * d = q * d" by simp
qed

lemma surrogate_ranges:
  assumes "0 \<le> ch" "ch < 2 ^ 32"
  shows "IsSurrogate ch \<longleftrightarrow> 0xD800 \<le> ch \<and> ch \<le> 0xDFFF"
    and "IsLeadSurrogate ch \<longleftrightarrow> 0xD800 \<le> ch \<and> ch \<le> 0xDBFF"
    and "IsTrailSurrogate ch \<longleftrightarrow> 0xDC00 \<le> ch \<and> ch \<le> 0xDFFF"
proof -
  have "ch AND 0xFFFFF800 = ch div 2048 * 2048" "ch AND 0xFFFFFC00 = ch div 1024 * 1024"
    unfolding surrogate_masks using and_high_bits [of ch 11 21] and_high_bits [of ch 10 22] assms by simp_all
  then show "IsSurrogate ch \<longleftrightarrow> 0xD800 \<le> ch \<and> ch \<le> 0xDFFF" "IsLeadSurrogate ch \<longleftrightarrow> 0xD800 \<le> ch \<and> ch \<le> 0xDBFF"
    "IsTrailSurrogate ch \<longleftrightarrow> 0xDC00 \<le> ch \<and> ch \<le> 0xDFFF"
    unfolding IsSurrogate_def IsLeadSurrogate_def IsTrailSurrogate_def
    using div_block [of 2048 ch 27] div_block [of 1024 ch 54] div_block [of 1024 ch 55] by auto
qed

lemma IsTrailByte_iff: "IsTrailByte b \<longleftrightarrow> 128 \<le> uint b \<and> uint b < 192"
proof -
  have m: "(0xC0 :: int) = push_bit 6 (mask 2)" by (simp add: mask_eq_exp_minus_1 push_bit_eq_mult)
  have "uint (b AND 0xC0) = uint b div 64 * 64"
    using and_high_bits [of "uint b" 6 2] uint_lt2p [of b] unfolding m [symmetric] by (simp add: unsigned_and_eq)
  moreover have "b AND 0xC0 = 0x80 \<longleftrightarrow> uint (b AND 0xC0) = uint (0x80 :: u8)" by (rule word_uint_eq_iff)
  ultimately have "IsTrailByte b \<longleftrightarrow> uint b div 64 * 64 = 128" by (simp add: IsTrailByte_def)
  then show ?thesis using div_block [of 64 "uint b" 2] by auto
qed

lemma kTrailBytes_nth:
  assumes "n < 256"
  shows "kTrailBytes ! n = (if n < 128 then 1 else if n < 192 then 0 else if n < 224 then 2 else if n < 240 then 3
     else if n < 248 then 4 else if n < 252 then 5 else if n < 254 then 6 else 0)"
proof -
  have "list_all (\<lambda>n. kTrailBytes ! n = (if n < 128 then 1 else if n < 192 then 0 else if n < 224 then 2 else if n < 240 then 3
     else if n < 248 then 4 else if n < 252 then 5 else if n < 254 then 6 else 0)) [0..<256]" by code_simp
  then show ?thesis using assms unfolding list_all_iff by (intro bspec [of _ _ n]) auto
qed

lemma or_disjoint:
  assumes "0 \<le> y" "y < 2 ^ k" "2 ^ k dvd x"
  shows "x OR y = x + (y :: int)"
proof -
  have "take_bit k x = 0" "take_bit k y = y" using assms by (simp_all add: take_bit_int_eq_self_iff take_bit_eq_0_iff)
  then have "x AND y = 0" by (metis and.right_neutral bit.conj_zero_left take_bit_and take_bit_eq_mask and.assoc and.commute)
  then show ?thesis by (simp add: disjunctive_add_eq_or)
qed

lemma trail_byte: "(word_of_int (0x80 OR (x AND NOT (push_bit 6 1))) :: u8) = word_of_int (128 + x mod 64)"
proof (rule bit_word_eqI)
  fix n assume "n < LENGTH(8)"
  have e: "128 + x mod 64 = 128 OR take_bit 6 x"
    using or_disjoint [of "take_bit 6 x" 6 128] by (simp add: take_bit_eq_mod)
  have b: "bit (128 :: int) n \<longleftrightarrow> n = 7" using bit_exp_iff [of 7 n, where 'a = int] by auto
  have c: "bit (64 :: int) n \<longleftrightarrow> n = 6" using bit_exp_iff [of 6 n, where 'a = int] by auto
  show "bit (word_of_int (0x80 OR (x AND NOT (push_bit 6 1))) :: u8) n \<longleftrightarrow> bit (word_of_int (128 + x mod 64) :: u8) n"
    unfolding e using \<open>n < LENGTH(8)\<close> b c by (auto simp: bit_simps)
qed

lemma uint_u8: "0 \<le> x \<Longrightarrow> x < 256 \<Longrightarrow> uint (word_of_int x :: u8) = x"
  by (simp add: uint_word_of_int)

lemma lead_byte:
  assumes "0 \<le> y" "y < 2 ^ k" "2 ^ k dvd m" "m + 2 ^ k \<le> 256" "0 \<le> m"
  shows "uint (word_of_int (m OR y) :: u8) = m + y"
  unfolding or_disjoint [OF assms(1-3)] using assms by (intro uint_u8) auto

text \<open>The bytes of a code point as numbers.\<close>

lemma Utf8_Encode_values:
  assumes "0 \<le> ch" "ch \<le> 0x10FFFF"
  shows "map uint (Utf8_Encode ch) =
    (if ch \<le> 0x7F then [ch]
     else if ch \<le> 0x7FF then [0xC0 + ch div 64, 0x80 + ch mod 64]
     else if ch \<le> 0xFFFF then [0xE0 + ch div 4096, 0x80 + ch div 64 mod 64, 0x80 + ch mod 64]
     else [0xF0 + ch div 262144, 0x80 + ch div 4096 mod 64, 0x80 + ch div 64 mod 64, 0x80 + ch mod 64])"
proof -
  have trail: "uint (word_of_int (0x80 OR (x AND NOT (push_bit 6 1))) :: u8) = 0x80 + x mod 64" for x
    unfolding trail_byte using pos_mod_bound [of 64 x] pos_mod_sign [of 64 x] by (intro uint_u8) auto
  consider (1) "ch \<le> 0x7F" | (2) "0x7F < ch" "ch \<le> 0x7FF" | (3) "0x7FF < ch" "ch \<le> 0xFFFF" | (4) "0xFFFF < ch"
    by linarith
  then show ?thesis
  proof cases
    case 1
    then show ?thesis using assms by (simp add: Utf8_Encode_def Let_def uint_word_of_int)
  next
    case 2
    then have "uint (word_of_int (0xC0 OR drop_bit 6 ch) :: u8) = 0xC0 + ch div 64"
      using lead_byte [of "ch div 64" 5 "0xC0"] by (simp add: drop_bit_eq_div)
    then show ?thesis using 2 trail [of ch] by (simp add: Utf8_Encode_def Let_def)
  next
    case 3
    then have "uint (word_of_int (0xE0 OR drop_bit 12 ch) :: u8) = 0xE0 + ch div 4096"
      using lead_byte [of "ch div 4096" 4 "0xE0"] by (simp add: drop_bit_eq_div)
    then show ?thesis using 3 trail [of ch] trail [of "drop_bit 6 ch"]
      by (simp add: Utf8_Encode_def Let_def drop_bit_eq_div)
  next
    case 4
    then have "uint (word_of_int (0xF0 OR drop_bit 18 ch) :: u8) = 0xF0 + ch div 262144"
      using lead_byte [of "ch div 262144" 3 "0xF0"] assms(2) by (simp add: drop_bit_eq_div)
    then show ?thesis using 4 trail [of ch] trail [of "drop_bit 6 ch"] trail [of "drop_bit 12 ch"]
      by (simp add: Utf8_Encode_def Let_def drop_bit_eq_div)
  qed
qed

lemma u32_values:
  assumes "0 \<le> y" "y < 2 ^ 31"
  shows "uint (word_of_int y :: u32) = y" "sint (word_of_int y :: u32) = y"
proof -
  show "uint (word_of_int y :: u32) = y" using assms by (simp add: uint_word_of_int)
  show "sint (word_of_int y :: u32) = y" unfolding sint_sbintrunc' by (rule signed_take_bit_int_eq_self) (use assms in simp_all)
qed

lemma accepted_iff:
  assumes "0 \<le> y" "y < 2 ^ 31" "(n, least) \<in> {(2, 0x80), (3, 0x800), (4, 0x10000)}"
  shows "accepted n n (word_of_int y) False \<longleftrightarrow> scalar y \<and> least \<le> y"
proof -
  have "uint (kOverlongMinimum ! n) = least" using assms(3) by (auto simp: kOverlongMinimum_def)
  then have "IsNonShortestForm (word_of_int y) n \<longleftrightarrow> y < least"
    using u32_values(1) [OF assms(1,2)] by (simp add: IsNonShortestForm_def word_less_def)
  moreover have "IsSurrogate y \<longleftrightarrow> 0xD800 \<le> y \<and> y \<le> 0xDFFF" using assms by (intro surrogate_ranges) auto
  ultimately show ?thesis using u32_values [OF assms(1,2)] assms(1)
    by (auto simp: accepted_def scalar_def IsOutOfRange_def)
qed

lemma accepted_long: "n \<in> {5, 6} \<Longrightarrow> \<not> accepted n j ch m" "\<not> accepted 0 1 ch m" "\<not> accepted n j ch True"
proof -
  show "\<not> accepted n j ch m" if "n \<in> {5, 6}"
  proof
    assume "accepted n j ch m"
    then have "uint ch \<le> 0x10FFFF" "\<not> ch < 0xFFFFFFFF"
      using that by (auto simp: accepted_def IsOutOfRange_def IsNonShortestForm_def kOverlongMinimum_def)
    then show False by (simp add: word_less_def)
  qed
qed (simp_all add: accepted_def)

lemma trail_loop_stop: "\<not> j < n \<Longrightarrow> trail_loop a i n j ch m = Some (j, ch, m)"
  by (simp add: trail_loop.simps)

lemma trail_loop_step: "j < n \<Longrightarrow> trail_loop a i n j ch m =
   (if i + j < length a then trail_loop a i n (j + 1) (push_bit 6 ch + ucast (a ! (i + j))) (m \<or> \<not> IsTrailByte (a ! (i + j))) else None)"
  by (subst trail_loop.simps) (simp add: Let_def)

lemma next_value: "(push_bit 6 (word_of_int x) + ucast (b :: u8) :: u32) = word_of_int (x * 64 + uint b)"
  by (simp add: push_bit_eq_mult)

lemma first_value: "(ucast (b :: u8) AND 0xFF :: u32) = word_of_int (uint b)"
proof -
  have m: "(0xFF :: u32) = mask 8" by (simp add: mask_eq_exp_minus_1)
  have "(ucast b AND mask 8 :: u32) = ucast b"
    by (rule bit_word_eqI) (auto simp: bit_simps dest: bit_imp_le_length)
  then show ?thesis unfolding m by simp
qed

definition sequence :: "u8 list \<Rightarrow> nat \<Rightarrow> int \<Rightarrow> int \<Rightarrow> int \<times> nat" where
  "sequence a n y least =
     (if n \<le> length a \<and> (\<forall>k \<in> {1..<n}. IsTrailByte (a ! k)) \<and> scalar y \<and> least \<le> y then (y, n) else (- 1, 0))"

lemma trail_loops:
  "trail_loop a 0 2 1 (word_of_int x) False =
    (if 2 \<le> length a then Some (2, word_of_int (x * 64 + uint (a ! 1)), \<not> (\<forall>k \<in> {1..<2}. IsTrailByte (a ! k))) else None)"
  "trail_loop a 0 3 1 (word_of_int x) False =
    (if 3 \<le> length a then Some (3, word_of_int ((x * 64 + uint (a ! 1)) * 64 + uint (a ! 2)), \<not> (\<forall>k \<in> {1..<3}. IsTrailByte (a ! k)))
     else None)"
  "trail_loop a 0 4 1 (word_of_int x) False =
    (if 4 \<le> length a then Some (4, word_of_int (((x * 64 + uint (a ! 1)) * 64 + uint (a ! 2)) * 64 + uint (a ! 3)),
       \<not> (\<forall>k \<in> {1..<4}. IsTrailByte (a ! k))) else None)"
proof -
  have sets: "{Suc 0..<2} = {Suc 0}" "{Suc 0..<3} = {Suc 0, 2}" "{Suc 0..<4} = {Suc 0, 2, 3}" by auto
  have less: "Suc 0 < length a \<longleftrightarrow> 2 \<le> length a" "2 < length a \<longleftrightarrow> 3 \<le> length a" "3 < length a \<longleftrightarrow> 4 \<le> length a" by auto
  note unroll = trail_loop_step trail_loop_stop push_bit_eq_mult algebra_simps sets less
  show "trail_loop a 0 2 1 (word_of_int x) False =
    (if 2 \<le> length a then Some (2, word_of_int (x * 64 + uint (a ! 1)), \<not> (\<forall>k \<in> {1..<2}. IsTrailByte (a ! k))) else None)"
    by (simp add: unroll)
  show "trail_loop a 0 3 1 (word_of_int x) False =
    (if 3 \<le> length a then Some (3, word_of_int ((x * 64 + uint (a ! 1)) * 64 + uint (a ! 2)), \<not> (\<forall>k \<in> {1..<3}. IsTrailByte (a ! k)))
     else None)" by (auto simp: unroll simp flip: numeral_2_eq_2)
  show "trail_loop a 0 4 1 (word_of_int x) False =
    (if 4 \<le> length a then Some (4, word_of_int (((x * 64 + uint (a ! 1)) * 64 + uint (a ! 2)) * 64 + uint (a ! 3)),
       \<not> (\<forall>k \<in> {1..<4}. IsTrailByte (a ! k))) else None)" by (auto simp: unroll simp flip: numeral_2_eq_2 numeral_3_eq_3)
qed

lemma sequence_decoded:
  assumes "(n, m, least) \<in> {(2, 0x3080, 0x80), (3, 0xE2080, 0x800), (4, 0x3C82080, 0x10000)}"
    and "trail_loop a 0 n 1 x False = (if n \<le> length a then Some (n, word_of_int z, \<not> (\<forall>k \<in> {1..<n}. IsTrailByte (a ! k))) else None)"
    and "\<forall>k \<in> {1..<n}. IsTrailByte (a ! k) \<Longrightarrow> 0 \<le> z - m \<and> z - m < 2 ^ 31"
  shows "(case trail_loop a 0 n 1 x False of
      None \<Rightarrow> (- 1, 0)
    | Some (i, ch, is_malformed) \<Rightarrow>
        let ch = ch - kMagicBits ! n in if \<not> accepted n i ch is_malformed then (- 1, 0) else (sint ch, i))
    = sequence a n (z - m) least"
proof (cases "n \<le> length a \<and> (\<forall>k \<in> {1..<n}. IsTrailByte (a ! k))")
  case True
  have "kMagicBits ! n = word_of_int m" using assms(1) by (auto simp: kMagicBits_def)
  then have w: "word_of_int z - kMagicBits ! n = word_of_int (z - m)" by simp
  have b: "0 \<le> z - m" "z - m < 2 ^ 31" using assms(3) True by blast+
  have "accepted n n (word_of_int (z - m)) False \<longleftrightarrow> scalar (z - m) \<and> least \<le> z - m"
    using assms(1) by (intro accepted_iff b) auto
  then show ?thesis
    unfolding assms(2) using True u32_values(2) [OF b] by (simp add: Let_def w sequence_def del: of_int_diff)
next
  case False
  then show ?thesis unfolding assms(2) by (auto simp: sequence_def Let_def accepted_long)
qed

lemma Utf8_Decode_values:
  assumes "a \<noteq> []"
  shows "Utf8_Decode a = (let b = (\<lambda>k. uint (a ! k)) in
    if b 0 < 0x80 then (b 0, 1)
    else if 0xC0 \<le> b 0 \<and> b 0 < 0xE0 then sequence a 2 (b 0 * 64 + b 1 - 0x3080) 0x80
    else if 0xE0 \<le> b 0 \<and> b 0 < 0xF0 then sequence a 3 ((b 0 * 64 + b 1) * 64 + b 2 - 0xE2080) 0x800
    else if 0xF0 \<le> b 0 \<and> b 0 < 0xF8 then sequence a 4 (((b 0 * 64 + b 1) * 64 + b 2) * 64 + b 3 - 0x3C82080) 0x10000
    else (- 1, 0))"
proof -
  let ?b = "\<lambda>k. uint (a ! k)"
  define x where "x = ?b 0"
  have x: "0 \<le> x" "x < 256" using uint_lt2p [of "a ! 0"] by (simp_all add: x_def)
  have ge: "(0x80 :: u32) \<le> word_of_int x \<longleftrightarrow> 0x80 \<le> x" using u32_values(1) [of x] x by (simp add: word_le_def)
  have idx: "unat (word_of_int x :: u32) = nat x" using u32_values(1) [of x] x by (simp add: unat_eq_nat_uint)
  have trails: "kTrailBytes ! nat x = (if x < 128 then 1 else if x < 192 then 0 else if x < 224 then 2 else if x < 240 then 3
      else if x < 248 then 4 else if x < 252 then 5 else if x < 254 then 6 else 0)"
    using kTrailBytes_nth [of "nat x"] x by auto
  note defs = Utf8_Decode_def first_value x_def [symmetric] Let_def [of "word_of_int x"] ge idx trails
  have t: "0x80 \<le> ?b k \<and> ?b k < 0xC0" if "\<forall>k \<in> {1..<n}. IsTrailByte (a ! k)" "k \<in> {1..<n}" for k n
    using that IsTrailByte_iff by blast
  consider (1) "x < 0x80" | (2) "0xC0 \<le> x" "x < 0xE0" | (3) "0xE0 \<le> x" "x < 0xF0" | (4) "0xF0 \<le> x" "x < 0xF8"
    | (bad) "0x80 \<le> x" "x < 0xC0 \<or> 0xF8 \<le> x" by linarith
  then show ?thesis
  proof cases
    case 1
    then show ?thesis unfolding defs using x u32_values(2) [of x] by (simp add: x_def [symmetric] Let_def)
  next
    case 2
    have r: "0 \<le> x * 64 + ?b 1 - 0x3080 \<and> x * 64 + ?b 1 - 0x3080 < 2 ^ 31" if "\<forall>k \<in> {1..<2}. IsTrailByte (a ! k)"
      using t [OF that, of 1] 2 by auto
    have "Utf8_Decode a = sequence a 2 (x * 64 + ?b 1 - 0x3080) 0x80"
      using 2 sequence_decoded [OF _ trail_loops(1) [of a x] r, of "0x80"] unfolding defs by simp
    then show ?thesis using 2 unfolding Let_def x_def [symmetric] by simp
  next
    case 3
    have r: "0 \<le> (x * 64 + ?b 1) * 64 + ?b 2 - 0xE2080 \<and> (x * 64 + ?b 1) * 64 + ?b 2 - 0xE2080 < 2 ^ 31" if "\<forall>k \<in> {1..<3}. IsTrailByte (a ! k)"
      using t [OF that, of 1] t [OF that, of 2] 3 by auto
    have "Utf8_Decode a = sequence a 3 ((x * 64 + ?b 1) * 64 + ?b 2 - 0xE2080) 0x800"
      using 3 sequence_decoded [OF _ trail_loops(2) [of a x] r, of "0x800"] unfolding defs by simp
    then show ?thesis using 3 unfolding Let_def x_def [symmetric] by simp
  next
    case 4
    have r: "0 \<le> ((x * 64 + ?b 1) * 64 + ?b 2) * 64 + ?b 3 - 0x3C82080 \<and> ((x * 64 + ?b 1) * 64 + ?b 2) * 64 + ?b 3 - 0x3C82080 < 2 ^ 31" if "\<forall>k \<in> {1..<4}. IsTrailByte (a ! k)"
      using t [OF that, of 1] t [OF that, of 2] t [OF that, of 3] 4 by auto
    have "Utf8_Decode a = sequence a 4 (((x * 64 + ?b 1) * 64 + ?b 2) * 64 + ?b 3 - 0x3C82080) 0x10000"
      using 4 sequence_decoded [OF _ trail_loops(3) [of a x] r, of "0x10000"] unfolding defs by simp
    then show ?thesis using 4 unfolding Let_def x_def [symmetric] by simp
  next
    case bad
    define n where "n = kTrailBytes ! nat x"
    have n: "n = 0 \<or> n \<in> {5, 6}" unfolding n_def trails using bad by auto
    have "\<not> accepted n i ch m" if "trail_loop a 0 n 1 (word_of_int x) False = Some (i, ch', m)" for i ch ch' m
      using n that accepted_long(1) [of n] accepted_long(2) trail_loop_stop [of 1 0] by auto
    then have "Utf8_Decode a = (- 1, 0)"
      using bad(1) unfolding Utf8_Decode_def first_value x_def [symmetric] Let_def ge idx n_def [symmetric]
      by (simp split: option.split)
    then show ?thesis using bad unfolding Let_def x_def [symmetric] by auto
  qed
qed

end
