(* ===== verification/Utf8_Correct.thy ===== *)
theory Utf8_Correct
  imports Utf8_Bytes
begin

text \<open>
  Correctness of UTF-8: a code point is encoded and decoded without loss, and exactly the shortest forms of scalar
  values are accepted, one by one and in whole arrays.
\<close>

section \<open>One code point\<close>

lemma digits64:
  fixes ch :: int
  shows "ch div 64 * 64 + ch mod 64 = ch" "ch div 4096 * 64 + ch div 64 mod 64 = ch div 64"
    "ch div 262144 * 64 + ch div 4096 mod 64 = ch div 4096"
  using div_mult_mod_eq [of ch 64] div_mult_mod_eq [of "ch div 64" 64] div_mult_mod_eq [of "ch div 4096" 64]
    zdiv_zmult2_eq [of 64 ch 64] zdiv_zmult2_eq [of 64 ch 4096] by simp_all

lemma div_4096: "(ch :: int) div 4096 = ch div 64 div 64"
  using zdiv_zmult2_eq [of 64 ch 64] by simp

lemma div_262144: "(ch :: int) div 262144 = ch div 4096 div 64"
  using zdiv_zmult2_eq [of 64 ch 4096] by simp

lemma digits64_unique:
  fixes q :: int
  assumes "0 \<le> r" "r < 64"
  shows "(q * 64 + r) div 64 = q" "(q * 64 + r) mod 64 = r"
  using assms by simp_all

lemma join_digits:
  fixes ch :: int
  shows "u0 = 0xC0 + q1 \<Longrightarrow> u1 = 0x80 + r0 \<Longrightarrow> q1 * 64 + r0 = ch \<Longrightarrow> u0 * 64 + u1 - 0x3080 = ch"
    and "u0 = 0xE0 + q2 \<Longrightarrow> u1 = 0x80 + r1 \<Longrightarrow> u2 = 0x80 + r0 \<Longrightarrow> q2 * 64 + r1 = q1 \<Longrightarrow> q1 * 64 + r0 = ch
      \<Longrightarrow> (u0 * 64 + u1) * 64 + u2 - 0xE2080 = ch"
    and "u0 = 0xF0 + q3 \<Longrightarrow> u1 = 0x80 + r2 \<Longrightarrow> u2 = 0x80 + r1 \<Longrightarrow> u3 = 0x80 + r0 \<Longrightarrow> q3 * 64 + r2 = q2 \<Longrightarrow> q2 * 64 + r1 = q1
      \<Longrightarrow> q1 * 64 + r0 = ch \<Longrightarrow> ((u0 * 64 + u1) * 64 + u2) * 64 + u3 - 0x3C82080 = ch"
  by (auto simp: algebra_simps)

lemma trail_value: "uint w = 0x80 + x mod 64 \<Longrightarrow> IsTrailByte w"
  using pos_mod_sign [of 64 x] pos_mod_bound [of 64 x] by (simp add: IsTrailByte_iff)

lemma index_sets: "{1..<2} = {1 :: nat}" "{1..<3} = {1 :: nat, 2}" "{1..<4} = {1 :: nat, 2, 3}"
  by auto

lemma sequence_Cons:
  "sequence (w0 # w1 # rest) 2 y least = (if IsTrailByte w1 \<and> scalar y \<and> least \<le> y then (y, 2) else (- 1, 0))"
  "sequence (w0 # w1 # w2 # rest) 3 y least =
     (if IsTrailByte w1 \<and> IsTrailByte w2 \<and> scalar y \<and> least \<le> y then (y, 3) else (- 1, 0))"
  "sequence (w0 # w1 # w2 # w3 # rest) 4 y least =
     (if IsTrailByte w1 \<and> IsTrailByte w2 \<and> IsTrailByte w3 \<and> scalar y \<and> least \<le> y then (y, 4) else (- 1, 0))"
  unfolding sequence_def index_sets by simp_all

lemma Utf8_Decode_Encode:
  assumes "scalar ch"
  shows "Utf8_Decode (Utf8_Encode ch @ rest) = (ch, length (Utf8_Encode ch))"
proof -
  have r: "0 \<le> ch" "ch \<le> 0x10FFFF" using assms by (auto simp: scalar_def)
  note vals = Utf8_Encode_values [OF r]
  consider (1) "ch \<le> 0x7F" | (2) "0x7F < ch" "ch \<le> 0x7FF" | (3) "0x7FF < ch" "ch \<le> 0xFFFF" | (4) "0xFFFF < ch"
    by linarith
  then show ?thesis
  proof cases
    case 1
    then obtain w where "Utf8_Encode ch = [w]" "uint w = ch" using vals by (auto simp: map_eq_Cons_conv)
    then show ?thesis using 1 r by (simp add: Utf8_Decode_values)
  next
    case 2
    then obtain w0 w1 where w: "Utf8_Encode ch = [w0, w1]" "uint w0 = 0xC0 + ch div 64" "uint w1 = 0x80 + ch mod 64"
      using vals by (auto simp: map_eq_Cons_conv)
    have "IsTrailByte w1" by (rule trail_value [OF w(3)])
    moreover have "0xC0 \<le> uint w0" "uint w0 < 0xE0" using w(2) 2 by auto
    moreover have "uint w0 * 64 + uint w1 - 0x3080 = ch" by (rule join_digits(1) [OF w(2,3) digits64(1)])
    ultimately show ?thesis using 2 assms
      by (simp add: w(1) Utf8_Decode_values Let_def sequence_Cons)
  next
    case 3
    then obtain w0 w1 w2 where w: "Utf8_Encode ch = [w0, w1, w2]" "uint w0 = 0xE0 + ch div 4096"
        "uint w1 = 0x80 + ch div 64 mod 64" "uint w2 = 0x80 + ch mod 64"
      using vals by (auto simp: map_eq_Cons_conv)
    have "IsTrailByte w1" "IsTrailByte w2" by (rule trail_value [OF w(3)], rule trail_value [OF w(4)])
    moreover have "0xE0 \<le> uint w0" "uint w0 < 0xF0" using w(2) 3 by auto
    moreover have "(uint w0 * 64 + uint w1) * 64 + uint w2 - 0xE2080 = ch"
      by (rule join_digits(2) [OF w(2-4) digits64(2,1)])
    ultimately show ?thesis using 3 assms
      by (simp add: w(1) Utf8_Decode_values Let_def sequence_Cons)
  next
    case 4
    then obtain w0 w1 w2 w3 where w: "Utf8_Encode ch = [w0, w1, w2, w3]" "uint w0 = 0xF0 + ch div 262144"
        "uint w1 = 0x80 + ch div 4096 mod 64" "uint w2 = 0x80 + ch div 64 mod 64" "uint w3 = 0x80 + ch mod 64"
      using vals by (auto simp: map_eq_Cons_conv)
    have "IsTrailByte w1" "IsTrailByte w2" "IsTrailByte w3"
      by (rule trail_value [OF w(3)], rule trail_value [OF w(4)], rule trail_value [OF w(5)])
    moreover have "0xF0 \<le> uint w0" "uint w0 < 0xF8" using w(2) 4 r by auto
    moreover have "((uint w0 * 64 + uint w1) * 64 + uint w2) * 64 + uint w3 - 0x3C82080 = ch"
      by (rule join_digits(3) [OF w(2-5) digits64(3,2,1)])
    ultimately show ?thesis using 4 assms
      by (simp add: w(1) Utf8_Decode_values Let_def sequence_Cons)
  qed
qed

lemma list_of_length:
  "2 \<le> length a \<Longrightarrow> take 2 a = [a ! 0, a ! 1]"
  "3 \<le> length a \<Longrightarrow> take 3 a = [a ! 0, a ! 1, a ! 2]"
  "4 \<le> length a \<Longrightarrow> take 4 a = [a ! 0, a ! 1, a ! 2, a ! 3]"
  by (auto simp: eval_nat_numeral Suc_le_length_iff)

lemma Utf8_Encode_4:
  assumes "0x10000 \<le> ch" "ch \<le> 0x10FFFF"
  shows "map uint (Utf8_Encode ch) =
    [0xF0 + ch div 262144, 0x80 + ch div 4096 mod 64, 0x80 + ch div 64 mod 64, 0x80 + ch mod 64]"
proof -
  have "\<not> ch \<le> 0x7F" "\<not> ch \<le> 0x7FF" "\<not> ch \<le> 0xFFFF" "0 \<le> ch" using assms(1) by linarith+
  then show ?thesis using Utf8_Encode_values [OF _ assms(2)] by (simp only: if_False)
qed

lemma Utf8_Decode_sound:
  assumes "a \<noteq> []" "Utf8_Decode a = (ch, n)" "ch \<noteq> - 1"
  shows "scalar ch \<and> take n a = Utf8_Encode ch \<and> n \<le> length a \<and> 0 < n"
proof -
  let ?b = "\<lambda>k. uint (a ! k)"
  have b: "0 \<le> ?b k" "?b k < 256" for k using uint_lt2p [of "a ! k"] by simp_all
  have goal: ?thesis if "scalar ch" "n \<le> length a" "0 < n" "map uint (take n a) = map uint (Utf8_Encode ch)"
    using that by (metis inj_map_eq_map inj_on_def word_uint_eq_iff injI)
  have range: "0 \<le> ch" "ch \<le> 0x10FFFF" if "scalar ch" using that by (auto simp: scalar_def)
  note dec = Utf8_Decode_values [OF assms(1), unfolded assms(2) Let_def]
  consider (1) "?b 0 < 0x80" | (2) "0xC0 \<le> ?b 0" "?b 0 < 0xE0" | (3) "0xE0 \<le> ?b 0" "?b 0 < 0xF0"
    | (4) "0xF0 \<le> ?b 0" "?b 0 < 0xF8" | (bad) "0x80 \<le> ?b 0" "?b 0 < 0xC0 \<or> 0xF8 \<le> ?b 0" by linarith
  then show ?thesis
  proof cases
    case 1
    then have "ch = ?b 0" "n = 1" using dec by simp_all
    then show ?thesis using 1 b [of 0] assms(1) Utf8_Encode_values [of ch]
      by (intro goal) (auto simp: scalar_def take_Suc hd_conv_nth Suc_le_eq)
  next
    case 2
    then have v: "n = 2" "2 \<le> length a" "IsTrailByte (a ! 1)" "scalar ch" "0x80 \<le> ch" "ch = (?b 0 - 0xC0) * 64 + (?b 1 - 0x80)"
      using dec assms(3) by (auto simp: sequence_def split: if_splits)
    have "ch div 64 = ?b 0 - 0xC0" "ch mod 64 = ?b 1 - 0x80" "ch \<le> 0x7FF"
      using v(3) digits64_unique [of "?b 1 - 0x80" "?b 0 - 0xC0"] 2 unfolding v(6) IsTrailByte_iff by auto
    then show ?thesis using v Utf8_Encode_values [of ch] by (intro goal) (auto simp: list_of_length scalar_def)
  next
    case 3
    then have v: "n = 3" "3 \<le> length a" "IsTrailByte (a ! 1)" "IsTrailByte (a ! 2)" "scalar ch" "0x800 \<le> ch"
        "ch = ((?b 0 - 0xE0) * 64 + (?b 1 - 0x80)) * 64 + (?b 2 - 0x80)"
      using dec assms(3) by (auto simp: sequence_def split: if_splits)
    note t = v(3,4) [unfolded IsTrailByte_iff]
    have q1: "ch div 64 = (?b 0 - 0xE0) * 64 + (?b 1 - 0x80)" "ch mod 64 = ?b 2 - 0x80"
      unfolding v(7) using t by (intro digits64_unique; simp)+
    have "ch div 4096 = ?b 0 - 0xE0" "ch div 64 mod 64 = ?b 1 - 0x80"
      unfolding div_4096 q1(1) using t by (intro digits64_unique; simp)+
    moreover have "ch \<le> 0xFFFF" using v(7) t 3 by (simp add: algebra_simps)
    ultimately have "map uint (take n a) = map uint (Utf8_Encode ch)"
      unfolding v(1) list_of_length(2) [OF v(2)] Utf8_Encode_values [OF range [OF v(5)]] using v(6) q1(2) by simp
    then show ?thesis using v(1,2,5) by (intro goal) auto
  next
    case 4
    then have v: "n = 4" "4 \<le> length a" "IsTrailByte (a ! 1)" "IsTrailByte (a ! 2)" "IsTrailByte (a ! 3)" "scalar ch" "0x10000 \<le> ch"
        "ch = (((?b 0 - 0xF0) * 64 + (?b 1 - 0x80)) * 64 + (?b 2 - 0x80)) * 64 + (?b 3 - 0x80)"
      using dec assms(3) by (auto simp: sequence_def split: if_splits)
    note t = v(3-5) [unfolded IsTrailByte_iff]
    have q1: "ch div 64 = ((?b 0 - 0xF0) * 64 + (?b 1 - 0x80)) * 64 + (?b 2 - 0x80)" "ch mod 64 = ?b 3 - 0x80"
      unfolding v(8) using t by (intro digits64_unique; simp)+
    have q2: "ch div 4096 = (?b 0 - 0xF0) * 64 + (?b 1 - 0x80)" "ch div 64 mod 64 = ?b 2 - 0x80"
      unfolding div_4096 q1(1) using t by (intro digits64_unique; simp)+
    have "ch div 262144 = ?b 0 - 0xF0" "ch div 4096 mod 64 = ?b 1 - 0x80"
      unfolding div_262144 q2(1) using t by (intro digits64_unique; simp)+
    then have "map uint (take n a) = map uint (Utf8_Encode ch)"
      unfolding v(1) list_of_length(3) [OF v(2)] Utf8_Encode_4 [OF v(7) range(2) [OF v(6)]] by (simp only: q1(2) q2(2)) simp
    then show ?thesis using v(1,2,6) by (intro goal) auto
  next
    case bad
    then show ?thesis using dec assms(3) by auto
  qed
qed

lemma Utf8_Encode_pos [simp]: "Utf8_Encode ch \<noteq> []"
  by (simp add: Utf8_Encode_def Let_def)

lemma length_Utf8_Encode: "length (Utf8_Encode ch) = Utf8_Length ch"
  by (simp add: Utf8_Encode_def Utf8_Length_def Let_def)

lemma scalar_not_minus_1 [simp]: "scalar ch \<Longrightarrow> ch \<noteq> - 1"
  by (auto simp: scalar_def)

lemma Utf8_Decode_bad: "a \<noteq> [] \<Longrightarrow> fst (Utf8_Decode a) = - 1 \<Longrightarrow> Utf8_Decode a = (- 1, 0)"
  by (auto simp: Utf8_Decode_values Let_def sequence_def scalar_def split: if_splits)

text \<open>Every array is a sequence of encoded scalar values, followed by nothing or by bytes that do not decode.\<close>

definition utf8 :: "int list \<Rightarrow> u8 list" where
  "utf8 cs = concat (map Utf8_Encode cs)"

definition undecodable :: "u8 list \<Rightarrow> bool" where
  "undecodable a \<longleftrightarrow> a = [] \<or> fst (Utf8_Decode a) = - 1"

lemma utf8_simps [simp]: "utf8 [] = []" "utf8 (c # cs) = Utf8_Encode c @ utf8 cs"
  by (simp_all add: utf8_def)

lemma utf8_split:
  obtains cs bad where "list_all scalar cs" "a = utf8 cs @ bad" "undecodable bad"
proof (induction a arbitrary: thesis rule: length_induct)
  case (1 a)
  show ?case
  proof (cases "undecodable a")
    case True
    then show ?thesis by (intro 1(2) [of "[]"]) auto
  next
    case False
    then obtain ch n where d: "Utf8_Decode a = (ch, n)" "ch \<noteq> - 1" "a \<noteq> []" by (cases "Utf8_Decode a") (auto simp: undecodable_def)
    from Utf8_Decode_sound [OF d(3,1,2)] have ch: "scalar ch" "take n a = Utf8_Encode ch" "0 < n" "n \<le> length a" by auto
    then have "length (drop n a) < length a" by auto
    with 1(1) obtain cs bad where "list_all scalar cs" "drop n a = utf8 cs @ bad" "undecodable bad" by blast
    moreover from this(2) ch(2) have "a = Utf8_Encode ch @ utf8 cs @ bad" by (metis append_take_drop_id)
    ultimately show ?thesis using ch(1) by (intro 1(2) [of "ch # cs" bad]) auto
  qed
qed

lemma utf8_undecodable_unique:
  assumes "list_all scalar cs" "list_all scalar cs'" "undecodable bad" "undecodable bad'" "utf8 cs @ bad = utf8 cs' @ bad'"
  shows "cs = cs' \<and> bad = bad'"
  using assms
proof (induction cs arbitrary: cs')
  case Nil
  then show ?case by (cases cs') (auto simp: undecodable_def Utf8_Decode_Encode scalar_def)
next
  case (Cons c cs)
  show ?case
  proof (cases cs')
    case Nil
    then show ?thesis using Cons.prems by (auto simp: undecodable_def Utf8_Decode_Encode scalar_def)
  next
    case c': (Cons c' cs'')
    have "Utf8_Decode (utf8 (c # cs) @ bad) = (c, length (Utf8_Encode c))"
      "Utf8_Decode (utf8 (c' # cs'') @ bad') = (c', length (Utf8_Encode c'))"
      using Cons.prems(1,2) unfolding c' by (simp_all add: Utf8_Decode_Encode)
    then have "c = c'" using Cons.prems(5) unfolding c' by simp
    then show ?thesis using Cons.IH [of cs''] Cons.prems unfolding c' by simp
  qed
qed

text \<open>C26: \<open>Utf8::Decode\<close> accepts exactly the shortest encodings of the Unicode scalar values: for every non-empty
  array it returns the code point and the number of bytes consumed when the array starts with the encoding of a scalar
  value, which \<open>Utf8::Encode\<close> writes in the number of bytes that \<open>Utf8::Length\<close> announces, and \<open>-1\<close> and no
  bytes otherwise, in particular for truncated, overlong, surrogate and out of range sequences.\<close>

theorem Utf8_Decode_correct:
  assumes "a \<noteq> []"
  shows "(scalar ch \<longrightarrow> (Utf8_Decode a = (ch, Utf8_Length ch) \<longleftrightarrow> (\<exists>rest. a = Utf8_Encode ch @ rest)))
    \<and> length (Utf8_Encode ch) = Utf8_Length ch
    \<and> (Utf8_Decode a = (- 1, 0) \<longleftrightarrow> (\<nexists>ch rest. scalar ch \<and> a = Utf8_Encode ch @ rest))"
proof (intro conjI impI iffI)
  show "length (Utf8_Encode ch) = Utf8_Length ch" by (rule length_Utf8_Encode)
  show "\<exists>rest. a = Utf8_Encode ch @ rest" if "scalar ch" "Utf8_Decode a = (ch, Utf8_Length ch)"
    using Utf8_Decode_sound [OF assms that(2) scalar_not_minus_1 [OF that(1)]] append_take_drop_id [of "Utf8_Length ch" a] by metis
  show "Utf8_Decode a = (ch, Utf8_Length ch)" if "scalar ch" "\<exists>rest. a = Utf8_Encode ch @ rest"
    using that Utf8_Decode_Encode by (auto simp: length_Utf8_Encode)
  show "\<nexists>ch rest. scalar ch \<and> a = Utf8_Encode ch @ rest" if "Utf8_Decode a = (- 1, 0)"
    using that Utf8_Decode_Encode scalar_not_minus_1 by (metis prod.inject)
  show "Utf8_Decode a = (- 1, 0)" if "\<nexists>ch rest. scalar ch \<and> a = Utf8_Encode ch @ rest"
    using Utf8_Decode_sound [OF assms, of "fst (Utf8_Decode a)" "snd (Utf8_Decode a)"] that Utf8_Decode_bad [OF assms]
    by (metis append_take_drop_id prod.collapse)
qed

theorem Utf8_Decode_correct_witness:
  "Utf8_Decode [0xE2, 0x82, 0xAC, 0x21] = (0x20AC, 3) \<and> Utf8_Encode 0x20AC = [0xE2, 0x82, 0xAC]"
proof -
  have e: "Utf8_Encode 0x20AC = [0xE2, 0x82, 0xAC]" by code_simp
  have l: "Utf8_Length 0x20AC = 3" by code_simp
  have "scalar 0x20AC" by code_simp
  then show ?thesis using Utf8_Decode_correct [of "[0xE2, 0x82, 0xAC, 0x21]" "0x20AC"] e l by auto
qed

section \<open>Validation\<close>

lemma trail_loop_drop: "trail_loop a i n j ch m = trail_loop (drop i a) 0 n j ch m"
proof (induction a i n j ch m rule: trail_loop.induct)
  case (1 a i n j ch m)
  have "trail_loop a i n j ch m = (if j < n then if i + j < length a
      then trail_loop (drop i a) 0 n (j + 1) (push_bit 6 ch + ucast (a ! (i + j))) (m \<or> \<not> IsTrailByte (a ! (i + j))) else None
      else Some (j, ch, m))"
    by (subst trail_loop.simps) (simp add: Let_def "1" [OF _ _ refl, simplified])
  also have "\<dots> = trail_loop (drop i a) 0 n j ch m"
    by (subst (2) trail_loop.simps) (auto simp: Let_def)
  finally show ?case .
qed

lemma IsValid_loop_Decode:
  assumes "i < length a"
  shows "IsValid_loop a i \<longleftrightarrow> fst (Utf8_Decode (drop i a)) \<noteq> - 1 \<and> IsValid_loop a (i + snd (Utf8_Decode (drop i a)))"
proof -
  define x :: u32 where "x = ucast (a ! i) AND 0xFF"
  define n where "n = kTrailBytes ! unat x"
  have "0 \<le> uint (a ! i)" "uint (a ! i) < 2 ^ 31" using uint_lt2p [of "a ! i"] by simp_all
  from u32_values(2) [OF this] this(1) have x: "sint x \<noteq> - 1" unfolding x_def first_value by linarith
  have acc: "sint ch \<noteq> - 1" if "accepted n j ch m" for j ch m
  proof
    assume "sint ch = - 1"
    then have "ch = - 1" by (metis sint_n1 signed_word_eqI)
    moreover have "uint (- 1 :: u32) = 0xFFFFFFFF" by (simp add: unsigned_minus_1_eq_mask mask_eq_exp_minus_1)
    ultimately show False using that by (simp add: accepted_def IsOutOfRange_def)
  qed
  have v: "IsValid_loop a i \<longleftrightarrow> (if x \<ge> 0x80 then
      case trail_loop (drop i a) 0 n 1 x False of
        None \<Rightarrow> False
      | Some (j, ch, m) \<Rightarrow> if accepted n j (ch - kMagicBits ! n) m then IsValid_loop a (i + j) else False
      else IsValid_loop a (i + 1))"
    unfolding n_def x_def using assms
    by (subst IsValid_loop.simps) (simp only: Let_def if_True trail_loop_drop [of a i])
  have "drop i a ! 0 = a ! i" using assms by simp
  then have d: "Utf8_Decode (drop i a) = (if x \<ge> 0x80 then
      case trail_loop (drop i a) 0 n 1 x False of
        None \<Rightarrow> (- 1, 0)
      | Some (j, ch, m) \<Rightarrow> if \<not> accepted n j (ch - kMagicBits ! n) m then (- 1, 0) else (sint (ch - kMagicBits ! n), j)
      else (sint x, 1))"
    unfolding n_def x_def by (simp only: Utf8_Decode_def Let_def)
  show ?thesis unfolding v d using x by (auto split: option.split dest: acc)
qed

lemma IsValid_loop_utf8:
  assumes "list_all scalar cs" "undecodable bad"
  shows "IsValid_loop (pre @ utf8 cs @ bad) (length pre) \<longleftrightarrow> bad = []"
  using assms(1)
proof (induction cs arbitrary: pre)
  case Nil
  show ?case
  proof (cases "bad = []")
    case True
    then show ?thesis by (simp add: IsValid_loop.simps)
  next
    case False
    then show ?thesis using assms(2) by (subst IsValid_loop_Decode) (auto simp: undecodable_def)
  qed
next
  case (Cons c cs)
  then have "fst (Utf8_Decode (Utf8_Encode c @ utf8 cs @ bad)) \<noteq> - 1" by (simp add: Utf8_Decode_Encode scalar_def)
  moreover have "IsValid_loop (pre @ utf8 (c # cs) @ bad) (length pre + length (Utf8_Encode c)) \<longleftrightarrow> bad = []"
    using Cons.IH [of "pre @ Utf8_Encode c"] Cons.prems by simp
  ultimately show ?case using Cons.prems by (subst IsValid_loop_Decode) (auto simp: Utf8_Decode_Encode)
qed

lemma IsValid_utf8: "IsValid a \<longleftrightarrow> (\<exists>cs. list_all scalar cs \<and> a = utf8 cs)"
proof -
  obtain cs bad where a: "list_all scalar cs" "a = utf8 cs @ bad" "undecodable bad" by (rule utf8_split)
  have "IsValid a \<longleftrightarrow> bad = []" using IsValid_loop_utf8 [OF a(1,3), of "[]"] a(2) by (simp add: IsValid_def)
  moreover have "bad = []" if "list_all scalar cs'" "a = utf8 cs'" for cs'
    using utf8_undecodable_unique [OF a(1) that(1) a(3), of "[]"] a(2) that(2) by (simp add: undecodable_def)
  ultimately show ?thesis using a by auto
qed

text \<open>C27: \<open>Utf8::IsValid\<close> is validity in the sense of the Unicode standard: it accepts an array exactly when it is
  the concatenation of the encodings of scalar values, including the empty array.\<close>

theorem IsValid_correct: "IsValid a \<longleftrightarrow> (\<exists>cs. list_all scalar cs \<and> a = concat (map Utf8_Encode cs))"
  by (simp add: IsValid_utf8 utf8_def)

end
