(* ===== verification/Utf16_Correct.thy ===== *)
theory Utf16_Correct
  imports Utf8_Correct
begin

text \<open>
  Whole strings: decoding UTF-8 arrays into buffers of code points or of UTF-16 code units, the size of these
  buffers, and the encoding of UTF-16 strings through the code point iterator.
\<close>

section \<open>Decoding into a buffer\<close>

lemma drop_utf8: "drop (length pre) (pre @ xs) = xs"
  by simp

lemma DecodeToUTF32_loop_utf8:
  assumes "list_all scalar cs" "undecodable bad" "j \<le> length dst"
  shows "DecodeToUTF32_loop (pre @ utf8 cs @ bad) dst (length pre) j =
    Some (bad = [] \<and> length cs \<le> length dst - j, take j dst @ take (length dst - j) cs @ drop (j + length cs) dst)"
  using assms(1,3)
proof (induction cs arbitrary: pre dst j)
  case Nil
  show ?case
    by (subst DecodeToUTF32_loop.simps) (use assms(2) Nil in \<open>auto simp: undecodable_def split: prod.splits\<close>)
next
  case (Cons c cs)
  show ?case
  proof (cases "j < length dst")
    case True
    have "DecodeToUTF32_loop ((pre @ Utf8_Encode c) @ utf8 cs @ bad) (dst[j := c]) (length (pre @ Utf8_Encode c)) (j + 1) =
      Some (bad = [] \<and> length cs \<le> length (dst[j := c]) - (j + 1),
        take (j + 1) (dst[j := c]) @ take (length (dst[j := c]) - (j + 1)) cs @ drop (j + 1 + length cs) (dst[j := c]))"
      using Cons.prems True by (intro Cons.IH) auto
    moreover have "take (j + 1) (dst[j := c]) = take j dst @ [c]" using True by (simp add: take_Suc_conv_app_nth)
    moreover have "length dst - j = Suc (length dst - (j + 1))" using True by simp
    ultimately show ?thesis using Cons.prems True
      by (subst DecodeToUTF32_loop.simps) (simp add: Utf8_Decode_Encode put_def)
  next
    case False
    then show ?thesis using Cons.prems by (subst DecodeToUTF32_loop.simps) auto
  qed
qed

definition units :: "int \<Rightarrow> u16 list" where
  "units c = (if c \<le> 0xFFFF then [word_of_int c] else Utf16_Encode c)"

definition utf16 :: "int list \<Rightarrow> u16 list" where
  "utf16 cs = concat (map units cs)"

lemma utf16_simps [simp]: "utf16 [] = []" "utf16 (c # cs) = units c @ utf16 cs"
  by (simp_all add: utf16_def)

lemma length_units: "length (units c) = (if c \<le> 0xFFFF then 1 else 2)"
  by (simp add: units_def Utf16_Encode_def)

lemma lead_byte_value:
  assumes "scalar c"
  shows "uint (Utf8_Encode c ! 0) = (if c \<le> 0x7F then c else if c \<le> 0x7FF then 0xC0 + c div 64
    else if c \<le> 0xFFFF then 0xE0 + c div 4096 else 0xF0 + c div 262144)"
proof -
  have e: "uint (Utf8_Encode c ! 0) = map uint (Utf8_Encode c) ! 0" by (simp add: nth_map)
  have r: "0 \<le> c" "c \<le> 0x10FFFF" using assms by (auto simp: scalar_def)
  show ?thesis unfolding e Utf8_Encode_values [OF r] by simp
qed

lemma supplementary_start:
  assumes "scalar c"
  shows "IsSupplementarySequenceStart (Utf8_Encode c ! 0) \<longleftrightarrow> 0xFFFF < c"
proof -
  have "c div 262144 \<ge> 0" "c div 4096 < 16" if "c \<le> 0xFFFF" "0 \<le> c" using that by auto
  then show ?thesis using assms by (auto simp: IsSupplementarySequenceStart_def word_le_def lead_byte_value scalar_def)
qed

lemma take_update: "j < length dst \<Longrightarrow> take (Suc j) (dst[j := v]) = take j dst @ [v]"
  by (simp add: take_Suc_conv_app_nth)

lemma DecodeToUTF16_loop_utf8:
  assumes "list_all scalar cs" "undecodable bad" "j + length (utf16 cs) \<le> length dst"
  shows "DecodeToUTF16_loop (pre @ utf8 cs @ bad) dst (length pre) j =
    Some (bad = [], take j dst @ utf16 cs @ drop (j + length (utf16 cs)) dst)"
  using assms(1,3)
proof (induction cs arbitrary: pre dst j)
  case Nil
  show ?case
    by (subst DecodeToUTF16_loop.simps)
      (use assms(2) Nil in \<open>auto simp: undecodable_def Let_def split: prod.splits\<close>)
next
  case (Cons c cs)
  let ?a = "pre @ utf8 (c # cs) @ bad"
  have c: "scalar c" using Cons.prems by simp
  have lt: "length pre < length ?a" "j < length dst" using Cons.prems(2) by (auto simp: length_units split: if_splits)
  have start: "IsSupplementarySequenceStart (?a ! length pre) \<longleftrightarrow> 0xFFFF < c"
    using supplementary_start [OF c] by (simp add: nth_append)
  have dec: "Utf8_Decode (drop (length pre) ?a) = (c, length (Utf8_Encode c))" by (simp add: Utf8_Decode_Encode c)
  note step = DecodeToUTF16_loop.simps [of ?a dst "length pre" j, unfolded dec]
  have IH: "DecodeToUTF16_loop ?a dst' (length pre + length (Utf8_Encode c)) j' =
      Some (bad = [], take j' dst' @ utf16 cs @ drop (j' + length (utf16 cs)) dst')"
    if "j' + length (utf16 cs) \<le> length dst'" for dst' j'
    using Cons.IH [of j' dst' "pre @ Utf8_Encode c"] Cons.prems(1) that by simp
  show ?case
  proof (cases "0xFFFF < c")
    case True
    then have u: "units c = [Utf16_Encode c ! 0, Utf16_Encode c ! 1]" by (simp add: units_def Utf16_Encode_def)
    have j: "j + 1 < length dst" using Cons.prems(2) u by simp
    let ?dst = "dst[j := Utf16_Encode c ! 0, j + 1 := Utf16_Encode c ! 1]"
    have "take (j + 1 + 1) ?dst = take j dst @ units c"
      using j take_update [of "j + 1" "dst[j := Utf16_Encode c ! 0]"] take_update [of j dst] u by simp
    then show ?thesis using IH [of "j + 1 + 1" ?dst] True start lt c j Cons.prems(2) u unfolding step
      by (simp add: put_def Let_def)
  next
    case False
    then have u: "units c = [word_of_int c]" by (simp add: units_def)
    then show ?thesis using IH [of "j + 1" "dst[j := word_of_int c]"] False start lt c Cons.prems(2) take_update [of j dst "word_of_int c"]
      unfolding step by (simp add: put_def Let_def)
  qed
qed

section \<open>Counting code units\<close>

definition char_type :: "int \<Rightarrow> Utf8_Type" where
  "char_type c = (if c \<le> 0xFF then kLatin1 else if c \<le> 0xFFFF then kBMP else kSupplementary)"

fun widen :: "Utf8_Type \<Rightarrow> Utf8_Type \<Rightarrow> Utf8_Type" where
  "widen t kSupplementary = kSupplementary"
| "widen t kBMP = (if t = kLatin1 then kBMP else t)"
| "widen t kLatin1 = t"

lemma lead_not_trail:
  assumes "scalar c"
  shows "\<not> IsTrailByte (Utf8_Encode c ! 0)"
  unfolding IsTrailByte_iff lead_byte_value [OF assms] using assms pos_imp_zdiv_nonneg_iff [of _ c] by (auto simp: scalar_def)

lemma latin1_start:
  assumes "scalar c"
  shows "IsLatin1SequenceStart (Utf8_Encode c ! 0) \<longleftrightarrow> c \<le> 0xFF"
proof -
  have "c div 64 \<le> 3 \<longleftrightarrow> c \<le> 0xFF" by linarith
  moreover have "0 \<le> c" using assms by (simp add: scalar_def)
  ultimately show ?thesis unfolding IsLatin1SequenceStart_def word_le_def lead_byte_value [OF assms]
    using pos_imp_zdiv_nonneg_iff [of 4096 c] pos_imp_zdiv_nonneg_iff [of 262144 c] by auto
qed

lemma tail_trail:
  assumes "scalar c"
  shows "list_all IsTrailByte (tl (Utf8_Encode c))"
proof -
  have r: "0 \<le> c" "c \<le> 0x10FFFF" using assms by (auto simp: scalar_def)
  have m: "0x80 \<le> 0x80 + x mod 64 \<and> 0x80 + x mod 64 < 0xC0" for x :: int
    using pos_mod_sign [of 64 x] pos_mod_bound [of 64 x] by simp
  have "list_all (\<lambda>v. 0x80 \<le> v \<and> v < 0xC0) (tl (map uint (Utf8_Encode c)))"
    unfolding Utf8_Encode_values [OF r] using m by simp
  then show ?thesis unfolding map_tl [symmetric] list.pred_map comp_def IsTrailByte_iff .
qed

lemma CodeUnitCount_loop_trail: "list_all IsTrailByte bs \<Longrightarrow> CodeUnitCount_loop (bs @ a) len t = CodeUnitCount_loop a len t"
  by (induction bs) auto

lemma CodeUnitCount_loop_Encode:
  assumes "scalar c"
  shows "CodeUnitCount_loop (Utf8_Encode c @ a) len t = CodeUnitCount_loop a (len + length (units c)) (widen t (char_type c))"
proof -
  have e: "Utf8_Encode c = Utf8_Encode c ! 0 # tl (Utf8_Encode c)" by (metis Utf8_Encode_pos list.collapse hd_conv_nth)
  show ?thesis
    by (subst e) (auto simp: lead_not_trail latin1_start supplementary_start assms CodeUnitCount_loop_trail tail_trail
        length_units char_type_def)
qed

lemma CodeUnitCount_loop_ge: "len \<le> fst (CodeUnitCount_loop a len t)"
proof (induction a arbitrary: len t)
  case (Cons b a)
  have "len \<le> fst (CodeUnitCount_loop a (len + k) t)" for k t using Cons [of "len + k" t] by simp
  from this [of 0] this [of 1] this [of "1 + 1"] show ?case by simp
qed simp

lemma CodeUnitCount_utf8:
  "list_all scalar cs \<Longrightarrow> CodeUnitCount_loop (utf8 cs @ bad) len t =
     CodeUnitCount_loop bad (len + length (utf16 cs)) (foldl widen t (map char_type cs))"
  by (induction cs arbitrary: len t) (simp_all add: CodeUnitCount_loop_Encode add.assoc)

lemma CodeUnitCount_ge: "list_all scalar cs \<Longrightarrow> length (utf16 cs) \<le> fst (CodeUnitCount (utf8 cs @ bad))"
  using CodeUnitCount_loop_ge [of "length (utf16 cs)" bad] by (simp add: CodeUnitCount_def CodeUnitCount_utf8)

lemma CodeUnitCount_exact: "list_all scalar cs \<Longrightarrow> CodeUnitCount (utf8 cs) = (length (utf16 cs), foldl widen kLatin1 (map char_type cs))"
  using CodeUnitCount_utf8 [of cs "[]" 0 kLatin1] by (simp add: CodeUnitCount_def)

section \<open>The code point iterator\<close>

lemma Utf16_Encode_values:
  assumes "0xFFFF < c" "c \<le> 0x10FFFF"
  shows "map uint (Utf16_Encode c) = [0xD7C0 + c div 1024, 0xDC00 + c mod 1024]"
proof -
  have m: "c AND 0x3FF = c mod 1024" using take_bit_eq_mask [of 10 c] by (simp add: take_bit_eq_mod mask_eq_exp_minus_1)
  have "0 \<le> c mod 1024" "c mod 1024 < 1024" "64 \<le> c div 1024" "c div 1024 < 1088" using assms by auto
  then show ?thesis
    by (simp add: Utf16_Encode_def m drop_bit_eq_div uint_word_of_int del: of_int_add)
qed

lemma Utf16_Decode_values:
  assumes "64 \<le> q" "q < 1088" "0 \<le> r" "r < 1024"
  shows "Utf16_Decode (0xD7C0 + q) (0xDC00 + r) = q * 1024 + r"
proof -
  have m: "x AND 0x3FF = x mod 1024" for x :: int using take_bit_eq_mask [of 10 x] by (simp add: take_bit_eq_mod mask_eq_exp_minus_1)
  have "(0xD7C0 + q) mod 1024 = q - 64" using assms(1,2) int_mod_pos_eq [of "0xD7C0 + q" 1024 54 "q - 64"] by simp
  moreover have "(0xDC00 + r) mod 1024 = r" using assms(3,4) int_mod_pos_eq [of "0xDC00 + r" 1024 55 r] by simp
  ultimately show ?thesis by (simp add: Utf16_Decode_def m push_bit_eq_mult)
qed

definition it_at :: "int list \<Rightarrow> int list \<Rightarrow> CodePointIterator \<Rightarrow> bool" where
  "it_at before after it \<longleftrightarrow> it_str it = utf16 before @ utf16 after \<and> it_end it = int (length (it_str it))
     \<and> it_index it + Utf16_Length (it_ch it) = int (length (utf16 before))"

lemma utf16_append [simp]: "utf16 (xs @ ys) = utf16 xs @ utf16 ys"
  by (simp add: utf16_def)

lemma it_at_new: "it_at [] cs (CodePointIterator_new (utf16 cs))"
  by (simp add: it_at_def CodePointIterator_new_def Utf16_Length_def)

lemma it_Next_end: "it_at before [] it \<Longrightarrow> it_Next it = (False, it\<lparr>it_index := it_end it\<rparr>)"
  by (simp add: it_at_def it_Next_def Let_def)

lemma it_Next_char:
  assumes "it_at before (c # after) it" "scalar c"
  shows "\<exists>it'. it_Next it = (True, it') \<and> it_ch it' = c \<and> it_at (before @ [c]) after it'"
proof -
  let ?S = "utf16 before @ units c @ utf16 after" and ?k = "length (utf16 before)"
  have S: "it_str it = ?S" "it_end it = int (length ?S)" "it_index it = int ?k - Utf16_Length (it_ch it)"
    using assms(1) by (auto simp: it_at_def)
  have r: "0 \<le> c" "c \<le> 0x10FFFF" using assms(2) by (auto simp: scalar_def)
  have u0: "CharAt ?S (int ?k) = uint (units c ! 0)" by (cases "units c") (auto simp: CharAt_def length_units nth_append dest: arg_cong [of _ _ length] split: if_splits)
  have len: "Utf16_Length c = int (length (units c))" by (simp add: Utf16_Length_def length_units)
  have "it_Next it = (True, it\<lparr>it_index := int ?k, it_ch := c\<rparr>)"
  proof (cases "c \<le> 0xFFFF")
    case True
    then have "uint (units c ! 0) = c" using r by (simp add: units_def uint_word_of_int)
    moreover have "\<not> IsLeadSurrogate c" using surrogate_ranges(2) [of c] assms(2) r by (auto simp: scalar_def)
    ultimately show ?thesis using S u0 True by (simp add: it_Next_def Let_def length_units)
  next
    case False
    define q r' where "q = c div 1024" and "r' = c mod 1024"
    have b: "64 \<le> q" "q < 1088" "0 \<le> r'" "r' < 1024" using False r by (auto simp: q_def r'_def)
    have "units c = Utf16_Encode c" using False by (simp add: units_def)
    moreover have "map uint (Utf16_Encode c) = [0xD7C0 + q, 0xDC00 + r']" using False r Utf16_Encode_values [of c] by (simp add: q_def r'_def)
    ultimately obtain w0 w1 where w: "units c = [w0, w1]" "uint w0 = 0xD7C0 + q" "uint w1 = 0xDC00 + r'"
      by (auto simp: map_eq_Cons_conv)
    have "CharAt ?S (int ?k + 1) = uint w1" by (simp add: CharAt_def w(1) nth_append nat_add_distrib)
    moreover have "IsLeadSurrogate (0xD7C0 + q)" "IsTrailSurrogate (0xDC00 + r')"
      using surrogate_ranges(2) [of "0xD7C0 + q"] surrogate_ranges(3) [of "0xDC00 + r'"] b by auto
    moreover have "Utf16_Decode (0xD7C0 + q) (0xDC00 + r') = c" using Utf16_Decode_values [OF b] by (simp add: q_def r'_def)
    ultimately show ?thesis using S u0 w by (simp add: it_Next_def Let_def)
  qed
  then show ?thesis using S len by (auto simp: it_at_def)
qed

lemma Utf8_Length_loop_at: "list_all scalar after \<Longrightarrow> it_at before after it \<Longrightarrow> Utf8_Length_loop it n = n + length (utf8 after)"
proof (induction after arbitrary: before it n)
  case Nil
  then show ?case by (subst Utf8_Length_loop.simps) (simp add: it_Next_end)
next
  case (Cons c after)
  then obtain it' where it': "it_Next it = (True, it')" "it_ch it' = c" "it_at (before @ [c]) after it'"
    using it_Next_char [of before c after it] by auto
  then show ?case using Cons by (subst Utf8_Length_loop.simps) (simp add: length_Utf8_Encode)
qed

lemma Utf8_Encode_loop_at:
  "list_all scalar after \<Longrightarrow> it_at before after it \<Longrightarrow> length dst + length (utf8 after) \<le> len \<Longrightarrow>
   Utf8_Encode_loop it len dst = dst @ utf8 after"
proof (induction after arbitrary: before it dst)
  case Nil
  then show ?case by (subst Utf8_Encode_loop.simps) (simp add: it_Next_end)
next
  case (Cons c after)
  then obtain it' where it': "it_Next it = (True, it')" "it_ch it' = c" "it_at (before @ [c]) after it'"
    using it_Next_char [of before c after it] by auto
  then show ?case using Cons by (subst Utf8_Encode_loop.simps) (simp add: Let_def length_Utf8_Encode)
qed

section \<open>Strings from and to UTF-8\<close>

text \<open>C25: A valid UTF-8 array survives the conversion to a string and back: decoded into a buffer of as many code units as
  \<open>CodeUnitCount\<close> counts, it fills the buffer, and encoding the string in the buffer, through the code
  point iterator and with the surrogate pairs joined again, needs exactly its length and gives the array.\<close>

theorem string_roundtrip:
  assumes "IsValid a"
  shows "\<exists>str. DecodeToUTF16 a (replicate (fst (CodeUnitCount a)) 0) = Some (True, str)
    \<and> length str = fst (CodeUnitCount a) \<and> Utf8_Length_String str = length a \<and> Utf8_Encode_String str (length a) = a"
proof -
  obtain cs where cs: "list_all scalar cs" "a = utf8 cs" using assms by (auto simp: IsValid_utf8)
  have n: "fst (CodeUnitCount a) = length (utf16 cs)" using CodeUnitCount_exact [OF cs(1)] cs(2) by simp
  have "DecodeToUTF16 a (replicate (length (utf16 cs)) 0) = Some (True, utf16 cs)"
    using DecodeToUTF16_loop_utf8 [OF cs(1), of "[]" 0 "replicate (length (utf16 cs)) 0" "[]"] cs(2)
    by (simp add: DecodeToUTF16_def undecodable_def)
  moreover have "Utf8_Length_String (utf16 cs) = length a"
    using Utf8_Length_loop_at [OF cs(1) it_at_new, of 0] cs(2) by (simp add: Utf8_Length_String_def)
  moreover have "Utf8_Encode_String (utf16 cs) (length a) = a"
    using Utf8_Encode_loop_at [OF cs(1) it_at_new, of "[]" "length a"] cs(2) by (simp add: Utf8_Encode_String_def)
  ultimately show ?thesis unfolding n by blast
qed

theorem string_roundtrip_witness:
  "\<exists>str. DecodeToUTF16 [0x61, 0xF0, 0x9F, 0x98, 0x80] (replicate 3 0) = Some (True, str)
     \<and> Utf8_Encode_String str 5 = [0x61, 0xF0, 0x9F, 0x98, 0x80]"
proof -
  have v: "IsValid [0x61, 0xF0, 0x9F, 0x98, 0x80]" by code_simp
  have n: "fst (CodeUnitCount [0x61, 0xF0, 0x9F, 0x98, 0x80]) = 3" by code_simp
  have "length [0x61, 0xF0, 0x9F, 0x98, 0x80 :: u8] = 5" by simp
  then show ?thesis using string_roundtrip [OF v] unfolding n by metis
qed

text \<open>C28: Decoding arbitrary bytes is safe and complete: into a buffer of the size that \<open>CodeUnitCount\<close> returns,
  or a larger one, \<open>DecodeToUTF16\<close> never writes behind the end of the buffer and succeeds exactly for valid UTF-8;
  into a buffer of any size \<open>DecodeToUTF32\<close> never writes behind the end and succeeds exactly for valid
  UTF-8 whose code points fit into the buffer.\<close>

theorem decoding_in_bounds:
  assumes "fst (CodeUnitCount a) \<le> length dst"
  shows "(\<exists>dst'. DecodeToUTF16 a dst = Some (IsValid a, dst') \<and> length dst' = length dst)
    \<and> (\<exists>dst'. DecodeToUTF32 a dst32 = Some (\<exists>cs. list_all scalar cs \<and> a = concat (map Utf8_Encode cs) \<and> length cs \<le> length dst32, dst')
        \<and> length dst' = length dst32)"
proof -
  obtain cs bad where a: "list_all scalar cs" "a = utf8 cs @ bad" "undecodable bad" by (rule utf8_split)
  have unique: "(\<exists>cs'. list_all scalar cs' \<and> a = utf8 cs' \<and> P cs') \<longleftrightarrow> bad = [] \<and> P cs" for P
    using utf8_undecodable_unique [OF a(1) _ a(3), of _ "[]"] a by (auto simp: undecodable_def)
  have v: "IsValid a \<longleftrightarrow> bad = []" using unique [of "\<lambda>_. True"] by (simp add: IsValid_utf8)
  have "length (utf16 cs) \<le> length dst" using CodeUnitCount_ge [OF a(1), of bad] assms a(2) by simp
  with DecodeToUTF16_loop_utf8 [OF a(1,3), of 0 dst "[]"] show ?thesis
    using DecodeToUTF32_loop_utf8 [OF a(1,3), of 0 dst32 "[]"]
    by (simp add: DecodeToUTF16_def DecodeToUTF32_def a(2) [symmetric] v unique utf8_def [symmetric] min_def)
qed

theorem decoding_in_bounds_witness:
  "\<exists>dst'. DecodeToUTF16 [0x61, 0xC0, 0x80] [0, 0] = Some (False, dst') \<and> length dst' = 2"
proof -
  have v: "\<not> IsValid [0x61, 0xC0, 0x80]" by code_simp
  have n: "fst (CodeUnitCount [0x61, 0xC0, 0x80]) \<le> length [0, 0 :: u16]" by code_simp
  show ?thesis using decoding_in_bounds [OF n, of "[]"] v by (simp add: numeral_2_eq_2)
qed

text \<open>C29: In a shorter buffer \<open>DecodeToUTF16\<close> does not report the overflow when it is in the middle of a surrogate pair: for
  every text followed by a supplementary code point and every buffer with one code unit left for it, the trail
  surrogate is written behind the end of the buffer.\<close>

theorem DecodeToUTF16_overrun:
  assumes "list_all scalar cs" "scalar c" "0xFFFF < c" "length dst = Suc (length (utf16 cs))"
  shows "DecodeToUTF16 (concat (map Utf8_Encode cs) @ Utf8_Encode c @ rest) dst = None"
proof -
  have "DecodeToUTF16_loop (pre @ utf8 cs @ Utf8_Encode c @ rest) dst (length pre) j = None"
    if "length dst = Suc (j + length (utf16 cs))" for pre dst j
    using assms(1) that
  proof (induction cs arbitrary: pre dst j)
    case Nil
    then show ?case
      using supplementary_start [OF assms(2)] assms(2,3)
      by (subst DecodeToUTF16_loop.simps) (simp add: Utf8_Decode_Encode nth_append Let_def put_def)
  next
    case (Cons d cs)
    have d: "scalar d" using Cons.prems by simp
    have start: "IsSupplementarySequenceStart ((pre @ utf8 (d # cs) @ Utf8_Encode c @ rest) ! length pre) \<longleftrightarrow> 0xFFFF < d"
      using supplementary_start [OF d] by (simp add: nth_append)
    have IH: "DecodeToUTF16_loop (pre @ utf8 (d # cs) @ Utf8_Encode c @ rest) dst' (length pre + length (Utf8_Encode d)) j' = None"
      if "length dst' = Suc (j' + length (utf16 cs))" for dst' j'
      using Cons.IH [of dst' j' "pre @ Utf8_Encode d"] Cons.prems(1) that by simp
    show ?case
      by (subst DecodeToUTF16_loop.simps)
        (use start d Cons.prems(2) IH in \<open>auto simp: Utf8_Decode_Encode Let_def put_def length_units split: if_splits\<close>)
  qed
  from this [of dst 0 "[]"] show ?thesis using assms(4) by (simp add: DecodeToUTF16_def utf8_def)
qed

theorem DecodeToUTF16_overrun_witness:
  "DecodeToUTF16 [0x61, 0xF0, 0x9F, 0x98, 0x80] [0, 0] = None"
proof -
  have e: "Utf8_Encode 0x61 = [0x61]" "Utf8_Encode 0x1F600 = [0xF0, 0x9F, 0x98, 0x80]" by code_simp+
  show ?thesis using DecodeToUTF16_overrun [of "[0x61]" "0x1F600" "[0, 0]" "[]"] e by (simp add: scalar_def units_def)
qed

end
