(* ===== verification/Case_Mapping.thy ===== *)
theory Case_Mapping
  imports Unicode
begin

text \<open>
  The simple case mapping of code points of \<^verbatim>\<open>vm/unicode.h\<close>. The tables of \<^verbatim>\<open>vm/unicode_data.cc\<close>
  are written out, the data table with its repetitions counted. An access outside of a table is \<open>None\<close>.
\<close>

section \<open>The tables\<close>

definition stage1 :: "int list" where
  "stage1 = [
    0, 1, 2, 3, 4, 5, 6, 6, 6, 6, 6, 6, 6, 6, 6, 6, 7, 6, 6, 6, 6, 6, 6, 6, 6, 6, 6, 6, 6, 8, 9, 10, 6, 11, 6, 6, 12,
    6, 6, 6, 6, 6, 6, 6, 13, 14, 6, 6, 6, 6, 6, 6, 6, 6, 6, 6, 6, 6, 6, 6, 6, 6, 6, 6, 6, 6, 6, 6, 6, 6, 6, 6, 6, 6, 6,
    6, 6, 6, 6, 6, 6, 6, 6, 6, 6, 6, 6, 6, 6, 6, 6, 6, 6, 6, 6, 6, 6, 6, 6, 6, 6, 6, 6, 6, 6, 6, 6, 6, 6, 6, 6, 6, 6,
    6, 6, 6, 6, 6, 6, 6, 6, 6, 6, 6, 6, 6, 6, 6, 6, 6, 6, 6, 6, 6, 6, 6, 6, 6, 6, 6, 6, 6, 6, 6, 6, 6, 6, 6, 6, 6, 6,
    6, 6, 6, 6, 6, 6, 6, 6, 6, 6, 6, 6, 6, 6, 6, 15, 16, 6, 6, 6, 6, 6, 6, 6, 6, 6, 6, 6, 6, 6, 6, 6, 6, 6, 6, 6, 6, 6,
    6, 6, 6, 6, 6, 6, 6, 6, 6, 6, 6, 6, 6, 6, 6, 6, 6, 6, 6, 6, 6, 6, 6, 6, 6, 6, 6, 6, 6, 6, 6, 6, 6, 6, 6, 6, 6, 6,
    6, 6, 6, 6, 6, 6, 6, 6, 6, 6, 6, 6, 6, 6, 6, 6, 6, 6, 6, 6, 6, 6, 6, 6, 6, 6, 6, 6, 17, 6, 6, 6, 6, 18]"

text \<open>The 19 blocks of 256 entries of the data table. A pair of a number and a list stands for so many repetitions of the list.\<close>

definition stage2_blocks :: "(nat \<times> int list) list list" where
  "stage2_blocks = [
     [(65, [0]), (26, [130]), (6, [0]), (26, [- 127]), (58, [0]), (1, [2973]), (10, [0]), (23, [130]), (1, [0]),
      (7, [130]), (1, [0]), (23, [- 127]), (1, [0]), (7, [- 127]), (1, [485])],
     [(24, [6, - 3]), (1, [- 794, - 927]), (3, [6, - 3]), (1, [0]), (8, [6, - 3]), (1, [0]), (23, [6, - 3]),
      (1, [- 482]), (3, [6, - 3]), (1, [- 1199, 781, 842]), (2, [6, - 3]), (1, [826, 6, - 3]), (2, [822]),
      (1, [6, - 3, 0, 318, 810, 814, 6, - 3, 822, 830, 389, 846, 838, 6, - 3, 653, 0, 846, 854, 521, 858]),
      (3, [6, - 3]), (1, [874, 6, - 3, 874]), (2, [0]), (1, [6, - 3, 874, 6, - 3]), (2, [870]), (2, [6, - 3]),
      (1, [878, 6, - 3]), (2, [0]), (1, [6, - 3, 0, 225]), (4, [0]), (1, [10, 3, - 7, 10, 7, - 7, 10, 11, - 7]),
      (8, [6, - 3]), (1, [- 315]), (9, [6, - 3]), (1, [0, 10, 15, - 7, 6, - 3, - 386, - 222]), (4, [6, - 3])],
     [(16, [6, - 3]), (1, [- 518, 0]), (9, [6, - 3]), (6, [0]), (1, [19, 6, - 3, - 650, 23]), (2, [0]),
      (1, [6, - 3, - 778, 278, 286]), (5, [6, - 3]), (1, [27, 31, 0, - 839, - 823, 0]), (2, [- 819]),
      (1, [0, - 807, 0, - 811]), (4, [0]), (1, [- 819]), (2, [0]), (1, [- 827]), (4, [0]), (1, [- 835, - 843, 0, 35]),
      (3, [0]), (1, [- 843, 0, 39, - 851]), (2, [0]), (1, [- 855]), (7, [0]), (1, [43]), (2, [0, 0, - 871]), (4, [0]),
      (1, [- 871, - 275]), (2, [- 867]), (1, [- 283]), (5, [0]), (1, [- 875]), (109, [0])],
     [(69, [0]), (1, [337]), (42, [0]), (2, [6, - 3]), (2, [0]), (1, [6, - 3]), (3, [0]), (3, [521]), (8, [0]),
      (1, [154, 0]), (3, [150]), (1, [0, 258, 0]), (2, [254]), (1, [0]), (17, [130]), (1, [0]), (9, [130]),
      (1, [- 151]), (3, [- 147]), (1, [0]), (17, [- 127]), (1, [- 123]), (9, [- 127]), (1, [- 255]), (2, [- 251]),
      (1, [34, - 247, - 227]), (3, [0]), (1, [- 187, - 215, - 31]), (12, [6, - 3]),
      (1, [- 343, - 319, 29, 0, - 238, - 383, 0, 6, - 3, - 26, 6, - 3, 0]), (3, [- 518])],
     [(16, [322]), (32, [130]), (32, [- 127]), (16, [- 319]), (17, [6, - 3]), (8, [0]), (27, [6, - 3]), (1, [62]),
      (7, [6, - 3]), (1, [- 59]), (24, [6, - 3])],
     [(18, [6, - 3]), (13, [0]), (38, [194]), (10, [0]), (38, [- 191]), (121, [0])],
     [(256, [0])],
     [(160, [0]), (38, [29058]), (58, [0])],
     [(121, [0]), (1, [47]), (3, [0]), (1, [15257]), (130, [0])],
     [(75, [6, - 3]), (5, [0]), (1, [- 235]), (2, [0]), (1, [- 30458, 0]), (48, [6, - 3])],
     [(8, [33]), (8, [- 30]), (6, [33]), (2, [0]), (6, [- 30]), (2, [0]), (8, [33]), (8, [- 30]), (8, [33]),
      (8, [- 30]), (6, [33]), (2, [0]), (6, [- 30]), (3, [0]), (4, [33, 0]), (3, [- 30, 0]), (1, [- 30]), (8, [33]),
      (8, [- 30]), (2, [297]), (4, [345]), (2, [401]), (2, [513]), (2, [449]), (2, [505]), (2, [0]), (8, [33]),
      (8, [- 30]), (8, [33]), (8, [- 30]), (8, [33]), (8, [- 30]), (2, [33]), (1, [0, 37]), (4, [0]), (2, [- 30]),
      (2, [- 294]), (1, [- 34, 0, - 28819]), (4, [0]), (1, [37]), (4, [0]), (4, [- 342]), (1, [- 34]), (3, [0]),
      (2, [33]), (6, [0]), (2, [- 30]), (2, [- 398]), (4, [0]), (2, [33]), (3, [0]), (1, [29]), (2, [0]), (2, [- 30]),
      (2, [- 446]), (1, [- 26]), (6, [0]), (1, [37]), (4, [0]), (2, [- 510]), (2, [- 502]), (1, [- 34]), (3, [0])],
     [(38, [0]), (1, [- 30066]), (3, [0]), (1, [51, 55]), (6, [0]), (1, [114]), (27, [0]), (1, [- 111]), (17, [0]),
      (16, [66]), (16, [- 63]), (3, [0]), (1, [6, - 3]), (123, [0])],
     [(182, [0]), (26, [106]), (26, [- 103]), (22, [0])],
     [(47, [194]), (1, [0]), (47, [- 191]), (1, [0, 6, - 3, 59, - 15254, 63, 67, 71]), (3, [6, - 3]),
      (1, [75, 79, 83]), (2, [0]), (2, [6, - 3, 0]), (8, [0]), (50, [6, - 3]), (28, [0])],
     [(38, [- 29055]), (218, [0])],
     [(64, [0]), (16, [6, - 3]), (2, [0]), (6, [6, - 3]), (18, [0]), (12, [6, - 3]), (104, [0])],
     [(34, [0]), (7, [6, - 3]), (2, [0]), (31, [6, - 3]), (9, [0]), (2, [6, - 3]), (1, [87]), (5, [6, - 3]), (3, [0]),
      (1, [6, - 3]), (115, [0])],
     [(33, [0]), (26, [130]), (6, [0]), (26, [- 127]), (165, [0])],
     [(40, [162]), (40, [- 159]), (176, [0])]]"

definition stage2 :: "int list" where
  "stage2 = concat (map (\<lambda>block. concat (map (\<lambda>(n, ws). concat (replicate n ws)) block)) stage2_blocks)"

definition stage2_exception :: "(int \<times> int) list" where
  "stage2_exception = [
    (- 1, 1), (- 1, 1), (- 1, 1), (- 1, 1), (0, 10795), (0, 10792), (10783, 0), (10780, 0), (10743, 0), (10749, 0),
    (10727, 0), (35332, 0), (0, - 8383), (0, - 8262), (0, - 10743), (0, - 10727), (- 10795, 0), (- 10792, 0),
    (0, - 10780), (0, - 10749), (0, - 10783), (0, - 35332)]"

section \<open>Conversion\<close>

abbreviation (input) "kUppercase \<equiv> 1 :: int"
abbreviation (input) "kLowercase \<equiv> 2 :: int"
abbreviation (input) "kException \<equiv> 3 :: int"
abbreviation (input) "kTypeShift \<equiv> 2 :: nat"
abbreviation (input) "kTypeMask \<equiv> 3 :: int"
abbreviation (input) "kStage1Size \<equiv> 261 :: int"
abbreviation (input) "kBlockSizeLog2 \<equiv> 8 :: nat"
abbreviation (input) "kBlockSize \<equiv> push_bit kBlockSizeLog2 1 :: int"

definition table_at :: "'a list \<Rightarrow> int \<Rightarrow> 'a option" where
  "table_at xs i = (if 0 \<le> i \<and> i < int (length xs) then Some (xs ! nat i) else None)"

definition Convert :: "int \<Rightarrow> int \<Rightarrow> int option" where
  "Convert ch mapping =
     (if IsLatin1 ch then
        case table_at stage2 ch of
          None \<Rightarrow> None
        | Some info \<Rightarrow> Some (if info AND kTypeMask = mapping then ch + drop_bit kTypeShift info else ch)
      else if ch \<le> push_bit kBlockSizeLog2 kStage1Size then
        case table_at stage1 (drop_bit kBlockSizeLog2 ch) of
          None \<Rightarrow> None
        | Some block \<Rightarrow>
            let offset = push_bit kBlockSizeLog2 block
            in case table_at stage2 (offset + (ch AND (kBlockSize - 1))) of
                 None \<Rightarrow> None
               | Some info \<Rightarrow>
                   let type = info AND kTypeMask
                   in if type = mapping then Some (ch + drop_bit kTypeShift info)
                      else if type = kException then
                        case table_at stage2_exception (drop_bit kTypeShift info) of
                          None \<Rightarrow> None
                        | Some e \<Rightarrow> Some (ch + (if mapping - 1 = 0 then fst e else snd e))
                      else Some ch
      else Some ch)"

definition ToUpper :: "int \<Rightarrow> int option" where
  "ToUpper code_point = Convert code_point kUppercase"

definition ToLower :: "int \<Rightarrow> int option" where
  "ToLower code_point = Convert code_point kLowercase"

section \<open>Table accesses\<close>

lemma stage1_blocks: "length stage1 = 261" "list_all (\<lambda>b. 0 \<le> b \<and> b < 19) stage1"
  by (simp_all add: stage1_def)

lemma table_at_Some: "0 \<le> i \<Longrightarrow> i < int (length xs) \<Longrightarrow> \<exists>x \<in> set xs. table_at xs i = Some x"
  by (auto simp: table_at_def)

text \<open>The data table has 4864 entries, and those whose type is that of an exception are indices into the table of exceptions.\<close>

lemma list_all_repeat: "list_all P (concat (replicate n ws)) \<longleftrightarrow> n = 0 \<or> list_all P ws"
  by (induction n) auto

lemma list_all_copies: "list_all P (replicate n x) \<longleftrightarrow> n = 0 \<or> P x"
  by (induction n) auto

lemma length_repeat: "length (concat (replicate n ws)) = n * length ws"
  by (induction n) auto

lemma stage2_length: "length stage2 = 4864"
  by (simp add: stage2_def stage2_blocks_def length_repeat length_concat sum_list_replicate)

lemma stage2_exceptions:
  "list_all (\<lambda>info. info AND kTypeMask = kException \<longrightarrow> 0 \<le> drop_bit kTypeShift info \<and> drop_bit kTypeShift info < 22) stage2"
  by (simp add: stage2_def stage2_blocks_def list_all_repeat list_all_copies)

lemma and_255: "ch AND 255 = ch mod (256 :: int)"
  using take_bit_eq_mask [of 8 ch] by (simp add: take_bit_eq_mod mask_eq_exp_minus_1)

lemma Convert_in_range:
  assumes "0 \<le> ch" "ch < 261 * 256"
  shows "Convert ch mapping \<noteq> None"
proof -
  have d: "0 \<le> drop_bit 8 ch" "drop_bit 8 ch < 261" using assms by (auto simp: drop_bit_eq_div pos_imp_zdiv_nonneg_iff)
  obtain b where b: "table_at stage1 (drop_bit 8 ch) = Some b" "0 \<le> b" "b < 19"
    using table_at_Some [of "drop_bit 8 ch" stage1] d stage1_blocks by (auto simp: list_all_iff)
  have "0 \<le> ch mod 256" "ch mod 256 < 256" by simp_all
  then have i: "0 \<le> push_bit 8 b + ch mod 256" "push_bit 8 b + ch mod 256 < int (length stage2)"
    using b(2,3) by (simp_all add: push_bit_eq_mult stage2_length)
  obtain info where info: "info \<in> set stage2" "table_at stage2 (push_bit 8 b + ch mod 256) = Some info"
    using table_at_Some [OF i] by auto
  have "table_at stage2_exception (drop_bit 2 info) \<noteq> None" if "info AND 3 = 3"
    using that info(1) stage2_exceptions by (simp add: list_all_iff table_at_def stage2_exception_def)
  moreover have "table_at stage2 ch \<noteq> None" if "IsLatin1 ch"
    using that assms(1) by (simp add: table_at_def stage2_length IsLatin1_def)
  ultimately show ?thesis using b(1) info(2) by (auto simp: Convert_def Let_def and_255)
qed

lemma Convert_edge: "Convert 0x10500 mapping = None"
  by (simp add: Convert_def IsLatin1_def push_bit_eq_mult drop_bit_eq_div table_at_def stage1_blocks)

lemma Convert_above: "0x10500 < ch \<Longrightarrow> Convert ch mapping = Some ch"
  by (simp add: Convert_def IsLatin1_def push_bit_eq_mult)

section \<open>ASCII\<close>

lemma stage2_ascii: "\<exists>rest. stage2 = (replicate 65 0 @ replicate 26 130 @ replicate 6 0 @ replicate 26 (- 127) @ replicate 58 0) @ rest"
  by (simp add: stage2_def stage2_blocks_def)

lemma table_at_append: "0 \<le> i \<Longrightarrow> table_at (replicate n x @ ys) i = (if i < int n then Some x else table_at ys (i - int n))"
  by (auto simp: table_at_def nth_append nat_diff_distrib)

lemma Convert_ascii:
  assumes "0 \<le> ch" "ch < 128"
  shows "Convert ch kUppercase = Some (if 97 \<le> ch \<and> ch \<le> 122 then ch - 32 else ch)"
    "Convert ch kLowercase = Some (if 65 \<le> ch \<and> ch \<le> 90 then ch + 32 else ch)"
proof -
  have l: "IsLatin1 ch" using assms by (simp add: IsLatin1_def)
  obtain rest where e: "stage2 = (replicate 65 0 @ replicate 26 130 @ replicate 6 0 @ replicate 26 (- 127) @ replicate 58 0) @ rest"
    using stage2_ascii by blast
  have "table_at stage2 ch = Some (if 65 \<le> ch \<and> ch \<le> 90 then 130 else if 97 \<le> ch \<and> ch \<le> 122 then - 127 else 0)"
    unfolding e using assms by (auto simp: table_at_append)
  then show "Convert ch kUppercase = Some (if 97 \<le> ch \<and> ch \<le> 122 then ch - 32 else ch)"
    "Convert ch kLowercase = Some (if 65 \<le> ch \<and> ch \<le> 90 then ch + 32 else ch)"
    using l by (auto simp: Convert_def)
qed

text \<open>C30: The case mapping with the tables of the code stays within them for every code point but one: for the first code point behind the blocks of
  the index table, U+10500, the comparison admits the index 261 into the table of 261 blocks. Code points above are
  mapped to themselves. In ASCII, exactly the letters change their case.\<close>

theorem case_mapping_in_bounds:
  assumes "0 \<le> ch"
  shows "(ToUpper ch = None \<longleftrightarrow> ch = 0x10500) \<and> (ToLower ch = None \<longleftrightarrow> ch = 0x10500)
    \<and> (0x10500 < ch \<longrightarrow> ToUpper ch = Some ch \<and> ToLower ch = Some ch)
    \<and> (ch < 128 \<longrightarrow> ToUpper ch = Some (if 97 \<le> ch \<and> ch \<le> 122 then ch - 32 else ch)
        \<and> ToLower ch = Some (if 65 \<le> ch \<and> ch \<le> 90 then ch + 32 else ch))"
proof -
  consider "ch < 261 * 256" | "ch = 0x10500" | "0x10500 < ch" by linarith
  then show ?thesis
    by cases (use Convert_in_range [OF assms] Convert_edge Convert_above Convert_ascii [OF assms] in \<open>auto simp: ToUpper_def ToLower_def\<close>)
qed

theorem case_mapping_in_bounds_witness:
  "ToUpper 0x10500 = None \<and> ToUpper 0x1C5 \<noteq> None \<and> ToLower 0x104FF \<noteq> None \<and> ToUpper 0x62 = Some 0x42"
  using case_mapping_in_bounds [of "0x10500"] case_mapping_in_bounds [of "0x1C5"] case_mapping_in_bounds [of "0x104FF"]
    case_mapping_in_bounds [of "0x62"] by simp

end
