(* ===== verification/Mips_Instr.thy ===== *)
theory Mips_Instr
  imports Prelude
begin

text \<open>
  The MIPS instruction format of \<^verbatim>\<open>vm/constants_mips.h\<close>: registers, relation operators, the
  opcodes and function codes, and the accessors of class \<open>Instr\<close>. An instruction is its 32 bits;
  a register is its number. The enumerations that the code casts to and from integers are named
  numerals, so that a decoder compares fields with them as the C++ code does.
\<close>

type_synonym Register = nat
type_synonym FRegister = nat
type_synonym DRegister = nat

abbreviation (input) "R0 \<equiv> 0 :: Register"
abbreviation (input) "R1 \<equiv> 1 :: Register"
abbreviation (input) "kNumberOfCpuRegisters \<equiv> 32 :: nat"
abbreviation (input) "IMM \<equiv> 32 :: Register"
abbreviation (input) "ZR \<equiv> 0 :: Register"
abbreviation (input) "AT \<equiv> 1 :: Register"
abbreviation (input) "V0 \<equiv> 2 :: Register"
abbreviation (input) "V1 \<equiv> 3 :: Register"
abbreviation (input) "A0 \<equiv> 4 :: Register"
abbreviation (input) "A1 \<equiv> 5 :: Register"
abbreviation (input) "A2 \<equiv> 6 :: Register"
abbreviation (input) "A3 \<equiv> 7 :: Register"
abbreviation (input) "T0 \<equiv> 8 :: Register"
abbreviation (input) "T8 \<equiv> 24 :: Register"
abbreviation (input) "T9 \<equiv> 25 :: Register"
abbreviation (input) "SP \<equiv> 29 :: Register"
abbreviation (input) "FP \<equiv> 30 :: Register"
abbreviation (input) "RA \<equiv> 31 :: Register"
abbreviation (input) "TMP \<equiv> 1 :: Register"
abbreviation (input) "PP \<equiv> 23 :: Register"
abbreviation (input) "CMPRES1 \<equiv> 24 :: Register"
abbreviation (input) "CMPRES2 \<equiv> 25 :: Register"

definition EvenFRegisterOf :: "DRegister \<Rightarrow> FRegister" where
  "EvenFRegisterOf d = d * 2"

definition OddFRegisterOf :: "DRegister \<Rightarrow> FRegister" where
  "OddFRegisterOf d = d * 2 + 1"

datatype RelationOperator = AL | NV | EQ | NE | GT | GE | LT | LE | UGT | UGE | ULT | ULE

text \<open>\<open>Opcode\<close>\<close>

abbreviation (input) "SPECIAL \<equiv> 0 :: u32"
abbreviation (input) "REGIMM \<equiv> 1 :: u32"
abbreviation (input) "BEQ \<equiv> 4 :: u32"
abbreviation (input) "BNE \<equiv> 5 :: u32"
abbreviation (input) "BLEZ \<equiv> 6 :: u32"
abbreviation (input) "BGTZ \<equiv> 7 :: u32"
abbreviation (input) "ADDIU \<equiv> 9 :: u32"
abbreviation (input) "SLTI \<equiv> 10 :: u32"
abbreviation (input) "SLTIU \<equiv> 11 :: u32"
abbreviation (input) "ANDI \<equiv> 12 :: u32"
abbreviation (input) "ORI \<equiv> 13 :: u32"
abbreviation (input) "XORI \<equiv> 14 :: u32"
abbreviation (input) "LUI \<equiv> 15 :: u32"
abbreviation (input) "COP1 \<equiv> 17 :: u32"
abbreviation (input) "BEQL \<equiv> 20 :: u32"
abbreviation (input) "BNEL \<equiv> 21 :: u32"
abbreviation (input) "BLEZL \<equiv> 22 :: u32"
abbreviation (input) "BGTZL \<equiv> 23 :: u32"
abbreviation (input) "SPECIAL2 \<equiv> 28 :: u32"
abbreviation (input) "LB \<equiv> 32 :: u32"
abbreviation (input) "LH \<equiv> 33 :: u32"
abbreviation (input) "LW \<equiv> 35 :: u32"
abbreviation (input) "LBU \<equiv> 36 :: u32"
abbreviation (input) "LHU \<equiv> 37 :: u32"
abbreviation (input) "SB \<equiv> 40 :: u32"
abbreviation (input) "SH \<equiv> 41 :: u32"
abbreviation (input) "SW \<equiv> 43 :: u32"
abbreviation (input) "LWC1 \<equiv> 49 :: u32"
abbreviation (input) "LDC1 \<equiv> 53 :: u32"
abbreviation (input) "SWC1 \<equiv> 57 :: u32"
abbreviation (input) "SDC1 \<equiv> 61 :: u32"

text \<open>\<open>SpecialFunction\<close>; \<open>AND\<close>, \<open>OR\<close> and \<open>XOR\<close> carry a suffix.\<close>

abbreviation (input) "SLL \<equiv> 0 :: u32"
abbreviation (input) "MOVCI \<equiv> 1 :: u32"
abbreviation (input) "SRL \<equiv> 2 :: u32"
abbreviation (input) "SRA \<equiv> 3 :: u32"
abbreviation (input) "SLLV \<equiv> 4 :: u32"
abbreviation (input) "SRLV \<equiv> 6 :: u32"
abbreviation (input) "SRAV \<equiv> 7 :: u32"
abbreviation (input) "JR \<equiv> 8 :: u32"
abbreviation (input) "JALR \<equiv> 9 :: u32"
abbreviation (input) "MOVZ \<equiv> 10 :: u32"
abbreviation (input) "MOVN \<equiv> 11 :: u32"
abbreviation (input) "BREAK \<equiv> 13 :: u32"
abbreviation (input) "MFHI \<equiv> 16 :: u32"
abbreviation (input) "MTHI \<equiv> 17 :: u32"
abbreviation (input) "MFLO \<equiv> 18 :: u32"
abbreviation (input) "MTLO \<equiv> 19 :: u32"
abbreviation (input) "MULT \<equiv> 24 :: u32"
abbreviation (input) "MULTU \<equiv> 25 :: u32"
abbreviation (input) "DIV \<equiv> 26 :: u32"
abbreviation (input) "DIVU \<equiv> 27 :: u32"
abbreviation (input) "ADDU \<equiv> 33 :: u32"
abbreviation (input) "SUBU \<equiv> 35 :: u32"
abbreviation (input) "AND_fn \<equiv> 36 :: u32"
abbreviation (input) "OR_fn \<equiv> 37 :: u32"
abbreviation (input) "XOR_fn \<equiv> 38 :: u32"
abbreviation (input) "NOR \<equiv> 39 :: u32"
abbreviation (input) "SLT \<equiv> 42 :: u32"
abbreviation (input) "SLTU \<equiv> 43 :: u32"
abbreviation (input) "MADD \<equiv> 0 :: u32"
abbreviation (input) "MADDU \<equiv> 1 :: u32"
abbreviation (input) "CLZ \<equiv> 32 :: u32"
abbreviation (input) "CLO \<equiv> 33 :: u32"

text \<open>\<open>RtRegImm\<close>\<close>

abbreviation (input) "BLTZ \<equiv> 0 :: u32"
abbreviation (input) "BGEZ \<equiv> 1 :: u32"
abbreviation (input) "BLTZL \<equiv> 2 :: u32"
abbreviation (input) "BGEZL \<equiv> 3 :: u32"
abbreviation (input) "BLTZAL \<equiv> 16 :: u32"
abbreviation (input) "BGEZAL \<equiv> 17 :: u32"

text \<open>\<open>Cop1Function\<close>, \<open>Cop1Sub\<close> and \<open>Format\<close>\<close>

abbreviation (input) "COP1_ADD \<equiv> 0x00 :: u32"
abbreviation (input) "COP1_SUB \<equiv> 0x01 :: u32"
abbreviation (input) "COP1_MUL \<equiv> 0x02 :: u32"
abbreviation (input) "COP1_DIV \<equiv> 0x03 :: u32"
abbreviation (input) "COP1_SQRT \<equiv> 0x04 :: u32"
abbreviation (input) "COP1_MOV \<equiv> 0x06 :: u32"
abbreviation (input) "COP1_CVT_S \<equiv> 0x20 :: u32"
abbreviation (input) "COP1_CVT_D \<equiv> 0x21 :: u32"
abbreviation (input) "COP1_CVT_W \<equiv> 0x24 :: u32"
abbreviation (input) "COP1_C_F \<equiv> 0x30 :: u32"
abbreviation (input) "COP1_C_UN \<equiv> 0x31 :: u32"
abbreviation (input) "COP1_C_EQ \<equiv> 0x32 :: u32"
abbreviation (input) "COP1_C_UEQ \<equiv> 0x33 :: u32"
abbreviation (input) "COP1_C_OLT \<equiv> 0x34 :: u32"
abbreviation (input) "COP1_C_ULT \<equiv> 0x35 :: u32"
abbreviation (input) "COP1_C_OLE \<equiv> 0x36 :: u32"
abbreviation (input) "COP1_C_ULE \<equiv> 0x37 :: u32"
abbreviation (input) "COP1_MF \<equiv> 0 :: u32"
abbreviation (input) "COP1_MT \<equiv> 4 :: u32"
abbreviation (input) "COP1_BC \<equiv> 8 :: u32"
abbreviation (input) "FMT_S \<equiv> 16 :: u32"
abbreviation (input) "FMT_D \<equiv> 17 :: u32"
abbreviation (input) "FMT_W \<equiv> 20 :: u32"
abbreviation (input) "FMT_L \<equiv> 21 :: u32"

section \<open>Class \<open>Instr\<close>\<close>

definition kNopInstruction :: u32 where
  "kNopInstruction = 0"

abbreviation (input) kBreakPointCode :: u32 where
  "kBreakPointCode \<equiv> 0xdeb0"

abbreviation (input) kStopMessageCode :: u32 where
  "kStopMessageCode \<equiv> 0xdeb1"

abbreviation (input) kSimulatorBreakCode :: u32 where
  "kSimulatorBreakCode \<equiv> 0xdeb2"

abbreviation (input) kSimulatorRedirectCode :: u32 where
  "kSimulatorRedirectCode \<equiv> 0xca11"

abbreviation (input) kBreakPointZeroInstruction :: u32 where
  "kBreakPointZeroInstruction \<equiv> push_bit 26 SPECIAL OR BREAK"

abbreviation (input) kBreakPointInstruction :: u32 where
  "kBreakPointInstruction \<equiv> kBreakPointZeroInstruction OR push_bit 6 kBreakPointCode"

abbreviation (input) kSimulatorBreakpointInstruction :: u32 where
  "kSimulatorBreakpointInstruction \<equiv> kBreakPointZeroInstruction OR push_bit 6 kSimulatorBreakCode"

abbreviation (input) kSimulatorRedirectInstruction :: u32 where
  "kSimulatorRedirectInstruction \<equiv> kBreakPointZeroInstruction OR push_bit 6 kSimulatorRedirectCode"

definition ImmInstrBits :: "u32 \<Rightarrow> Register \<Rightarrow> Register \<Rightarrow> u16 \<Rightarrow> u32" where
  "ImmInstrBits op rs rt imm =
     push_bit 26 op OR push_bit 21 (of_nat rs) OR push_bit 16 (of_nat rt) OR ucast imm"

definition SpecialInstrBits :: "u32 \<Rightarrow> Register \<Rightarrow> Register \<Rightarrow> Register \<Rightarrow> u32" where
  "SpecialInstrBits f rs rt rd =
     push_bit 26 SPECIAL OR f OR push_bit 21 (of_nat rs) OR push_bit 16 (of_nat rt) OR push_bit 11 (of_nat rd)"

text \<open>The shifts of \<open>Bit\<close> and \<open>Bits\<close> are arithmetic: \<open>InstructionBits\<close> is signed.\<close>

definition Bit :: "u32 \<Rightarrow> nat \<Rightarrow> u32" where
  "Bit instr nr = signed_drop_bit nr instr AND 1"

definition Bits :: "u32 \<Rightarrow> nat \<Rightarrow> nat \<Rightarrow> u32" where
  "Bits instr shift count = signed_drop_bit shift instr AND (push_bit count 1 - 1)"

definition OpcodeField :: "u32 \<Rightarrow> u32" where
  "OpcodeField instr = Bits instr 26 6"

definition SetOpcodeField :: "u32 \<Rightarrow> u32 \<Rightarrow> u32" where
  "SetOpcodeField instr b =
     (let mask = push_bit 26 (push_bit 6 1 - 1) in push_bit 26 b OR (instr AND NOT mask))"

definition RsField :: "u32 \<Rightarrow> Register" where
  "RsField instr = unat (Bits instr 21 5)"

definition RtField :: "u32 \<Rightarrow> Register" where
  "RtField instr = unat (Bits instr 16 5)"

definition RdField :: "u32 \<Rightarrow> Register" where
  "RdField instr = unat (Bits instr 11 5)"

definition FsField :: "u32 \<Rightarrow> FRegister" where
  "FsField instr = unat (Bits instr 11 5)"

definition FtField :: "u32 \<Rightarrow> FRegister" where
  "FtField instr = unat (Bits instr 16 5)"

definition FdField :: "u32 \<Rightarrow> FRegister" where
  "FdField instr = unat (Bits instr 6 5)"

definition SaField :: "u32 \<Rightarrow> nat" where
  "SaField instr = unat (Bits instr 6 5)"

definition UImmField :: "u32 \<Rightarrow> u32" where
  "UImmField instr = Bits instr 0 16"

definition SImmField :: "u32 \<Rightarrow> u32" where
  "SImmField instr = signed_drop_bit (32 - 16) (push_bit (32 - 16) (Bits instr 0 16))"

definition BreakCodeField :: "u32 \<Rightarrow> u32" where
  "BreakCodeField instr = Bits instr 6 20"

definition FunctionField :: "u32 \<Rightarrow> u32" where
  "FunctionField instr = Bits instr 0 6"

definition RegImmFnField :: "u32 \<Rightarrow> u32" where
  "RegImmFnField instr = Bits instr 16 5"

definition SetRegImmFnField :: "u32 \<Rightarrow> u32 \<Rightarrow> u32" where
  "SetRegImmFnField instr b =
     (let mask = push_bit 16 (push_bit 5 1 - 1) in push_bit 16 b OR (instr AND NOT mask))"

definition IsBreakPoint :: "u32 \<Rightarrow> bool" where
  "IsBreakPoint instr \<longleftrightarrow> OpcodeField instr = SPECIAL \<and> FunctionField instr = BREAK"

definition Cop1FunctionField :: "u32 \<Rightarrow> u32" where
  "Cop1FunctionField instr = Bits instr 0 6"

definition Cop1SubField :: "u32 \<Rightarrow> u32" where
  "Cop1SubField instr = Bits instr 21 5"

definition HasFormat :: "u32 \<Rightarrow> bool" where
  "HasFormat instr \<longleftrightarrow> OpcodeField instr = COP1 \<and> Bit instr 25 = 1"

definition FormatField :: "u32 \<Rightarrow> u32" where
  "FormatField instr = Bits instr 21 5"

definition FpuCCField :: "u32 \<Rightarrow> u32" where
  "FpuCCField instr = Bits instr 8 3"

lemmas field_defs = OpcodeField_def RsField_def RtField_def RdField_def FsField_def FtField_def
  FdField_def SaField_def UImmField_def BreakCodeField_def FunctionField_def RegImmFnField_def
  Cop1FunctionField_def Cop1SubField_def FormatField_def FpuCCField_def

section \<open>Fields\<close>

lemma Bits_eq:
  assumes "shift + count \<le> 32"
  shows "Bits instr shift count = take_bit count (drop_bit shift instr)"
proof (rule bit_word_eqI)
  fix n assume "n < LENGTH(32)"
  have "push_bit count 1 - 1 = (mask count :: u32)" by (simp add: mask_eq_exp_minus_1)
  then show "bit (Bits instr shift count) n = bit (take_bit count (drop_bit shift instr)) n"
    using assms unfolding Bits_def
    by (auto simp: bit_simps)
qed

lemma Bit_eq: "nr < 32 \<Longrightarrow> Bit instr nr = (if bit instr nr then 1 else 0)"
proof (rule bit_word_eqI)
  fix n assume "nr < 32" "n < LENGTH(32)"
  then show "bit (Bit instr nr) n = bit (if bit instr nr then 1 else (0 :: u32)) n"
    by (cases n) (auto simp: Bit_def bit_simps)
qed

lemma bit_Bits:
  "shift + count \<le> 32 \<Longrightarrow> bit (Bits instr shift count) n \<longleftrightarrow> n < count \<and> bit instr (shift + n)"
  by (auto simp: Bits_eq bit_simps)

lemma unat_Bits_less: "shift + count \<le> 32 \<Longrightarrow> unat (Bits instr shift count) < 2 ^ count"
proof -
  assume "shift + count \<le> 32"
  then have "unat (Bits instr shift count) = take_bit count (unat (drop_bit shift instr))"
    by (simp add: Bits_eq unsigned_take_bit_eq)
  then show ?thesis by (simp add: take_bit_nat_less_exp)
qed

lemma register_fields_less [simp]:
  "RsField i < 32" "RtField i < 32" "RdField i < 32" "FsField i < 32" "FtField i < 32" "FdField i < 32"
  "SaField i < 32"
  using unat_Bits_less [of _ 5 i] by (force simp: field_defs)+

text \<open>A field is read back when the instruction is the disjunction of fields at disjoint places.\<close>

lemma bit_of_nat_less: "x < 2 ^ k \<Longrightarrow> bit (of_nat x :: 'a::len word) n \<Longrightarrow> n < k"
  by (simp add: bit_simps) (metis bit_take_bit_iff take_bit_nat_eq_self)

lemma bit_word_less: "unat (x :: 'a::len word) < 2 ^ k \<Longrightarrow> bit x n \<Longrightarrow> n < k"
  using bit_of_nat_less [of "unat x" k n, where 'a = 'a] by simp

definition RType_word :: "u32 \<Rightarrow> nat \<Rightarrow> nat \<Rightarrow> nat \<Rightarrow> nat \<Rightarrow> u32 \<Rightarrow> u32" where
  "RType_word opcode rs rt rd sa func =
     push_bit 26 opcode OR push_bit 21 (of_nat rs) OR push_bit 16 (of_nat rt) OR
     push_bit 11 (of_nat rd) OR push_bit 6 (of_nat sa) OR func"

definition IType_word :: "u32 \<Rightarrow> nat \<Rightarrow> nat \<Rightarrow> u16 \<Rightarrow> u32" where
  "IType_word opcode rs rt imm =
     push_bit 26 opcode OR push_bit 21 (of_nat rs) OR push_bit 16 (of_nat rt) OR ucast imm"

lemma bit_RType_word:
  assumes "unat opcode < 64" "rs < 32" "rt < 32" "rd < 32" "sa < 32" "unat func < 64" "n < 32"
  shows "bit (RType_word opcode rs rt rd sa func) n \<longleftrightarrow>
     (if 26 \<le> n then bit opcode (n - 26)
      else if 21 \<le> n then bit (of_nat rs :: u32) (n - 21)
      else if 16 \<le> n then bit (of_nat rt :: u32) (n - 16)
      else if 11 \<le> n then bit (of_nat rd :: u32) (n - 11)
      else if 6 \<le> n then bit (of_nat sa :: u32) (n - 6)
      else bit func n)"
proof -
  have p: "bit (push_bit k (of_nat x) :: u32) n \<longleftrightarrow> k \<le> n \<and> n < k + 5 \<and> bit (of_nat x :: u32) (n - k)"
    if "x < 32" for x k
    using bit_of_nat_less [of x 5 "n - k", where 'a = 32] that assms(7) by (auto simp: bit_push_bit_iff)
  have f: "6 \<le> n \<Longrightarrow> \<not> bit func n"
    using bit_word_less [of func 6 n] assms by auto
  have o: "bit (push_bit 26 opcode) n \<longleftrightarrow> 26 \<le> n \<and> bit opcode (n - 26)"
    using assms(7) by (auto simp: bit_push_bit_iff)
  show ?thesis
    unfolding RType_word_def bit_or_iff o p [OF assms(2)] p [OF assms(3)] p [OF assms(4)] p [OF assms(5)]
    using f assms(7) by (cases "6 \<le> n") auto
qed

lemma bit_IType_word:
  assumes "unat opcode < 64" "rs < 32" "rt < 32" "n < 32"
  shows "bit (IType_word opcode rs rt imm) n \<longleftrightarrow>
     (if 26 \<le> n then bit opcode (n - 26)
      else if 21 \<le> n then bit (of_nat rs :: u32) (n - 21)
      else if 16 \<le> n then bit (of_nat rt :: u32) (n - 16)
      else bit imm n)"
proof -
  have p: "bit (push_bit k (of_nat x) :: u32) n \<longleftrightarrow> k \<le> n \<and> n < k + 5 \<and> bit (of_nat x :: u32) (n - k)"
    if "x < 32" for x k
    using bit_of_nat_less [of x 5 "n - k", where 'a = 32] that assms(4) by (auto simp: bit_push_bit_iff)
  have o: "bit (push_bit 26 opcode) n \<longleftrightarrow> 26 \<le> n \<and> bit opcode (n - 26)"
    using assms(4) by (auto simp: bit_push_bit_iff)
  have u: "bit (ucast imm :: u32) n \<longleftrightarrow> n < 16 \<and> bit imm n"
    using assms(4) by (auto simp: bit_simps dest: bit_imp_le_length)
  show ?thesis
    unfolding IType_word_def bit_or_iff o p [OF assms(2)] p [OF assms(3)] u
    using assms(4) by (simp split: if_split)
qed

lemma Bits_of_nat:
  assumes "shift + 5 \<le> 32" "x < 32" "\<And>k. k < 5 \<Longrightarrow> bit w (shift + k) = bit (of_nat x :: u32) k"
  shows "unat (Bits w shift 5) = x"
proof -
  have "Bits w shift 5 = of_nat x"
    using assms bit_of_nat_less [of x 5, where 'a = 32] by (intro bit_word_eqI) (auto simp: bit_Bits)
  then show ?thesis using assms(2) by (simp add: unat_of_nat)
qed

lemma Bits_word:
  assumes "shift + count \<le> 32" "unat x < 2 ^ count" "\<And>k. k < count \<Longrightarrow> bit w (shift + k) = bit x k"
  shows "Bits w shift count = x"
  using assms bit_word_less [of x count] by (intro bit_word_eqI) (auto simp: bit_Bits)

lemma RType_fields:
  assumes "unat opcode < 64" "rs < 32" "rt < 32" "rd < 32" "sa < 32" "unat func < 64"
  defines "w \<equiv> RType_word opcode rs rt rd sa func"
  shows "OpcodeField w = opcode" "RsField w = rs" "RtField w = rt" "RdField w = rd" "SaField w = sa"
    "FunctionField w = func" "FtField w = rt" "FsField w = rd" "FdField w = sa" "Cop1FunctionField w = func"
    "FormatField w = of_nat rs"
proof -
  note b = bit_RType_word [OF assms(1-6), folded w_def]
  show op: "OpcodeField w = opcode" "FunctionField w = func" "Cop1FunctionField w = func"
    unfolding field_defs by (rule Bits_word; use assms(1-6) in \<open>simp add: b\<close>)+
  show "RsField w = rs" "RtField w = rt" "RdField w = rd" "SaField w = sa" "FtField w = rt" "FsField w = rd" "FdField w = sa"
    unfolding field_defs by (rule Bits_of_nat; use assms(1-6) in \<open>simp add: b\<close>)+
  show "FormatField w = of_nat rs"
    unfolding field_defs by (rule Bits_word; use assms(1-3) in \<open>simp add: b unat_of_nat\<close>)
qed

lemma IType_fields:
  fixes imm :: u16
  assumes "unat opcode < 64" "rs < 32" "rt < 32"
  defines "w \<equiv> IType_word opcode rs rt imm"
  shows "OpcodeField w = opcode" "RsField w = rs" "RtField w = rt" "UImmField w = ucast imm"
    "SImmField w = scast imm" "FtField w = rt" "RegImmFnField w = of_nat rt"
proof -
  note b = bit_IType_word [OF assms(1-3), where imm = imm, folded w_def]
  show "OpcodeField w = opcode"
    unfolding field_defs by (rule Bits_word; use assms(1-3) in \<open>simp add: b\<close>)
  show "RsField w = rs" "RtField w = rt" "FtField w = rt"
    unfolding field_defs by (rule Bits_of_nat; use assms(1-3) in \<open>simp add: b\<close>)+
  show "RegImmFnField w = of_nat rt"
    unfolding field_defs by (rule Bits_word; use assms(1-3) in \<open>simp add: b unat_of_nat\<close>)
  show imm: "UImmField w = ucast imm"
  proof -
    have "unat imm < 2 ^ 16" using unsigned_less [of imm] by simp
    then have "unat (ucast imm :: u32) < 2 ^ 16"
      by (simp add: unsigned_ucast_eq take_bit_nat_eq_self)
    moreover have "bit w (0 + k) = bit (ucast imm :: u32) k" if "k < 16" for k
      using that b [of k] by (simp add: bit_ucast_iff)
    ultimately show ?thesis unfolding field_defs by (intro Bits_word) auto
  qed
  show "SImmField w = scast imm"
    unfolding SImmField_def imm [unfolded UImmField_def]
  proof (rule bit_word_eqI)
    fix n assume n: "n < LENGTH(32)"
    show "bit (signed_drop_bit (32 - 16) (push_bit (32 - 16) (ucast imm)) :: u32) n = bit (scast imm :: u32) n"
      using n by (cases "n = 15") (auto simp: bit_simps min_def)
  qed
qed

end
