(* ===== verification/Mips_Simulator.thy ===== *)
theory Mips_Simulator
  imports Mips_Instr "HOL-Library.Signed_Division"
begin

text \<open>
  The simulator of \<^verbatim>\<open>vm/simulator_mips.h\<close> and \<^verbatim>\<open>vm/simulator_mips.cc\<close>, which runs
  generated MIPS code on a 32-bit host: the register file, memory accesses, one definition per
  simulated instruction, the decoders, delay slots and the dispatch loop. A value of type
  \<open>int32_t\<close> or \<open>uint32_t\<close> is a 32-bit word. What ends a simulation (an unimplemented
  instruction, an illegal or unaligned access, a stop in the debugger) is the left alternative of
  the result. A branch in a delay slot, which the code excludes with \<open>ASSERT(!delay_slot_)\<close>,
  is such an end, too.
\<close>

section \<open>State\<close>

record simulator =
  registers :: "nat \<Rightarrow> u32"
  fregisters :: "nat \<Rightarrow> u32"
  fcsr :: u32
  sim_pc :: u32
  hi_reg :: u32
  lo_reg :: u32
  icount :: "64 word"
  delay_slot :: bool
  top_exit_frame_info :: u32
  memory :: "u32 \<Rightarrow> u8"

datatype sim_stop =
    UnimplementedInstruction u32
  | HandleIllegalAccess u32
  | UnalignedAccess u32
  | DebuggerStop u32
  | BranchInDelaySlot

type_synonym sim_result = "sim_stop + simulator"

datatype CallKind = kRuntimeCall | kLeafRuntimeCall | kLeafFloatRuntimeCall | kBootstrapNativeCall | kNativeCall

datatype host_outcome = Returned simulator | Thrown simulator

text \<open>What the simulator uses of its host: double precision arithmetic and conversions on the
  bits of the operands, the redirection record found at the address of a break instruction, and the
  C++ functions that redirections call, and the debugger. A runtime function may also leave through \<open>longjmp\<close>.\<close>

record host =
  d_add :: "64 word \<Rightarrow> 64 word \<Rightarrow> 64 word"
  d_sub :: "64 word \<Rightarrow> 64 word \<Rightarrow> 64 word"
  d_mul :: "64 word \<Rightarrow> 64 word \<Rightarrow> 64 word"
  d_div :: "64 word \<Rightarrow> 64 word \<Rightarrow> 64 word"
  d_sqrt :: "64 word \<Rightarrow> 64 word"
  d_of_int32 :: "u32 \<Rightarrow> 64 word"
  d_of_int64 :: "64 word \<Rightarrow> 64 word"
  d_of_float :: "u32 \<Rightarrow> 64 word"
  d_to_int32 :: "64 word \<Rightarrow> u32"
  d_to_float :: "64 word \<Rightarrow> u32"
  redirection_at :: "u32 \<Rightarrow> CallKind \<times> u32"
  current_stack_pointer :: u32
  runtime_call :: "u32 \<Rightarrow> u32 list \<Rightarrow> simulator \<Rightarrow> host_outcome"
  leaf_call :: "u32 \<Rightarrow> u32 \<Rightarrow> u32 \<Rightarrow> u32 \<Rightarrow> u32 \<Rightarrow> simulator \<Rightarrow> u32 \<times> simulator"
  debugger_stop :: "u32 \<Rightarrow> simulator \<Rightarrow> simulator option"
  leaf_float_call :: "u32 \<Rightarrow> 64 word \<Rightarrow> 64 word \<Rightarrow> simulator \<Rightarrow> 64 word \<times> simulator"

section \<open>Registers\<close>

abbreviation (input) kInstrSize :: u32 where
  "kInstrSize \<equiv> 4"

abbreviation (input) kEndSimulatingPC :: u32 where
  "kEndSimulatingPC \<equiv> - 1"

definition set_register :: "simulator \<Rightarrow> Register \<Rightarrow> u32 \<Rightarrow> simulator" where
  "set_register s reg value =
     (if reg \<noteq> R0 then s\<lparr>registers := (registers s)(reg := value)\<rparr> else s)"

definition get_register :: "simulator \<Rightarrow> Register \<Rightarrow> u32" where
  "get_register s reg = (if reg = R0 then 0 else registers s reg)"

definition set_fregister :: "simulator \<Rightarrow> FRegister \<Rightarrow> u32 \<Rightarrow> simulator" where
  "set_fregister s reg value = s\<lparr>fregisters := (fregisters s)(reg := value)\<rparr>"

definition get_fregister :: "simulator \<Rightarrow> FRegister \<Rightarrow> u32" where
  "get_fregister s reg = fregisters s reg"

definition Low32Bits_w :: "64 word \<Rightarrow> u32" where
  "Low32Bits_w value = ucast value"

definition High32Bits_w :: "64 word \<Rightarrow> u32" where
  "High32Bits_w value = ucast (drop_bit 32 value)"

definition LowHighTo64Bits_w :: "u32 \<Rightarrow> u32 \<Rightarrow> 64 word" where
  "LowHighTo64Bits_w low high = push_bit 32 (ucast high) OR ucast low"

definition set_fregister_long :: "simulator \<Rightarrow> FRegister \<Rightarrow> 64 word \<Rightarrow> simulator" where
  "set_fregister_long s reg value =
     s\<lparr>fregisters := (fregisters s)(reg := Low32Bits_w value, reg + 1 := High32Bits_w value)\<rparr>"

definition get_fregister_long :: "simulator \<Rightarrow> FRegister \<Rightarrow> 64 word" where
  "get_fregister_long s reg = LowHighTo64Bits_w (fregisters s reg) (fregisters s (reg + 1))"

text \<open>A \<open>float\<close> or \<open>double\<close> is its bits, so the accessors that \<open>bit_cast\<close> are the integer ones.\<close>

definition set_fregister_float :: "simulator \<Rightarrow> FRegister \<Rightarrow> u32 \<Rightarrow> simulator" where
  "set_fregister_float s reg value = s\<lparr>fregisters := (fregisters s)(reg := value)\<rparr>"

definition get_fregister_float :: "simulator \<Rightarrow> FRegister \<Rightarrow> u32" where
  "get_fregister_float s reg = fregisters s reg"

definition set_fregister_double :: "simulator \<Rightarrow> FRegister \<Rightarrow> 64 word \<Rightarrow> simulator" where
  "set_fregister_double s reg value = set_fregister_long s reg value"

definition get_fregister_double :: "simulator \<Rightarrow> FRegister \<Rightarrow> 64 word" where
  "get_fregister_double s reg = get_fregister_long s reg"

definition set_dregister_bits :: "simulator \<Rightarrow> DRegister \<Rightarrow> 64 word \<Rightarrow> simulator" where
  "set_dregister_bits s reg value =
     (let lo = reg * 2; hi = reg * 2 + 1
      in set_fregister (set_fregister s lo (Low32Bits_w value)) hi (High32Bits_w value))"

definition set_dregister :: "simulator \<Rightarrow> DRegister \<Rightarrow> 64 word \<Rightarrow> simulator" where
  "set_dregister s reg value = set_dregister_bits s reg value"

definition get_dregister_bits :: "simulator \<Rightarrow> DRegister \<Rightarrow> 64 word" where
  "get_dregister_bits s reg =
     (let lo = reg * 2; hi = reg * 2 + 1
      in LowHighTo64Bits_w (get_fregister s lo) (get_fregister s hi))"

definition get_dregister :: "simulator \<Rightarrow> DRegister \<Rightarrow> 64 word" where
  "get_dregister s reg = get_dregister_bits s reg"

definition get_fcsr_condition_bit :: "u32 \<Rightarrow> u32" where
  "get_fcsr_condition_bit cc = (if cc = 0 then 23 else 24 + cc)"

definition set_fcsr_bit :: "simulator \<Rightarrow> u32 \<Rightarrow> bool \<Rightarrow> simulator" where
  "set_fcsr_bit s cc value =
     (if value then s\<lparr>fcsr := fcsr s OR push_bit (unat cc) 1\<rparr>
      else s\<lparr>fcsr := fcsr s AND NOT (push_bit (unat cc) 1)\<rparr>)"

definition test_fcsr_bit :: "simulator \<Rightarrow> u32 \<Rightarrow> bool" where
  "test_fcsr_bit s cc \<longleftrightarrow> fcsr s AND push_bit (unat cc) 1 \<noteq> 0"

section \<open>Memory\<close>

text \<open>The host is little endian.\<close>

definition IsIllegalAddress :: "u32 \<Rightarrow> bool" where
  "IsIllegalAddress addr \<longleftrightarrow> addr < 64 * 1024"

definition load16 :: "(u32 \<Rightarrow> u8) \<Rightarrow> u32 \<Rightarrow> u16" where
  "load16 m addr = ucast (m addr) OR push_bit 8 (ucast (m (addr + 1)))"

definition load32 :: "(u32 \<Rightarrow> u8) \<Rightarrow> u32 \<Rightarrow> u32" where
  "load32 m addr =
     ucast (m addr) OR push_bit 8 (ucast (m (addr + 1))) OR push_bit 16 (ucast (m (addr + 2)))
       OR push_bit 24 (ucast (m (addr + 3)))"

definition store16 :: "(u32 \<Rightarrow> u8) \<Rightarrow> u32 \<Rightarrow> u16 \<Rightarrow> u32 \<Rightarrow> u8" where
  "store16 m addr v = m(addr := ucast v, addr + 1 := ucast (drop_bit 8 v))"

definition store32 :: "(u32 \<Rightarrow> u8) \<Rightarrow> u32 \<Rightarrow> u32 \<Rightarrow> u32 \<Rightarrow> u8" where
  "store32 m addr v =
     m(addr := ucast v, addr + 1 := ucast (drop_bit 8 v), addr + 2 := ucast (drop_bit 16 v),
       addr + 3 := ucast (drop_bit 24 v))"

definition ReadB :: "simulator \<Rightarrow> u32 \<Rightarrow> u32" where
  "ReadB s addr = scast (memory s addr)"

definition ReadBU :: "simulator \<Rightarrow> u32 \<Rightarrow> u32" where
  "ReadBU s addr = ucast (memory s addr)"

definition ReadH :: "simulator \<Rightarrow> u32 \<Rightarrow> sim_stop + u32" where
  "ReadH s addr = (if addr AND 1 = 0 then Inr (scast (load16 (memory s) addr)) else Inl (UnalignedAccess addr))"

definition ReadHU :: "simulator \<Rightarrow> u32 \<Rightarrow> sim_stop + u32" where
  "ReadHU s addr = (if addr AND 1 = 0 then Inr (ucast (load16 (memory s) addr)) else Inl (UnalignedAccess addr))"

definition ReadW :: "simulator \<Rightarrow> u32 \<Rightarrow> sim_stop + u32" where
  "ReadW s addr = (if addr AND 3 = 0 then Inr (load32 (memory s) addr) else Inl (UnalignedAccess addr))"

definition WriteB :: "simulator \<Rightarrow> u32 \<Rightarrow> u8 \<Rightarrow> simulator" where
  "WriteB s addr value = s\<lparr>memory := (memory s)(addr := value)\<rparr>"

definition WriteH :: "simulator \<Rightarrow> u32 \<Rightarrow> u16 \<Rightarrow> sim_result" where
  "WriteH s addr value =
     (if addr AND 1 = 0 then Inr (s\<lparr>memory := store16 (memory s) addr value\<rparr>) else Inl (UnalignedAccess addr))"

definition WriteW :: "simulator \<Rightarrow> u32 \<Rightarrow> u32 \<Rightarrow> sim_result" where
  "WriteW s addr value =
     (if addr AND 3 = 0 then Inr (s\<lparr>memory := store32 (memory s) addr value\<rparr>) else Inl (UnalignedAccess addr))"

definition ReadD :: "simulator \<Rightarrow> u32 \<Rightarrow> sim_stop + 64 word" where
  "ReadD s addr =
     (if addr AND 7 = 0
      then Inr (LowHighTo64Bits_w (load32 (memory s) addr) (load32 (memory s) (addr + 4)))
      else Inl (UnalignedAccess addr))"

definition WriteD :: "simulator \<Rightarrow> u32 \<Rightarrow> 64 word \<Rightarrow> sim_result" where
  "WriteD s addr value =
     (if addr AND 7 = 0
      then Inr (s\<lparr>memory := store32 (store32 (memory s) addr (Low32Bits_w value)) (addr + 4) (High32Bits_w value)\<rparr>)
      else Inl (UnalignedAccess addr))"

section \<open>Break instructions and redirected calls\<close>

definition zap_registers :: "simulator \<Rightarrow> simulator" where
  "zap_registers s =
     (let ic = (ucast (icount s) :: u32);
          s = foldl (\<lambda>s r. set_register s r ic) s [8, 9, 10, 11, 12, 13, 14, 15, T8, T9];
          s = foldl (\<lambda>s r. set_register s r ic) s [A0, A1, A2, A3, TMP, RA]
      in foldl (\<lambda>s r. set_fregister s r ic) s [4..<19])"

definition zap_results :: "simulator \<Rightarrow> simulator" where
  "zap_results s = set_register (set_register s V0 (ucast (icount s))) V1 (ucast (icount s))"

definition call_redirection :: "host \<Rightarrow> simulator \<Rightarrow> CallKind \<Rightarrow> u32 \<Rightarrow> host_outcome" where
  "call_redirection h s kind external =
     (let s = (if kind \<in> {kRuntimeCall, kBootstrapNativeCall, kNativeCall}
               then s\<lparr>top_exit_frame_info := current_stack_pointer h\<rparr> else s)
      in case kind of
           kRuntimeCall \<Rightarrow>
             (case runtime_call h external
                     [get_register s A0, get_register s A1, get_register s A2, get_register s A3] s of
                Returned s \<Rightarrow> Returned (zap_results s)
              | Thrown s \<Rightarrow> Thrown s)
         | kLeafRuntimeCall \<Rightarrow>
             (case leaf_call h external
                     (get_register s A0) (get_register s A1) (get_register s A2) (get_register s A3) s of
                (a0, s) \<Rightarrow> Returned (set_register (set_register s V0 a0) V1 (ucast (icount s))))
         | kLeafFloatRuntimeCall \<Rightarrow>
             (case leaf_float_call h external (get_fregister_double s 12) (get_fregister_double s 14) s of
                (d0, s) \<Rightarrow> Returned (set_fregister_double s 0 d0))
         | kBootstrapNativeCall \<Rightarrow>
             (case runtime_call h external [get_register s A0] s of
                Returned s \<Rightarrow> Returned (zap_results s)
              | Thrown s \<Rightarrow> Thrown s)
         | kNativeCall \<Rightarrow>
             (case runtime_call h external [get_register s A0, get_register s A1] s of
                Returned s \<Rightarrow> Returned (zap_results s)
              | Thrown s \<Rightarrow> Thrown s))"

text \<open>A break that is not a redirection stops in the debugger, which may change the state or quit.\<close>

definition DoBreak :: "host \<Rightarrow> simulator \<Rightarrow> u32 \<Rightarrow> u32 \<Rightarrow> sim_result" where
  "DoBreak h s at instr =
     (let stop = (\<lambda>s. case debugger_stop h at s of
                    None \<Rightarrow> Inl (DebuggerStop (BreakCodeField instr))
                  | Some s \<Rightarrow> Inr (s\<lparr>sim_pc := sim_pc s - kInstrSize\<rparr>))
      in if BreakCodeField instr = kStopMessageCode then stop (s\<lparr>sim_pc := sim_pc s + kInstrSize\<rparr>)
         else if BreakCodeField instr = kSimulatorRedirectCode then
           (let saved_ra = get_register s RA;
                (kind, external) = redirection_at h at
            in case call_redirection h s kind external of
                 Returned s \<Rightarrow>
                   Inr ((zap_registers (s\<lparr>top_exit_frame_info := 0\<rparr>))\<lparr>sim_pc := saved_ra - kInstrSize\<rparr>)
               | Thrown s \<Rightarrow> Inr (s\<lparr>top_exit_frame_info := 0, sim_pc := sim_pc s - kInstrSize\<rparr>))
         else if BreakCodeField instr = kSimulatorBreakCode then stop s
         else stop (s\<lparr>sim_pc := sim_pc s + kInstrSize\<rparr>))"

section \<open>Instructions of opcode \<open>SPECIAL\<close>\<close>

definition sim_ADDU :: "simulator \<Rightarrow> u32 \<Rightarrow> simulator" where
  "sim_ADDU s instr =
     (let rs_val = get_register s (RsField instr); rt_val = get_register s (RtField instr)
      in set_register s (RdField instr) (rs_val + rt_val))"

definition sim_AND :: "simulator \<Rightarrow> u32 \<Rightarrow> simulator" where
  "sim_AND s instr =
     (let rs_val = get_register s (RsField instr); rt_val = get_register s (RtField instr)
      in set_register s (RdField instr) (rs_val AND rt_val))"

definition sim_DIV :: "simulator \<Rightarrow> u32 \<Rightarrow> simulator" where
  "sim_DIV s instr =
     (let rs_val = get_register s (RsField instr); rt_val = get_register s (RtField instr)
      in if rt_val = 0 then s\<lparr>hi_reg := ucast (icount s), lo_reg := ucast (icount s)\<rparr>
         else if rs_val = 0x80000000 \<and> rt_val = 0xffffffff then s\<lparr>lo_reg := 0x80000000, hi_reg := 0\<rparr>
         else s\<lparr>lo_reg := word_of_int (sint rs_val sdiv sint rt_val),
                hi_reg := word_of_int (sint rs_val smod sint rt_val)\<rparr>)"

definition sim_DIVU :: "simulator \<Rightarrow> u32 \<Rightarrow> simulator" where
  "sim_DIVU s instr =
     (let rs_val = get_register s (RsField instr); rt_val = get_register s (RtField instr)
      in if rt_val = 0 then s\<lparr>hi_reg := ucast (icount s), lo_reg := ucast (icount s)\<rparr>
         else s\<lparr>lo_reg := rs_val div rt_val, hi_reg := rs_val mod rt_val\<rparr>)"

definition sim_MFHI :: "simulator \<Rightarrow> u32 \<Rightarrow> simulator" where
  "sim_MFHI s instr = set_register s (RdField instr) (hi_reg s)"

definition sim_MFLO :: "simulator \<Rightarrow> u32 \<Rightarrow> simulator" where
  "sim_MFLO s instr = set_register s (RdField instr) (lo_reg s)"

definition sim_MOVCI :: "simulator \<Rightarrow> u32 \<Rightarrow> simulator" where
  "sim_MOVCI s instr =
     (let rs_val = get_register s (RsField instr);
          cc = Bits instr 18 3;
          fcsr_cc = get_fcsr_condition_bit cc;
          test = Bit instr 16;
          status = (if test_fcsr_bit s fcsr_cc then 1 else 0)
      in if test = status then set_register s (RdField instr) rs_val else s)"

definition sim_MOVN :: "simulator \<Rightarrow> u32 \<Rightarrow> simulator" where
  "sim_MOVN s instr =
     (let rt_val = get_register s (RtField instr); rs_val = get_register s (RsField instr)
      in if rt_val \<noteq> 0 then set_register s (RdField instr) rs_val else s)"

definition sim_MOVZ :: "simulator \<Rightarrow> u32 \<Rightarrow> simulator" where
  "sim_MOVZ s instr =
     (let rt_val = get_register s (RtField instr); rs_val = get_register s (RsField instr)
      in if rt_val = 0 then set_register s (RdField instr) rs_val else s)"

definition sim_MTHI :: "simulator \<Rightarrow> u32 \<Rightarrow> simulator" where
  "sim_MTHI s instr = s\<lparr>hi_reg := get_register s (RsField instr)\<rparr>"

definition sim_MTLO :: "simulator \<Rightarrow> u32 \<Rightarrow> simulator" where
  "sim_MTLO s instr = s\<lparr>lo_reg := get_register s (RsField instr)\<rparr>"

definition sim_MULT :: "simulator \<Rightarrow> u32 \<Rightarrow> simulator" where
  "sim_MULT s instr =
     (let rs = (scast (get_register s (RsField instr)) :: 64 word);
          rt = scast (get_register s (RtField instr));
          res = rs * rt
      in s\<lparr>hi_reg := High32Bits_w res, lo_reg := Low32Bits_w res\<rparr>)"

definition sim_MULTU :: "simulator \<Rightarrow> u32 \<Rightarrow> simulator" where
  "sim_MULTU s instr =
     (let rs = (ucast (get_register s (RsField instr)) :: 64 word);
          rt = ucast (get_register s (RtField instr));
          res = rs * rt
      in s\<lparr>hi_reg := High32Bits_w res, lo_reg := Low32Bits_w res\<rparr>)"

definition sim_NOR :: "simulator \<Rightarrow> u32 \<Rightarrow> simulator" where
  "sim_NOR s instr =
     (let rs_val = get_register s (RsField instr); rt_val = get_register s (RtField instr)
      in set_register s (RdField instr) (NOT (rs_val OR rt_val)))"

definition sim_OR :: "simulator \<Rightarrow> u32 \<Rightarrow> simulator" where
  "sim_OR s instr =
     (let rs_val = get_register s (RsField instr); rt_val = get_register s (RtField instr)
      in set_register s (RdField instr) (rs_val OR rt_val))"

definition sim_SLL :: "simulator \<Rightarrow> u32 \<Rightarrow> simulator" where
  "sim_SLL s instr =
     (if RdField instr = R0 \<and> RtField instr = R0 \<and> SaField instr = 0 then s
      else set_register s (RdField instr) (push_bit (SaField instr) (get_register s (RtField instr))))"

definition sim_SLLV :: "simulator \<Rightarrow> u32 \<Rightarrow> simulator" where
  "sim_SLLV s instr =
     (let rt_val = get_register s (RtField instr); rs_val = get_register s (RsField instr)
      in set_register s (RdField instr) (push_bit (unat (rs_val AND 0x1f)) rt_val))"

definition sim_SLT :: "simulator \<Rightarrow> u32 \<Rightarrow> simulator" where
  "sim_SLT s instr =
     (let rs_val = get_register s (RsField instr); rt_val = get_register s (RtField instr)
      in set_register s (RdField instr) (if sint rs_val < sint rt_val then 1 else 0))"

definition sim_SLTU :: "simulator \<Rightarrow> u32 \<Rightarrow> simulator" where
  "sim_SLTU s instr =
     (let rs_val = get_register s (RsField instr); rt_val = get_register s (RtField instr)
      in set_register s (RdField instr) (if rs_val < rt_val then 1 else 0))"

definition sim_SRA :: "simulator \<Rightarrow> u32 \<Rightarrow> simulator" where
  "sim_SRA s instr =
     (let rt_val = get_register s (RtField instr); sa = SaField instr
      in set_register s (RdField instr) (signed_drop_bit sa rt_val))"

definition sim_SRAV :: "simulator \<Rightarrow> u32 \<Rightarrow> simulator" where
  "sim_SRAV s instr =
     (let rt_val = get_register s (RtField instr); rs_val = get_register s (RsField instr)
      in set_register s (RdField instr) (signed_drop_bit (unat (rs_val AND 0x1f)) rt_val))"

definition sim_SRL :: "simulator \<Rightarrow> u32 \<Rightarrow> simulator" where
  "sim_SRL s instr =
     (let rt_val = get_register s (RtField instr); sa = SaField instr
      in set_register s (RdField instr) (drop_bit sa rt_val))"

definition sim_SRLV :: "simulator \<Rightarrow> u32 \<Rightarrow> simulator" where
  "sim_SRLV s instr =
     (let rt_val = get_register s (RtField instr); rs_val = get_register s (RsField instr)
      in set_register s (RdField instr) (drop_bit (unat (rs_val AND 0x1f)) rt_val))"

definition sim_SUBU :: "simulator \<Rightarrow> u32 \<Rightarrow> simulator" where
  "sim_SUBU s instr =
     (let rs_val = get_register s (RsField instr); rt_val = get_register s (RtField instr)
      in set_register s (RdField instr) (rs_val - rt_val))"

definition sim_XOR :: "simulator \<Rightarrow> u32 \<Rightarrow> simulator" where
  "sim_XOR s instr =
     (let rs_val = get_register s (RsField instr); rt_val = get_register s (RtField instr)
      in set_register s (RdField instr) (rs_val XOR rt_val))"

text \<open>The jumps run the instruction in their delay slot, with \<open>slot\<close>, before they set the
  program counter. The decoder adds \<open>kInstrSize\<close> to it afterwards.\<close>

definition sim_JALR :: "(simulator \<Rightarrow> sim_result) \<Rightarrow> simulator \<Rightarrow> u32 \<Rightarrow> sim_result" where
  "sim_JALR slot s instr =
     (let s = set_register s (RdField instr) (sim_pc s + 2 * kInstrSize);
          next_pc = get_register s (RsField instr)
      in case slot s of
           Inl e \<Rightarrow> Inl e
         | Inr s \<Rightarrow> Inr (s\<lparr>sim_pc := next_pc - kInstrSize\<rparr>))"

definition sim_JR :: "(simulator \<Rightarrow> sim_result) \<Rightarrow> simulator \<Rightarrow> u32 \<Rightarrow> sim_result" where
  "sim_JR slot s instr =
     (let next_pc = get_register s (RsField instr)
      in case slot s of
           Inl e \<Rightarrow> Inl e
         | Inr s \<Rightarrow> Inr (s\<lparr>sim_pc := next_pc - kInstrSize\<rparr>))"

definition DecodeSpecial :: "host \<Rightarrow> (simulator \<Rightarrow> sim_result) \<Rightarrow> simulator \<Rightarrow> u32 \<Rightarrow> u32 \<Rightarrow> sim_result" where
  "DecodeSpecial h slot s at instr =
     (let f = FunctionField instr
      in if f = ADDU then Inr (sim_ADDU s instr)
         else if f = AND_fn then Inr (sim_AND s instr)
         else if f = BREAK then DoBreak h s at instr
         else if f = DIV then Inr (sim_DIV s instr)
         else if f = DIVU then Inr (sim_DIVU s instr)
         else if f = JALR then sim_JALR slot s instr
         else if f = JR then sim_JR slot s instr
         else if f = MFHI then Inr (sim_MFHI s instr)
         else if f = MFLO then Inr (sim_MFLO s instr)
         else if f = MOVCI then Inr (sim_MOVCI s instr)
         else if f = MOVN then Inr (sim_MOVN s instr)
         else if f = MOVZ then Inr (sim_MOVZ s instr)
         else if f = MTHI then Inr (sim_MTHI s instr)
         else if f = MTLO then Inr (sim_MTLO s instr)
         else if f = MULT then Inr (sim_MULT s instr)
         else if f = MULTU then Inr (sim_MULTU s instr)
         else if f = NOR then Inr (sim_NOR s instr)
         else if f = OR_fn then Inr (sim_OR s instr)
         else if f = SLL then Inr (sim_SLL s instr)
         else if f = SLLV then Inr (sim_SLLV s instr)
         else if f = SLT then Inr (sim_SLT s instr)
         else if f = SLTU then Inr (sim_SLTU s instr)
         else if f = SRA then Inr (sim_SRA s instr)
         else if f = SRAV then Inr (sim_SRAV s instr)
         else if f = SRL then Inr (sim_SRL s instr)
         else if f = SRLV then Inr (sim_SRLV s instr)
         else if f = SUBU then Inr (sim_SUBU s instr)
         else if f = XOR_fn then Inr (sim_XOR s instr)
         else Inl (UnimplementedInstruction instr))"

section \<open>Instructions of opcode \<open>SPECIAL2\<close>\<close>

definition sim_MADD :: "simulator \<Rightarrow> u32 \<Rightarrow> simulator" where
  "sim_MADD s instr =
     (let accum = LowHighTo64Bits_w (lo_reg s) (hi_reg s);
          rs = scast (get_register s (RsField instr));
          rt = scast (get_register s (RtField instr));
          res = accum + rs * rt
      in s\<lparr>hi_reg := High32Bits_w res, lo_reg := Low32Bits_w res\<rparr>)"

definition sim_MADDU :: "simulator \<Rightarrow> u32 \<Rightarrow> simulator" where
  "sim_MADDU s instr =
     (let accum = LowHighTo64Bits_w (lo_reg s) (hi_reg s);
          rs = ucast (get_register s (RsField instr));
          rt = ucast (get_register s (RtField instr));
          res = accum + rs * rt
      in s\<lparr>hi_reg := High32Bits_w res, lo_reg := Low32Bits_w res\<rparr>)"

text \<open>The loops of \<open>CLO\<close> and \<open>CLZ\<close> shift a bit out at every iteration and end after at
  most 32.\<close>

fun CLO_loop :: "nat \<Rightarrow> u32 \<Rightarrow> u32 \<Rightarrow> u32" where
  "CLO_loop 0 rs_val bitcount = bitcount"
| "CLO_loop (Suc fuel) rs_val bitcount =
     (if sint rs_val < 0 then CLO_loop fuel (push_bit 1 rs_val) (bitcount + 1) else bitcount)"

definition sim_CLO :: "simulator \<Rightarrow> u32 \<Rightarrow> simulator" where
  "sim_CLO s instr =
     set_register s (RdField instr) (CLO_loop 32 (get_register s (RsField instr)) 0)"

fun CLZ_loop :: "nat \<Rightarrow> u32 \<Rightarrow> u32 \<Rightarrow> u32" where
  "CLZ_loop 0 rs_val bitcount = bitcount"
| "CLZ_loop (Suc fuel) rs_val bitcount =
     (if sint rs_val > 0 then CLZ_loop fuel (push_bit 1 rs_val) (bitcount + 1) else bitcount)"

definition sim_CLZ :: "simulator \<Rightarrow> u32 \<Rightarrow> simulator" where
  "sim_CLZ s instr =
     (let rs_val = get_register s (RsField instr);
          bitcount = (if rs_val \<noteq> 0 then CLZ_loop 32 rs_val 0 else 32)
      in set_register s (RdField instr) bitcount)"

definition DecodeSpecial2 :: "simulator \<Rightarrow> u32 \<Rightarrow> sim_result" where
  "DecodeSpecial2 s instr =
     (let f = FunctionField instr
      in if f = MADD then Inr (sim_MADD s instr)
         else if f = MADDU then Inr (sim_MADDU s instr)
         else if f = CLO then Inr (sim_CLO s instr)
         else if f = CLZ then Inr (sim_CLZ s instr)
         else Inl (UnimplementedInstruction instr))"

section \<open>Branches\<close>

definition DoBranch :: "(simulator \<Rightarrow> sim_result) \<Rightarrow> simulator \<Rightarrow> u32 \<Rightarrow> bool \<Rightarrow> bool \<Rightarrow> sim_result" where
  "DoBranch slot s instr taken likely =
     (let imm_val = push_bit 2 (SImmField instr);
          next_pc = (if taken then sim_pc s + imm_val + kInstrSize else sim_pc s + 2 * kInstrSize);
          r1 = (if taken \<and> likely then slot s else Inr s);
          r2 = (case r1 of Inl e \<Rightarrow> Inl e | Inr s \<Rightarrow> if \<not> likely then slot s else Inr s)
      in case r2 of Inl e \<Rightarrow> Inl e | Inr s \<Rightarrow> Inr (s\<lparr>sim_pc := next_pc - kInstrSize\<rparr>))"

definition DecodeRegImm :: "(simulator \<Rightarrow> sim_result) \<Rightarrow> simulator \<Rightarrow> u32 \<Rightarrow> sim_result" where
  "DecodeRegImm slot s instr =
     (let f = RegImmFnField instr;
          rs_val = sint (get_register s (RsField instr));
          link = set_register s RA (sim_pc s + 2 * kInstrSize)
      in if f = BGEZ then DoBranch slot s instr (rs_val \<ge> 0) False
         else if f = BGEZAL then DoBranch slot link instr (rs_val \<ge> 0) False
         else if f = BLTZAL then DoBranch slot link instr (rs_val < 0) False
         else if f = BGEZL then DoBranch slot s instr (rs_val \<ge> 0) True
         else if f = BLTZ then DoBranch slot s instr (rs_val < 0) False
         else if f = BLTZL then DoBranch slot s instr (rs_val < 0) True
         else Inl (UnimplementedInstruction instr))"

section \<open>The floating point coprocessor\<close>

text \<open>Tests and comparisons of \<open>double\<close> values on their bits.\<close>

definition d_isnan :: "64 word \<Rightarrow> bool" where
  "d_isnan x \<longleftrightarrow> take_bit 63 x > 0x7ff0000000000000"

definition d_isinf :: "64 word \<Rightarrow> bool" where
  "d_isinf x \<longleftrightarrow> take_bit 63 x = 0x7ff0000000000000"

definition d_key :: "64 word \<Rightarrow> int" where
  "d_key x = (if bit x 63 then - uint (take_bit 63 x) else uint (take_bit 63 x))"

definition d_eq :: "64 word \<Rightarrow> 64 word \<Rightarrow> bool" where
  "d_eq x y \<longleftrightarrow> \<not> d_isnan x \<and> \<not> d_isnan y \<and> d_key x = d_key y"

definition d_less :: "64 word \<Rightarrow> 64 word \<Rightarrow> bool" where
  "d_less x y \<longleftrightarrow> \<not> d_isnan x \<and> \<not> d_isnan y \<and> d_key x < d_key y"

definition d_le :: "64 word \<Rightarrow> 64 word \<Rightarrow> bool" where
  "d_le x y \<longleftrightarrow> \<not> d_isnan x \<and> \<not> d_isnan y \<and> d_key x \<le> d_key y"

definition DecodeCop1_CVT_D :: "host \<Rightarrow> simulator \<Rightarrow> u32 \<Rightarrow> sim_result" where
  "DecodeCop1_CVT_D h s instr =
     (if FormatField instr = FMT_W then
        Inr (set_fregister_double s (FdField instr) (d_of_int32 h (get_fregister s (FsField instr))))
      else if FormatField instr = FMT_S then
        Inr (set_fregister_double s (FdField instr) (d_of_float h (get_fregister_float s (FsField instr))))
      else if FormatField instr = FMT_L then
        Inr (set_fregister_double s (FdField instr) (d_of_int64 h (get_fregister_long s (FsField instr))))
      else Inl (UnimplementedInstruction instr))"

definition DecodeCop1_CVT_W :: "host \<Rightarrow> simulator \<Rightarrow> u32 \<Rightarrow> sim_result" where
  "DecodeCop1_CVT_W h s instr =
     (if FormatField instr = FMT_D then
        (let fs_dbl = get_fregister_double s (FsField instr);
             fs_int = (if d_isnan fs_dbl \<or> d_isinf fs_dbl \<or> d_less (d_of_int32 h 0x7fffffff) fs_dbl
                          \<or> d_less fs_dbl (d_of_int32 h 0x80000000)
                       then 0x80000000 else d_to_int32 h fs_dbl)
         in Inr (set_fregister s (FdField instr) fs_int))
      else Inl (UnimplementedInstruction instr))"

definition DecodeCop1_CVT_S :: "host \<Rightarrow> simulator \<Rightarrow> u32 \<Rightarrow> sim_result" where
  "DecodeCop1_CVT_S h s instr =
     (if FormatField instr = FMT_D then
        Inr (set_fregister_float s (FdField instr) (d_to_float h (get_fregister_double s (FsField instr))))
      else Inl (UnimplementedInstruction instr))"

definition DecodeCop1_format :: "host \<Rightarrow> simulator \<Rightarrow> u32 \<Rightarrow> sim_result" where
  "DecodeCop1_format h s instr =
     (let fs_val = get_fregister_double s (FsField instr);
          ft_val = get_fregister_double s (FtField instr);
          fcsr_cc = get_fcsr_condition_bit (FpuCCField instr);
          f = Cop1FunctionField instr;
          unordered = (d_isnan fs_val \<or> d_isnan ft_val)
      in if f = COP1_ADD then Inr (set_fregister_double s (FdField instr) (d_add h fs_val ft_val))
         else if f = COP1_SUB then Inr (set_fregister_double s (FdField instr) (d_sub h fs_val ft_val))
         else if f = COP1_MUL then Inr (set_fregister_double s (FdField instr) (d_mul h fs_val ft_val))
         else if f = COP1_DIV then Inr (set_fregister_double s (FdField instr) (d_div h fs_val ft_val))
         else if f = COP1_SQRT then Inr (set_fregister_double s (FdField instr) (d_sqrt h fs_val))
         else if f = COP1_MOV then Inr (set_fregister_double s (FdField instr) fs_val)
         else if f = COP1_C_F then Inr (set_fcsr_bit s fcsr_cc False)
         else if f = COP1_C_UN then Inr (set_fcsr_bit s fcsr_cc unordered)
         else if f = COP1_C_EQ then Inr (set_fcsr_bit s fcsr_cc (d_eq fs_val ft_val))
         else if f = COP1_C_UEQ then Inr (set_fcsr_bit s fcsr_cc (d_eq fs_val ft_val \<or> unordered))
         else if f = COP1_C_OLT then Inr (set_fcsr_bit s fcsr_cc (d_less fs_val ft_val))
         else if f = COP1_C_ULT then Inr (set_fcsr_bit s fcsr_cc (d_less fs_val ft_val \<or> unordered))
         else if f = COP1_C_OLE then Inr (set_fcsr_bit s fcsr_cc (d_le fs_val ft_val))
         else if f = COP1_C_ULE then Inr (set_fcsr_bit s fcsr_cc (d_le fs_val ft_val \<or> unordered))
         else if f = COP1_CVT_D then DecodeCop1_CVT_D h s instr
         else if f = COP1_CVT_W then DecodeCop1_CVT_W h s instr
         else if f = COP1_CVT_S then DecodeCop1_CVT_S h s instr
         else Inl (UnimplementedInstruction instr))"

definition DecodeCop1 :: "host \<Rightarrow> (simulator \<Rightarrow> sim_result) \<Rightarrow> simulator \<Rightarrow> u32 \<Rightarrow> sim_result" where
  "DecodeCop1 h slot s instr =
     (if HasFormat instr then DecodeCop1_format h s instr
      else
        (let f = Cop1SubField instr
         in if f = COP1_MF then Inr (set_register s (RtField instr) (get_fregister s (FsField instr)))
            else if f = COP1_MT then Inr (set_fregister s (FsField instr) (get_register s (RtField instr)))
            else if f = COP1_BC then
              (let fcsr_cc = get_fcsr_condition_bit (Bits instr 18 3)
               in if Bit instr 16 = 1 then DoBranch slot s instr (test_fcsr_bit s fcsr_cc) False
                  else DoBranch slot s instr (\<not> test_fcsr_bit s fcsr_cc) False)
            else Inl (UnimplementedInstruction instr)))"

section \<open>Loads, stores and immediate instructions\<close>

definition effective_address :: "simulator \<Rightarrow> u32 \<Rightarrow> u32" where
  "effective_address s instr = get_register s (RsField instr) + SImmField instr"

definition sim_ADDIU :: "simulator \<Rightarrow> u32 \<Rightarrow> simulator" where
  "sim_ADDIU s instr =
     (let rs_val = get_register s (RsField instr); imm_val = SImmField instr; res = rs_val + imm_val
      in set_register s (RtField instr) res)"

definition sim_ANDI :: "simulator \<Rightarrow> u32 \<Rightarrow> simulator" where
  "sim_ANDI s instr =
     (let rs_val = get_register s (RsField instr)
      in set_register s (RtField instr) (rs_val AND UImmField instr))"

definition sim_LB :: "simulator \<Rightarrow> u32 \<Rightarrow> sim_result" where
  "sim_LB s instr =
     (let addr = effective_address s instr
      in if IsIllegalAddress addr then Inl (HandleIllegalAccess addr)
         else Inr (set_register s (RtField instr) (ReadB s addr)))"

definition sim_LBU :: "simulator \<Rightarrow> u32 \<Rightarrow> sim_result" where
  "sim_LBU s instr =
     (let addr = effective_address s instr
      in if IsIllegalAddress addr then Inl (HandleIllegalAccess addr)
         else Inr (set_register s (RtField instr) (ReadBU s addr)))"

definition sim_LDC1 :: "simulator \<Rightarrow> u32 \<Rightarrow> sim_result" where
  "sim_LDC1 s instr =
     (let addr = effective_address s instr
      in if IsIllegalAddress addr then Inl (HandleIllegalAccess addr)
         else map_sum id (\<lambda>value. set_fregister_double s (FtField instr) value) (ReadD s addr))"

definition sim_LH :: "simulator \<Rightarrow> u32 \<Rightarrow> sim_result" where
  "sim_LH s instr =
     (let addr = effective_address s instr
      in if IsIllegalAddress addr then Inl (HandleIllegalAccess addr)
         else map_sum id (\<lambda>res. set_register s (RtField instr) res) (ReadH s addr))"

definition sim_LHU :: "simulator \<Rightarrow> u32 \<Rightarrow> sim_result" where
  "sim_LHU s instr =
     (let addr = effective_address s instr
      in if IsIllegalAddress addr then Inl (HandleIllegalAccess addr)
         else map_sum id (\<lambda>res. set_register s (RtField instr) res) (ReadHU s addr))"

definition sim_LUI :: "simulator \<Rightarrow> u32 \<Rightarrow> simulator" where
  "sim_LUI s instr = set_register s (RtField instr) (push_bit 16 (UImmField instr))"

definition sim_LW :: "simulator \<Rightarrow> u32 \<Rightarrow> sim_result" where
  "sim_LW s instr =
     (let addr = effective_address s instr
      in if IsIllegalAddress addr then Inl (HandleIllegalAccess addr)
         else map_sum id (\<lambda>res. set_register s (RtField instr) res) (ReadW s addr))"

definition sim_LWC1 :: "simulator \<Rightarrow> u32 \<Rightarrow> sim_result" where
  "sim_LWC1 s instr =
     (let addr = effective_address s instr
      in if IsIllegalAddress addr then Inl (HandleIllegalAccess addr)
         else map_sum id (\<lambda>value. set_fregister s (FtField instr) value) (ReadW s addr))"

definition sim_ORI :: "simulator \<Rightarrow> u32 \<Rightarrow> simulator" where
  "sim_ORI s instr =
     (let rs_val = get_register s (RsField instr)
      in set_register s (RtField instr) (rs_val OR UImmField instr))"

definition sim_SB :: "simulator \<Rightarrow> u32 \<Rightarrow> sim_result" where
  "sim_SB s instr =
     (let rt_val = get_register s (RtField instr); addr = effective_address s instr
      in if IsIllegalAddress addr then Inl (HandleIllegalAccess addr)
         else Inr (WriteB s addr (ucast (rt_val AND 0xff))))"

definition sim_SLTI :: "simulator \<Rightarrow> u32 \<Rightarrow> simulator" where
  "sim_SLTI s instr =
     (let rs_val = get_register s (RsField instr); imm_val = SImmField instr
      in set_register s (RtField instr) (if sint rs_val < sint imm_val then 1 else 0))"

definition sim_SLTIU :: "simulator \<Rightarrow> u32 \<Rightarrow> simulator" where
  "sim_SLTIU s instr =
     (let rs_val = get_register s (RsField instr); immu_val = SImmField instr
      in set_register s (RtField instr) (if rs_val < immu_val then 1 else 0))"

definition sim_SDC1 :: "simulator \<Rightarrow> u32 \<Rightarrow> sim_result" where
  "sim_SDC1 s instr =
     (let addr = effective_address s instr
      in if IsIllegalAddress addr then Inl (HandleIllegalAccess addr)
         else WriteD s addr (get_fregister_double s (FtField instr)))"

definition sim_SH :: "simulator \<Rightarrow> u32 \<Rightarrow> sim_result" where
  "sim_SH s instr =
     (let rt_val = get_register s (RtField instr); addr = effective_address s instr
      in if IsIllegalAddress addr then Inl (HandleIllegalAccess addr)
         else WriteH s addr (ucast (rt_val AND 0xffff)))"

definition sim_SW :: "simulator \<Rightarrow> u32 \<Rightarrow> sim_result" where
  "sim_SW s instr =
     (let rt_val = get_register s (RtField instr); addr = effective_address s instr
      in if IsIllegalAddress addr then Inl (HandleIllegalAccess addr)
         else WriteW s addr rt_val)"

definition sim_SWC1 :: "simulator \<Rightarrow> u32 \<Rightarrow> sim_result" where
  "sim_SWC1 s instr =
     (let addr = effective_address s instr
      in if IsIllegalAddress addr then Inl (HandleIllegalAccess addr)
         else WriteW s addr (get_fregister s (FtField instr)))"

definition sim_XORI :: "simulator \<Rightarrow> u32 \<Rightarrow> simulator" where
  "sim_XORI s instr =
     (let rs_val = get_register s (RsField instr)
      in set_register s (RtField instr) (rs_val XOR UImmField instr))"

section \<open>Decoding and execution\<close>

definition Decode_branches :: "(simulator \<Rightarrow> sim_result) \<Rightarrow> simulator \<Rightarrow> u32 \<Rightarrow> sim_result" where
  "Decode_branches slot s instr =
     (let op = OpcodeField instr;
          rs_val = get_register s (RsField instr); rt_val = get_register s (RtField instr)
      in if op = BEQ then DoBranch slot s instr (rs_val = rt_val) False
         else if op = BEQL then DoBranch slot s instr (rs_val = rt_val) True
         else if op = BGTZ then DoBranch slot s instr (sint rs_val > 0) False
         else if op = BGTZL then DoBranch slot s instr (sint rs_val > 0) True
         else if op = BLEZ then DoBranch slot s instr (sint rs_val \<le> 0) False
         else if op = BLEZL then DoBranch slot s instr (sint rs_val \<le> 0) True
         else if op = BNE then DoBranch slot s instr (rs_val \<noteq> rt_val) False
         else if op = BNEL then DoBranch slot s instr (rs_val \<noteq> rt_val) True
         else Inl (UnimplementedInstruction instr))"

definition Decode_rest :: "(simulator \<Rightarrow> sim_result) \<Rightarrow> simulator \<Rightarrow> u32 \<Rightarrow> sim_result" where
  "Decode_rest slot s instr =
     (let op = OpcodeField instr
      in if op = ADDIU then Inr (sim_ADDIU s instr)
         else if op = ANDI then Inr (sim_ANDI s instr)
         else if op = LB then sim_LB s instr
         else if op = LBU then sim_LBU s instr
         else if op = LDC1 then sim_LDC1 s instr
         else if op = LH then sim_LH s instr
         else if op = LHU then sim_LHU s instr
         else if op = LUI then Inr (sim_LUI s instr)
         else if op = LW then sim_LW s instr
         else if op = LWC1 then sim_LWC1 s instr
         else if op = ORI then Inr (sim_ORI s instr)
         else if op = SB then sim_SB s instr
         else if op = SLTI then Inr (sim_SLTI s instr)
         else if op = SLTIU then Inr (sim_SLTIU s instr)
         else if op = SDC1 then sim_SDC1 s instr
         else if op = SH then sim_SH s instr
         else if op = SW then sim_SW s instr
         else if op = SWC1 then sim_SWC1 s instr
         else if op = XORI then Inr (sim_XORI s instr)
         else Decode_branches slot s instr)"

definition InstructionDecode :: "host \<Rightarrow> (simulator \<Rightarrow> sim_result) \<Rightarrow> simulator \<Rightarrow> u32 \<Rightarrow> u32 \<Rightarrow> sim_result" where
  "InstructionDecode h slot s at instr =
     (let op = OpcodeField instr;
          r = (if op = SPECIAL then DecodeSpecial h slot s at instr
               else if op = SPECIAL2 then DecodeSpecial2 s instr
               else if op = REGIMM then DecodeRegImm slot s instr
               else if op = COP1 then DecodeCop1 h slot s instr
               else Decode_rest slot s instr)
      in map_sum id (\<lambda>s. s\<lparr>sim_pc := sim_pc s + kInstrSize\<rparr>) r)"

definition ExecuteDelaySlot :: "host \<Rightarrow> simulator \<Rightarrow> sim_result" where
  "ExecuteDelaySlot h s =
     (let s = s\<lparr>delay_slot := True, icount := icount s + 1\<rparr>;
          at = sim_pc s + kInstrSize
      in map_sum id (\<lambda>s. s\<lparr>delay_slot := False\<rparr>)
           (InstructionDecode h (\<lambda>s. Inl BranchInDelaySlot) s at (load32 (memory s) at)))"

text \<open>One iteration of the dispatch loop, and the loop.\<close>

definition Execute_step :: "host \<Rightarrow> simulator \<Rightarrow> sim_result" where
  "Execute_step h s =
     (let s = s\<lparr>icount := icount s + 1\<rparr>; at = sim_pc s
      in if IsIllegalAddress at then Inl (HandleIllegalAccess at)
         else InstructionDecode h (ExecuteDelaySlot h) s at (load32 (memory s) at))"

partial_function (option) Execute :: "host \<Rightarrow> simulator \<Rightarrow> sim_result option" where
  "Execute h s =
     (if sim_pc s \<noteq> kEndSimulatingPC then
        (case Execute_step h s of Inl e \<Rightarrow> Some (Inl e) | Inr s \<Rightarrow> Execute h s)
      else Some (Inr s))"

end
