(* ===== verification/Mips_Memory.thy ===== *)
theory Mips_Memory
  imports Mips_Simulator
begin

text \<open>
  Words in the byte memory of the simulator: a store is read back, does not disturb a word elsewhere, and
  code written to memory is found there by instruction fetch.
\<close>

lemma word_of_bytes:
  "ucast (ucast v :: u8) OR push_bit 8 (ucast (ucast (drop_bit 8 v) :: u8)) OR
     push_bit 16 (ucast (ucast (drop_bit 16 v) :: u8)) OR push_bit 24 (ucast (ucast (drop_bit 24 v) :: u8)) = (v :: u32)"
  (is "?w = v")
proof (rule bit_word_eqI)
  fix n assume "n < LENGTH(32)"
  then consider "n < 8" | "8 \<le> n" "n < 16" | "16 \<le> n" "n < 24" | "24 \<le> n" "n < 32" by fastforce
  then show "bit ?w n = bit v n" by cases (auto simp: bit_simps)
qed

lemma load32_store32 [simp]: "load32 (store32 m a v) a = v"
proof -
  have d: "a + 1 \<noteq> a" "a + 2 \<noteq> a" "a + 3 \<noteq> a" "a + 1 \<noteq> a + 2" "a + 1 \<noteq> a + 3" "a + 2 \<noteq> a + 3" by simp_all
  then show ?thesis by (simp add: load32_def store32_def word_of_bytes)
qed

definition word_apart :: "u32 \<Rightarrow> u32 \<Rightarrow> bool" where
  "word_apart a b \<longleftrightarrow> 4 \<le> b - a \<and> 4 \<le> a - b"

lemma minus_ge_4:
  fixes w :: u32
  assumes "0 < unat w" "unat w + 4 \<le> 2 ^ 32"
  shows "4 \<le> - w"
proof -
  have n: "uint w = int (unat w)" by simp
  have "unat w \<le> 4294967292" using assms(2) by simp
  then have b: "0 < uint w" "uint w \<le> 4294967292" unfolding n using assms(1) by linarith+
  have "uint (- w) = (- uint w) mod 2 ^ 32" by (simp add: uint_word_ariths)
  also have "\<dots> = (- uint w + 2 ^ 32) mod 2 ^ 32" by (simp only: mod_add_self2)
  also have "\<dots> = 2 ^ 32 - uint w" using b by (subst mod_pos_pos_trivial) auto
  finally show ?thesis using b by (simp add: word_le_def)
qed

lemma word_apart_bytes:
  assumes "word_apart a b" "i \<in> {0, 1, 2, 3}" "j \<in> {0, 1, 2, 3}"
  shows "b + j \<noteq> a + i"
proof
  assume "b + j = a + i"
  then have e: "b - a = i - j" "a - b = j - i" by (simp_all add: algebra_simps)
  have "\<not> (4 \<le> i - j \<and> 4 \<le> j - i)" using assms(2,3) by (auto simp: word_le_nat_alt)
  then show False using assms(1) e by (simp add: word_apart_def)
qed

lemma load32_store32_other [simp]:
  assumes "word_apart a b"
  shows "load32 (store32 m a v) b = load32 m b"
  using word_apart_bytes [OF assms, of 0 0] word_apart_bytes [OF assms, of 1 0] word_apart_bytes [OF assms, of 2 0]
    word_apart_bytes [OF assms, of 3 0] word_apart_bytes [OF assms, of 0 1] word_apart_bytes [OF assms, of 1 1]
    word_apart_bytes [OF assms, of 2 1] word_apart_bytes [OF assms, of 3 1] word_apart_bytes [OF assms, of 0 2]
    word_apart_bytes [OF assms, of 1 2] word_apart_bytes [OF assms, of 2 2] word_apart_bytes [OF assms, of 3 2]
    word_apart_bytes [OF assms, of 0 3] word_apart_bytes [OF assms, of 1 3] word_apart_bytes [OF assms, of 2 3]
    word_apart_bytes [OF assms, of 3 3]
  by (simp add: load32_def store32_def)

section \<open>Code in memory\<close>

definition code_at :: "(u32 \<Rightarrow> u8) \<Rightarrow> u32 \<Rightarrow> u32 list \<Rightarrow> bool" where
  "code_at m addr ws \<longleftrightarrow>
     (\<forall>i < length ws. load32 m (addr + 4 * of_nat i) = ws ! i \<and> \<not> IsIllegalAddress (addr + 4 * of_nat i))"

lemma code_at_Nil [simp]: "code_at m addr []"
  by (simp add: code_at_def)

lemma code_at_Cons [simp]:
  "code_at m addr (w # ws) \<longleftrightarrow> load32 m addr = w \<and> \<not> IsIllegalAddress addr \<and> code_at m (addr + 4) ws"
  by (auto simp: code_at_def All_less_Suc2 algebra_simps)

lemma code_at_append [simp]:
  "code_at m addr (ws @ vs) \<longleftrightarrow> code_at m addr ws \<and> code_at m (addr + 4 * of_nat (length ws)) vs"
  by (induction ws arbitrary: addr) (auto simp: algebra_simps)

fun write_code :: "(u32 \<Rightarrow> u8) \<Rightarrow> u32 \<Rightarrow> u32 list \<Rightarrow> u32 \<Rightarrow> u8" where
  "write_code m addr [] = m"
| "write_code m addr (w # ws) = store32 (write_code m (addr + 4) ws) addr w"

lemma code_at_store_before:
  assumes "code_at m (addr + 4) ws" "unat addr + 4 * Suc (length ws) \<le> 2 ^ 32"
  shows "code_at (store32 m addr w) (addr + 4) ws"
  unfolding code_at_def
proof (intro allI impI)
  fix i assume i: "i < length ws"
  have "word_apart addr (addr + 4 + 4 * of_nat i)"
  proof -
    let ?d = "4 + 4 * i"
    have e: "addr + 4 + 4 * of_nat i - addr = (of_nat ?d :: u32)" "addr - (addr + 4 + 4 * of_nat i) = (- of_nat ?d :: u32)"
      by simp_all
    have b: "?d + 4 \<le> 2 ^ 32" using i assms(2) by simp
    have u: "unat (of_nat ?d :: u32) = ?d" using b by (simp only: unat_of_nat) simp
    have "4 \<le> (of_nat ?d :: u32)" unfolding word_le_nat_alt u by simp
    moreover have "4 \<le> (- of_nat ?d :: u32)"
      using minus_ge_4 [of "of_nat ?d"] b unfolding u by simp
    ultimately show ?thesis unfolding word_apart_def e by simp
  qed
  then show "load32 (store32 m addr w) (addr + 4 + 4 * of_nat i) = ws ! i \<and> \<not> IsIllegalAddress (addr + 4 + 4 * of_nat i)"
    using assms(1) i by (simp add: code_at_def)
qed

lemma code_at_write_code:
  assumes "\<not> IsIllegalAddress addr" "unat addr + 4 * length ws \<le> 2 ^ 32 - 4"
  shows "code_at (write_code m addr ws) addr ws"
  using assms
proof (induction ws arbitrary: addr)
  case Nil
  then show ?case by simp
next
  case (Cons w ws)
  have u: "unat (addr + 4) = unat addr + 4"
    using Cons.prems(2) by (simp add: unat_word_ariths)
  have l: "\<not> IsIllegalAddress (addr + 4)"
    using Cons.prems(1) u by (simp add: IsIllegalAddress_def word_less_nat_alt)
  have "code_at (write_code m (addr + 4) ws) (addr + 4) ws"
    using Cons.IH [OF l] Cons.prems(2) u by simp
  then show ?case
    using Cons.prems by (simp add: code_at_store_before)
qed

end
