(* ===== verification/Mips_Assembler.thy ===== *)
theory Mips_Assembler
  imports Mips_Instr Dart_Utils
begin

text \<open>
  The assembler of \<^verbatim>\<open>vm/assembler_mips.h\<close> and \<^verbatim>\<open>vm/assembler_mips.cc\<close>: the
  instruction emitters, labels and branches, near and far, and the macro instructions built from
  them. The buffer of \<^verbatim>\<open>vm/assembler.h\<close> is the list of the 32-bit words emitted so far;
  positions are byte offsets, always multiples of 4. An \<open>int32_t\<close> that is an operand of an
  instruction is a 32-bit word, a position or a branch offset is an \<open>int\<close>.
\<close>

section \<open>The assembler\<close>

record assembler =
  buffer :: "u32 list"
  prologue_offset :: int
  use_far_branches :: bool
  delay_slot_available :: bool
  in_delay_slot :: bool
  fixups :: "int list"

definition Assembler_new :: "bool \<Rightarrow> assembler" where
  "Assembler_new far =
     \<lparr>buffer = [], prologue_offset = - 1, use_far_branches = far, delay_slot_available = False,
      in_delay_slot = False, fixups = []\<rparr>"

definition CodeSize :: "assembler \<Rightarrow> int" where
  "CodeSize a = 4 * int (length (buffer a))"

definition buffer_Load :: "assembler \<Rightarrow> int \<Rightarrow> u32" where
  "buffer_Load a position = buffer a ! nat (position div 4)"

definition buffer_Store :: "assembler \<Rightarrow> int \<Rightarrow> u32 \<Rightarrow> assembler" where
  "buffer_Store a position value = a\<lparr>buffer := (buffer a)[nat (position div 4) := value]\<rparr>"

definition EmitFixup :: "assembler \<Rightarrow> assembler" where
  "EmitFixup a = a\<lparr>fixups := CodeSize a # fixups a\<rparr>"

definition SetPrologueOffset :: "assembler \<Rightarrow> assembler" where
  "SetPrologueOffset a = (if prologue_offset a = - 1 then a\<lparr>prologue_offset := CodeSize a\<rparr> else a)"

text \<open>\<open>delay_slot()\<close> drops the nop emitted after a branch, so that the next instruction takes
  its place.\<close>

definition asm_delay_slot :: "assembler \<Rightarrow> assembler" where
  "asm_delay_slot a =
     a\<lparr>buffer := butlast (buffer a), delay_slot_available := False, in_delay_slot := True\<rparr>"

record Address =
  addr_base :: Register
  addr_offset :: u32

definition Address_encoding :: "Address \<Rightarrow> u32" where
  "Address_encoding addr =
     (let imm_value = (ucast (addr_offset addr) :: u16) in push_bit 21 (of_nat (addr_base addr)) OR ucast imm_value)"

definition CanHoldOffset :: "u32 \<Rightarrow> bool" where
  "CanHoldOffset off \<longleftrightarrow> IsInt 16 (sint off)"

definition Addr :: "Register \<Rightarrow> u32 \<Rightarrow> Address" where
  "Addr b off = \<lparr>addr_base = b, addr_offset = off\<rparr>"

definition kHeapObjectTag :: u32 where
  "kHeapObjectTag = 1"

definition FieldAddress :: "Register \<Rightarrow> u32 \<Rightarrow> Address" where
  "FieldAddress b disp = Addr b (disp - kHeapObjectTag)"

section \<open>Emitting instructions\<close>

definition Emit :: "assembler \<Rightarrow> u32 \<Rightarrow> assembler" where
  "Emit a value = a\<lparr>in_delay_slot := False, delay_slot_available := False, buffer := buffer a @ [value]\<rparr>"

definition EmitIType :: "assembler \<Rightarrow> u32 \<Rightarrow> Register \<Rightarrow> Register \<Rightarrow> u16 \<Rightarrow> assembler" where
  "EmitIType a opcode rs rt imm = Emit a (IType_word opcode rs rt imm)"

definition EmitLoadStore :: "assembler \<Rightarrow> u32 \<Rightarrow> Register \<Rightarrow> Address \<Rightarrow> assembler" where
  "EmitLoadStore a opcode rt addr =
     Emit a (push_bit 26 opcode OR push_bit 16 (of_nat rt) OR Address_encoding addr)"

definition EmitFpuLoadStore :: "assembler \<Rightarrow> u32 \<Rightarrow> FRegister \<Rightarrow> Address \<Rightarrow> assembler" where
  "EmitFpuLoadStore a opcode ft addr =
     Emit a (push_bit 26 opcode OR push_bit 16 (of_nat ft) OR Address_encoding addr)"

definition EmitRegImmType :: "assembler \<Rightarrow> u32 \<Rightarrow> Register \<Rightarrow> u32 \<Rightarrow> u16 \<Rightarrow> assembler" where
  "EmitRegImmType a opcode rs code imm =
     Emit a (push_bit 26 opcode OR push_bit 21 (of_nat rs) OR push_bit 16 code OR ucast imm)"

definition EmitRType :: "assembler \<Rightarrow> u32 \<Rightarrow> Register \<Rightarrow> Register \<Rightarrow> Register \<Rightarrow> nat \<Rightarrow> u32 \<Rightarrow> assembler" where
  "EmitRType a opcode rs rt rd sa func = Emit a (RType_word opcode rs rt rd sa func)"

definition EmitFpuRType :: "assembler \<Rightarrow> u32 \<Rightarrow> u32 \<Rightarrow> FRegister \<Rightarrow> FRegister \<Rightarrow> FRegister \<Rightarrow> u32 \<Rightarrow> assembler" where
  "EmitFpuRType a opcode fmt ft fs fd func =
     Emit a (push_bit 26 opcode OR push_bit 21 fmt OR push_bit 16 (of_nat ft) OR push_bit 11 (of_nat fs)
       OR push_bit 6 (of_nat fd) OR func)"

definition EmitBranchDelayNop :: "assembler \<Rightarrow> assembler" where
  "EmitBranchDelayNop a = (Emit a kNopInstruction)\<lparr>delay_slot_available := True\<rparr>"

definition asm_addd :: "assembler \<Rightarrow> DRegister \<Rightarrow> DRegister \<Rightarrow> DRegister \<Rightarrow> assembler" where
  "asm_addd a dd ds dt = EmitFpuRType a COP1 FMT_D (dt * 2) (ds * 2) (dd * 2) COP1_ADD"

definition asm_addiu :: "assembler \<Rightarrow> Register \<Rightarrow> Register \<Rightarrow> u32 \<Rightarrow> assembler" where
  "asm_addiu a rt rs imm = EmitIType a ADDIU rs rt (ucast imm)"

definition asm_addu :: "assembler \<Rightarrow> Register \<Rightarrow> Register \<Rightarrow> Register \<Rightarrow> assembler" where
  "asm_addu a rd rs rt = EmitRType a SPECIAL rs rt rd 0 ADDU"

definition asm_and :: "assembler \<Rightarrow> Register \<Rightarrow> Register \<Rightarrow> Register \<Rightarrow> assembler" where
  "asm_and a rd rs rt = EmitRType a SPECIAL rs rt rd 0 AND_fn"

definition asm_andi :: "assembler \<Rightarrow> Register \<Rightarrow> Register \<Rightarrow> u32 \<Rightarrow> assembler" where
  "asm_andi a rt rs imm = EmitIType a ANDI rs rt (ucast imm)"

definition asm_break :: "assembler \<Rightarrow> u32 \<Rightarrow> assembler" where
  "asm_break a code = Emit a (push_bit 26 SPECIAL OR push_bit 6 code OR BREAK)"

definition asm_cfd :: "assembler \<Rightarrow> DRegister \<Rightarrow> DRegister \<Rightarrow> assembler" where
  "asm_cfd a ds dt = EmitFpuRType a COP1 FMT_D (dt * 2) (ds * 2) 0 COP1_C_F"

definition asm_cund :: "assembler \<Rightarrow> DRegister \<Rightarrow> DRegister \<Rightarrow> assembler" where
  "asm_cund a ds dt = EmitFpuRType a COP1 FMT_D (dt * 2) (ds * 2) 0 COP1_C_UN"

definition asm_ceqd :: "assembler \<Rightarrow> DRegister \<Rightarrow> DRegister \<Rightarrow> assembler" where
  "asm_ceqd a ds dt = EmitFpuRType a COP1 FMT_D (dt * 2) (ds * 2) 0 COP1_C_EQ"

definition asm_cueqd :: "assembler \<Rightarrow> DRegister \<Rightarrow> DRegister \<Rightarrow> assembler" where
  "asm_cueqd a ds dt = EmitFpuRType a COP1 FMT_D (dt * 2) (ds * 2) 0 COP1_C_UEQ"

definition asm_coltd :: "assembler \<Rightarrow> DRegister \<Rightarrow> DRegister \<Rightarrow> assembler" where
  "asm_coltd a ds dt = EmitFpuRType a COP1 FMT_D (dt * 2) (ds * 2) 0 COP1_C_OLT"

definition asm_cultd :: "assembler \<Rightarrow> DRegister \<Rightarrow> DRegister \<Rightarrow> assembler" where
  "asm_cultd a ds dt = EmitFpuRType a COP1 FMT_D (dt * 2) (ds * 2) 0 COP1_C_ULT"

definition asm_coled :: "assembler \<Rightarrow> DRegister \<Rightarrow> DRegister \<Rightarrow> assembler" where
  "asm_coled a ds dt = EmitFpuRType a COP1 FMT_D (dt * 2) (ds * 2) 0 COP1_C_OLE"

definition asm_culed :: "assembler \<Rightarrow> DRegister \<Rightarrow> DRegister \<Rightarrow> assembler" where
  "asm_culed a ds dt = EmitFpuRType a COP1 FMT_D (dt * 2) (ds * 2) 0 COP1_C_ULE"

definition asm_clo :: "assembler \<Rightarrow> Register \<Rightarrow> Register \<Rightarrow> assembler" where
  "asm_clo a rd rs = EmitRType a SPECIAL2 rs rd rd 0 CLO"

definition asm_clz :: "assembler \<Rightarrow> Register \<Rightarrow> Register \<Rightarrow> assembler" where
  "asm_clz a rd rs = EmitRType a SPECIAL2 rs rd rd 0 CLZ"

definition asm_cvtds :: "assembler \<Rightarrow> DRegister \<Rightarrow> FRegister \<Rightarrow> assembler" where
  "asm_cvtds a dd fs = EmitFpuRType a COP1 FMT_S 0 fs (dd * 2) COP1_CVT_D"

definition asm_cvtdw :: "assembler \<Rightarrow> DRegister \<Rightarrow> FRegister \<Rightarrow> assembler" where
  "asm_cvtdw a dd fs = EmitFpuRType a COP1 FMT_W 0 fs (dd * 2) COP1_CVT_D"

definition asm_cvtdl :: "assembler \<Rightarrow> DRegister \<Rightarrow> DRegister \<Rightarrow> assembler" where
  "asm_cvtdl a dd ds = EmitFpuRType a COP1 FMT_L 0 (ds * 2) (dd * 2) COP1_CVT_D"

definition asm_cvtsd :: "assembler \<Rightarrow> FRegister \<Rightarrow> DRegister \<Rightarrow> assembler" where
  "asm_cvtsd a fd ds = EmitFpuRType a COP1 FMT_D 0 (ds * 2) fd COP1_CVT_S"

definition asm_cvtwd :: "assembler \<Rightarrow> FRegister \<Rightarrow> DRegister \<Rightarrow> assembler" where
  "asm_cvtwd a fd ds = EmitFpuRType a COP1 FMT_D 0 (ds * 2) fd COP1_CVT_W"

definition asm_div :: "assembler \<Rightarrow> Register \<Rightarrow> Register \<Rightarrow> assembler" where
  "asm_div a rs rt = EmitRType a SPECIAL rs rt R0 0 DIV"

definition asm_divd :: "assembler \<Rightarrow> DRegister \<Rightarrow> DRegister \<Rightarrow> DRegister \<Rightarrow> assembler" where
  "asm_divd a dd ds dt = EmitFpuRType a COP1 FMT_D (dt * 2) (ds * 2) (dd * 2) COP1_DIV"

definition asm_divu :: "assembler \<Rightarrow> Register \<Rightarrow> Register \<Rightarrow> assembler" where
  "asm_divu a rs rt = EmitRType a SPECIAL rs rt R0 0 DIVU"

definition asm_jalr :: "assembler \<Rightarrow> Register \<Rightarrow> Register \<Rightarrow> assembler" where
  "asm_jalr a rs rd = EmitBranchDelayNop (EmitRType a SPECIAL rs R0 rd 0 JALR)"

definition asm_jr :: "assembler \<Rightarrow> Register \<Rightarrow> assembler" where
  "asm_jr a rs = EmitBranchDelayNop (EmitRType a SPECIAL rs R0 R0 0 JR)"

definition asm_lb :: "assembler \<Rightarrow> Register \<Rightarrow> Address \<Rightarrow> assembler" where
  "asm_lb a rt addr = EmitLoadStore a LB rt addr"

definition asm_lbu :: "assembler \<Rightarrow> Register \<Rightarrow> Address \<Rightarrow> assembler" where
  "asm_lbu a rt addr = EmitLoadStore a LBU rt addr"

definition asm_ldc1 :: "assembler \<Rightarrow> DRegister \<Rightarrow> Address \<Rightarrow> assembler" where
  "asm_ldc1 a dt addr = EmitFpuLoadStore a LDC1 (dt * 2) addr"

definition asm_lh :: "assembler \<Rightarrow> Register \<Rightarrow> Address \<Rightarrow> assembler" where
  "asm_lh a rt addr = EmitLoadStore a LH rt addr"

definition asm_lhu :: "assembler \<Rightarrow> Register \<Rightarrow> Address \<Rightarrow> assembler" where
  "asm_lhu a rt addr = EmitLoadStore a LHU rt addr"

definition asm_lui :: "assembler \<Rightarrow> Register \<Rightarrow> u32 \<Rightarrow> assembler" where
  "asm_lui a rt imm = EmitIType a LUI R0 rt (ucast imm)"

definition asm_lw :: "assembler \<Rightarrow> Register \<Rightarrow> Address \<Rightarrow> assembler" where
  "asm_lw a rt addr = EmitLoadStore a LW rt addr"

definition asm_lwc1 :: "assembler \<Rightarrow> FRegister \<Rightarrow> Address \<Rightarrow> assembler" where
  "asm_lwc1 a ft addr = EmitFpuLoadStore a LWC1 ft addr"

definition asm_madd :: "assembler \<Rightarrow> Register \<Rightarrow> Register \<Rightarrow> assembler" where
  "asm_madd a rs rt = EmitRType a SPECIAL2 rs rt R0 0 MADD"

definition asm_maddu :: "assembler \<Rightarrow> Register \<Rightarrow> Register \<Rightarrow> assembler" where
  "asm_maddu a rs rt = EmitRType a SPECIAL2 rs rt R0 0 MADDU"

definition asm_mfc1 :: "assembler \<Rightarrow> Register \<Rightarrow> FRegister \<Rightarrow> assembler" where
  "asm_mfc1 a rt fs = Emit a (push_bit 26 COP1 OR push_bit 21 COP1_MF OR push_bit 16 (of_nat rt) OR push_bit 11 (of_nat fs))"

definition asm_mfhi :: "assembler \<Rightarrow> Register \<Rightarrow> assembler" where
  "asm_mfhi a rd = EmitRType a SPECIAL R0 R0 rd 0 MFHI"

definition asm_mflo :: "assembler \<Rightarrow> Register \<Rightarrow> assembler" where
  "asm_mflo a rd = EmitRType a SPECIAL R0 R0 rd 0 MFLO"

definition asm_or :: "assembler \<Rightarrow> Register \<Rightarrow> Register \<Rightarrow> Register \<Rightarrow> assembler" where
  "asm_or a rd rs rt = EmitRType a SPECIAL rs rt rd 0 OR_fn"

definition asm_mov :: "assembler \<Rightarrow> Register \<Rightarrow> Register \<Rightarrow> assembler" where
  "asm_mov a rd rs = asm_or a rd rs ZR"

definition asm_movd :: "assembler \<Rightarrow> DRegister \<Rightarrow> DRegister \<Rightarrow> assembler" where
  "asm_movd a dd ds = EmitFpuRType a COP1 FMT_D 0 (ds * 2) (dd * 2) COP1_MOV"

definition asm_movf :: "assembler \<Rightarrow> Register \<Rightarrow> Register \<Rightarrow> assembler" where
  "asm_movf a rd rs = EmitRType a SPECIAL rs R0 rd 0 MOVCI"

definition asm_movn :: "assembler \<Rightarrow> Register \<Rightarrow> Register \<Rightarrow> Register \<Rightarrow> assembler" where
  "asm_movn a rd rs rt = EmitRType a SPECIAL rs rt rd 0 MOVN"

definition asm_movt :: "assembler \<Rightarrow> Register \<Rightarrow> Register \<Rightarrow> assembler" where
  "asm_movt a rd rs = EmitRType a SPECIAL rs R1 rd 0 MOVCI"

definition asm_movz :: "assembler \<Rightarrow> Register \<Rightarrow> Register \<Rightarrow> Register \<Rightarrow> assembler" where
  "asm_movz a rd rs rt = EmitRType a SPECIAL rs rt rd 0 MOVZ"

definition asm_movs :: "assembler \<Rightarrow> FRegister \<Rightarrow> FRegister \<Rightarrow> assembler" where
  "asm_movs a fd fs = EmitFpuRType a COP1 FMT_S 0 fs fd COP1_MOV"

definition asm_mtc1 :: "assembler \<Rightarrow> Register \<Rightarrow> FRegister \<Rightarrow> assembler" where
  "asm_mtc1 a rt fs = Emit a (push_bit 26 COP1 OR push_bit 21 COP1_MT OR push_bit 16 (of_nat rt) OR push_bit 11 (of_nat fs))"

definition asm_mthi :: "assembler \<Rightarrow> Register \<Rightarrow> assembler" where
  "asm_mthi a rs = EmitRType a SPECIAL rs R0 R0 0 MTHI"

definition asm_mtlo :: "assembler \<Rightarrow> Register \<Rightarrow> assembler" where
  "asm_mtlo a rs = EmitRType a SPECIAL rs R0 R0 0 MTLO"

definition asm_muld :: "assembler \<Rightarrow> DRegister \<Rightarrow> DRegister \<Rightarrow> DRegister \<Rightarrow> assembler" where
  "asm_muld a dd ds dt = EmitFpuRType a COP1 FMT_D (dt * 2) (ds * 2) (dd * 2) COP1_MUL"

definition asm_mult :: "assembler \<Rightarrow> Register \<Rightarrow> Register \<Rightarrow> assembler" where
  "asm_mult a rs rt = EmitRType a SPECIAL rs rt R0 0 MULT"

definition asm_multu :: "assembler \<Rightarrow> Register \<Rightarrow> Register \<Rightarrow> assembler" where
  "asm_multu a rs rt = EmitRType a SPECIAL rs rt R0 0 MULTU"

definition asm_nop :: "assembler \<Rightarrow> assembler" where
  "asm_nop a = Emit a kNopInstruction"

definition asm_nor :: "assembler \<Rightarrow> Register \<Rightarrow> Register \<Rightarrow> Register \<Rightarrow> assembler" where
  "asm_nor a rd rs rt = EmitRType a SPECIAL rs rt rd 0 NOR"

definition asm_ori :: "assembler \<Rightarrow> Register \<Rightarrow> Register \<Rightarrow> u32 \<Rightarrow> assembler" where
  "asm_ori a rt rs imm = EmitIType a ORI rs rt (ucast imm)"

definition asm_sb :: "assembler \<Rightarrow> Register \<Rightarrow> Address \<Rightarrow> assembler" where
  "asm_sb a rt addr = EmitLoadStore a SB rt addr"

definition asm_sdc1 :: "assembler \<Rightarrow> DRegister \<Rightarrow> Address \<Rightarrow> assembler" where
  "asm_sdc1 a dt addr = EmitFpuLoadStore a SDC1 (dt * 2) addr"

definition asm_sh :: "assembler \<Rightarrow> Register \<Rightarrow> Address \<Rightarrow> assembler" where
  "asm_sh a rt addr = EmitLoadStore a SH rt addr"

definition asm_sll :: "assembler \<Rightarrow> Register \<Rightarrow> Register \<Rightarrow> nat \<Rightarrow> assembler" where
  "asm_sll a rd rt sa = EmitRType a SPECIAL R0 rt rd sa SLL"

definition asm_sllv :: "assembler \<Rightarrow> Register \<Rightarrow> Register \<Rightarrow> Register \<Rightarrow> assembler" where
  "asm_sllv a rd rt rs = EmitRType a SPECIAL rs rt rd 0 SLLV"

definition asm_slt :: "assembler \<Rightarrow> Register \<Rightarrow> Register \<Rightarrow> Register \<Rightarrow> assembler" where
  "asm_slt a rd rs rt = EmitRType a SPECIAL rs rt rd 0 SLT"

definition asm_slti :: "assembler \<Rightarrow> Register \<Rightarrow> Register \<Rightarrow> u32 \<Rightarrow> assembler" where
  "asm_slti a rt rs imm = EmitIType a SLTI rs rt (ucast imm)"

definition asm_sltiu :: "assembler \<Rightarrow> Register \<Rightarrow> Register \<Rightarrow> u32 \<Rightarrow> assembler" where
  "asm_sltiu a rt rs imm = EmitIType a SLTIU rs rt (ucast imm)"

definition asm_sltu :: "assembler \<Rightarrow> Register \<Rightarrow> Register \<Rightarrow> Register \<Rightarrow> assembler" where
  "asm_sltu a rd rs rt = EmitRType a SPECIAL rs rt rd 0 SLTU"

definition asm_sqrtd :: "assembler \<Rightarrow> DRegister \<Rightarrow> DRegister \<Rightarrow> assembler" where
  "asm_sqrtd a dd ds = EmitFpuRType a COP1 FMT_D 0 (ds * 2) (dd * 2) COP1_SQRT"

definition asm_sra :: "assembler \<Rightarrow> Register \<Rightarrow> Register \<Rightarrow> nat \<Rightarrow> assembler" where
  "asm_sra a rd rt sa = EmitRType a SPECIAL R0 rt rd sa SRA"

definition asm_srav :: "assembler \<Rightarrow> Register \<Rightarrow> Register \<Rightarrow> Register \<Rightarrow> assembler" where
  "asm_srav a rd rt rs = EmitRType a SPECIAL rs rt rd 0 SRAV"

definition asm_srl :: "assembler \<Rightarrow> Register \<Rightarrow> Register \<Rightarrow> nat \<Rightarrow> assembler" where
  "asm_srl a rd rt sa = EmitRType a SPECIAL R0 rt rd sa SRL"

definition asm_srlv :: "assembler \<Rightarrow> Register \<Rightarrow> Register \<Rightarrow> Register \<Rightarrow> assembler" where
  "asm_srlv a rd rt rs = EmitRType a SPECIAL rs rt rd 0 SRLV"

definition asm_subd :: "assembler \<Rightarrow> DRegister \<Rightarrow> DRegister \<Rightarrow> DRegister \<Rightarrow> assembler" where
  "asm_subd a dd ds dt = EmitFpuRType a COP1 FMT_D (dt * 2) (ds * 2) (dd * 2) COP1_SUB"

definition asm_subu :: "assembler \<Rightarrow> Register \<Rightarrow> Register \<Rightarrow> Register \<Rightarrow> assembler" where
  "asm_subu a rd rs rt = EmitRType a SPECIAL rs rt rd 0 SUBU"

definition asm_sw :: "assembler \<Rightarrow> Register \<Rightarrow> Address \<Rightarrow> assembler" where
  "asm_sw a rt addr = EmitLoadStore a SW rt addr"

definition asm_swc1 :: "assembler \<Rightarrow> FRegister \<Rightarrow> Address \<Rightarrow> assembler" where
  "asm_swc1 a ft addr = EmitFpuLoadStore a SWC1 ft addr"

definition asm_xori :: "assembler \<Rightarrow> Register \<Rightarrow> Register \<Rightarrow> u32 \<Rightarrow> assembler" where
  "asm_xori a rt rs imm = EmitIType a XORI rs rt (ucast imm)"

definition asm_xor :: "assembler \<Rightarrow> Register \<Rightarrow> Register \<Rightarrow> Register \<Rightarrow> assembler" where
  "asm_xor a rd rs rt = EmitRType a SPECIAL rs rt rd 0 XOR_fn"

section \<open>Labels and branches\<close>

text \<open>A label is its field \<open>position_\<close>: 0 when unused, the position of the last branch to it plus a
  word when linked, and the negated position minus a word when bound. While a label is linked, each
  branch to it holds the \<open>position_\<close> the label had before, in the offset field of a near branch and in
  the immediates of the \<open>lui\<close>/\<open>ori\<close> pair of a far one.\<close>

type_synonym Label = int

definition Label_IsBound :: "Label \<Rightarrow> bool" where
  "Label_IsBound l \<longleftrightarrow> l < 0"

definition Label_IsUnused :: "Label \<Rightarrow> bool" where
  "Label_IsUnused l \<longleftrightarrow> l = 0"

definition Label_IsLinked :: "Label \<Rightarrow> bool" where
  "Label_IsLinked l \<longleftrightarrow> l > 0"

definition Label_Position :: "Label \<Rightarrow> int" where
  "Label_Position l = (if Label_IsBound l then - l - 4 else l - 4)"

definition Label_BindTo :: "int \<Rightarrow> Label" where
  "Label_BindTo position = - position - 4"

definition Label_LinkTo :: "int \<Rightarrow> Label" where
  "Label_LinkTo position = position + 4"

datatype asm_error = branch_offset_error | unreachable

definition CanEncodeBranchOffset :: "int \<Rightarrow> bool" where
  "CanEncodeBranchOffset off \<longleftrightarrow> IsInt 18 off"

definition kBranchOffsetMask :: u32 where
  "kBranchOffsetMask = 0x0000ffff"

definition EncodeBranchOffset :: "int \<Rightarrow> u32 \<Rightarrow> asm_error + u32" where
  "EncodeBranchOffset off instr =
     (if \<not> CanEncodeBranchOffset off then Inl branch_offset_error
      else Inr ((instr AND NOT kBranchOffsetMask) OR (word_of_int (drop_bit 2 off) AND kBranchOffsetMask)))"

definition DecodeBranchOffset :: "u32 \<Rightarrow> int" where
  "DecodeBranchOffset instr = sint (signed_drop_bit 14 (push_bit 16 (instr AND kBranchOffsetMask)))"

definition DecodeLoadImmediate :: "u32 \<Rightarrow> u32 \<Rightarrow> u32" where
  "DecodeLoadImmediate ori_instr lui_instr =
     push_bit 16 (lui_instr AND kBranchOffsetMask) OR (ori_instr AND kBranchOffsetMask)"

definition EncodeLoadImmediate :: "u32 \<Rightarrow> u32 \<Rightarrow> u32" where
  "EncodeLoadImmediate dest instr = (instr AND NOT kBranchOffsetMask) OR (dest AND kBranchOffsetMask)"

definition EmitFarJump :: "assembler \<Rightarrow> u32 \<Rightarrow> bool \<Rightarrow> assembler" where
  "EmitFarJump a off link =
     (let low = off AND 0xffff;
          high = ucast (ucast (signed_drop_bit 16 off) :: u16);
          a = EmitFixup a;
          a = asm_lui a T9 high;
          a = asm_ori a T9 T9 low
      in if link then EmitRType a SPECIAL T9 R0 RA 0 JALR else EmitRType a SPECIAL T9 R0 R0 0 JR)"

definition OppositeBranchOpcode :: "u32 \<Rightarrow> u32 option" where
  "OppositeBranchOpcode b =
     (if b = BEQ then Some BNE else if b = BNE then Some BEQ
      else if b = BGTZ then Some BLEZ else if b = BLEZ then Some BGTZ
      else if b = BEQL then Some BNEL else if b = BNEL then Some BEQL
      else if b = BGTZL then Some BLEZL else if b = BLEZL then Some BGTZL
      else None)"

definition EmitFarBranch :: "assembler \<Rightarrow> u32 \<Rightarrow> Register \<Rightarrow> Register \<Rightarrow> u32 \<Rightarrow> assembler" where
  "EmitFarBranch a b rs rt off = EmitFarJump (asm_nop (EmitIType a b rs rt 4)) off False"

definition OppositeBranchNoLink :: "u32 \<Rightarrow> u32 option" where
  "OppositeBranchNoLink b =
     (if b = BLTZ then Some BGEZ else if b = BGEZ then Some BLTZ
      else if b = BLTZAL then Some BGEZ else if b = BGEZAL then Some BLTZ
      else None)"

definition EmitFarRegImmBranch :: "assembler \<Rightarrow> u32 \<Rightarrow> Register \<Rightarrow> u32 \<Rightarrow> assembler" where
  "EmitFarRegImmBranch a b rs off =
     EmitFarJump (asm_nop (EmitRegImmType a REGIMM rs b 4)) off (b = BLTZAL \<or> b = BGEZAL)"

definition EmitFarFpuBranch :: "assembler \<Rightarrow> bool \<Rightarrow> u32 \<Rightarrow> assembler" where
  "EmitFarFpuBranch a kind off =
     (let b16 = (if kind then push_bit 16 1 else 0);
          a = Emit a (push_bit 26 COP1 OR push_bit 21 COP1_BC OR b16 OR 4)
      in EmitFarJump (asm_nop a) off False)"

definition EmitBranch :: "assembler \<Rightarrow> u32 \<Rightarrow> Register \<Rightarrow> Register \<Rightarrow> Label \<Rightarrow> asm_error + assembler \<times> Label" where
  "EmitBranch a b rs rt label =
     (if Label_IsBound label then
        (let dest = Label_Position label - (CodeSize a + 4)
         in if use_far_branches a \<and> \<not> CanEncodeBranchOffset dest then
              (case OppositeBranchOpcode b of
                 None \<Rightarrow> Inl unreachable
               | Some b' \<Rightarrow> Inr (EmitFarBranch a b' rs rt (word_of_int (Label_Position label)), label))
            else
              (case EncodeBranchOffset dest 0 of
                 Inl e \<Rightarrow> Inl e
               | Inr dest_off \<Rightarrow> Inr (EmitIType a b rs rt (ucast dest_off), label)))
      else
        (let position = CodeSize a
         in if use_far_branches a then
              Inr (EmitFarBranch a b rs rt (word_of_int label), Label_LinkTo position)
            else
              (case EncodeBranchOffset label 0 of
                 Inl e \<Rightarrow> Inl e
               | Inr dest_off \<Rightarrow> Inr (EmitIType a b rs rt (ucast dest_off), Label_LinkTo position))))"

definition EmitRegImmBranch :: "assembler \<Rightarrow> u32 \<Rightarrow> Register \<Rightarrow> Label \<Rightarrow> asm_error + assembler \<times> Label" where
  "EmitRegImmBranch a b rs label =
     (if Label_IsBound label then
        (let dest = Label_Position label - (CodeSize a + 4)
         in if use_far_branches a \<and> \<not> CanEncodeBranchOffset dest then
              (case OppositeBranchNoLink b of
                 None \<Rightarrow> Inl unreachable
               | Some b' \<Rightarrow> Inr (EmitFarRegImmBranch a b' rs (word_of_int (Label_Position label)), label))
            else
              (case EncodeBranchOffset dest 0 of
                 Inl e \<Rightarrow> Inl e
               | Inr dest_off \<Rightarrow> Inr (EmitRegImmType a REGIMM rs b (ucast dest_off), label)))
      else
        (let position = CodeSize a
         in if use_far_branches a then
              Inr (EmitFarRegImmBranch a b rs (word_of_int label), Label_LinkTo position)
            else
              (case EncodeBranchOffset label 0 of
                 Inl e \<Rightarrow> Inl e
               | Inr dest_off \<Rightarrow> Inr (EmitRegImmType a REGIMM rs b (ucast dest_off), Label_LinkTo position))))"

definition FpuBranch_word :: "bool \<Rightarrow> u16 \<Rightarrow> u32" where
  "FpuBranch_word kind dest_off =
     push_bit 26 COP1 OR push_bit 21 COP1_BC OR (if kind then push_bit 16 1 else 0) OR ucast dest_off"

definition EmitFpuBranch :: "assembler \<Rightarrow> bool \<Rightarrow> Label \<Rightarrow> asm_error + assembler \<times> Label" where
  "EmitFpuBranch a kind label =
     (if Label_IsBound label then
        (let dest = Label_Position label - (CodeSize a + 4)
         in if use_far_branches a \<and> \<not> CanEncodeBranchOffset dest then
              Inr (EmitFarFpuBranch a kind (word_of_int (Label_Position label)), label)
            else
              (case EncodeBranchOffset dest 0 of
                 Inl e \<Rightarrow> Inl e
               | Inr dest_off \<Rightarrow> Inr (Emit a (FpuBranch_word kind (ucast dest_off)), label)))
      else
        (let position = CodeSize a
         in if use_far_branches a then
              Inr (EmitFarFpuBranch a kind (word_of_int label), Label_LinkTo position)
            else
              (case EncodeBranchOffset label 0 of
                 Inl e \<Rightarrow> Inl e
               | Inr dest_off \<Rightarrow> Inr (Emit a (FpuBranch_word kind (ucast dest_off)), Label_LinkTo position))))"

definition FlipBranchInstruction :: "u32 \<Rightarrow> u32 option" where
  "FlipBranchInstruction instr =
     (if OpcodeField instr = REGIMM then map_option (SetRegImmFnField instr) (OppositeBranchNoLink (RegImmFnField instr))
      else if OpcodeField instr = COP1 then Some (instr XOR push_bit 16 1)
      else map_option (SetOpcodeField instr) (OppositeBranchOpcode (OpcodeField instr)))"

text \<open>The three ways in which \<open>Bind\<close> resolves the branch at \<open>position\<close>; each returns the new code and
  the link to the next branch.\<close>

definition Bind_far :: "assembler \<Rightarrow> int \<Rightarrow> asm_error + assembler \<times> Label" where
  "Bind_far a position =
     (let branch = buffer_Load a position;
          high = buffer_Load a (position + 8);
          low = buffer_Load a (position + 12);
          dest = (word_of_int (CodeSize a) :: u32);
          encoded_low = EncodeLoadImmediate (dest AND kBranchOffsetMask) low;
          encoded_high = EncodeLoadImmediate (signed_drop_bit 16 dest) high
      in case FlipBranchInstruction branch of
           None \<Rightarrow> Inl unreachable
         | Some flipped \<Rightarrow>
             (let a = buffer_Store a position flipped;
                  a = buffer_Store a (position + 8) encoded_high;
                  a = buffer_Store a (position + 12) encoded_low
              in Inr (a, sint (DecodeLoadImmediate low high))))"

definition Bind_far_to_near :: "assembler \<Rightarrow> int \<Rightarrow> int \<Rightarrow> asm_error + assembler \<times> Label" where
  "Bind_far_to_near a position dest =
     (let high = buffer_Load a (position + 8);
          low = buffer_Load a (position + 12);
          branch = buffer_Load a position;
          a = foldl (\<lambda>a i. buffer_Store a (position + i * 4) kNopInstruction) a [0, 1, 2, 3, 4]
      in case EncodeBranchOffset (dest - 16) branch of
           Inl e \<Rightarrow> Inl e
         | Inr encoded \<Rightarrow>
             Inr (buffer_Store a (position + 16) encoded, sint (DecodeLoadImmediate low high)))"

definition Bind_near :: "assembler \<Rightarrow> int \<Rightarrow> int \<Rightarrow> asm_error + assembler \<times> Label" where
  "Bind_near a position dest =
     (let next = buffer_Load a position
      in case EncodeBranchOffset dest next of
           Inl e \<Rightarrow> Inl e
         | Inr encoded \<Rightarrow> Inr (buffer_Store a position encoded, DecodeBranchOffset next))"

partial_function (option) Bind_loop :: "assembler \<Rightarrow> int \<Rightarrow> Label \<Rightarrow> (asm_error + assembler) option" where
  "Bind_loop a bound_pc label =
     (if Label_IsLinked label then
        (let position = Label_Position label;
             dest = bound_pc - (position + 4)
         in case (if use_far_branches a \<and> \<not> CanEncodeBranchOffset dest then Bind_far a position
                  else if use_far_branches a \<and> CanEncodeBranchOffset dest then Bind_far_to_near a position dest
                  else Bind_near a position dest) of
              Inl e \<Rightarrow> Some (Inl e)
            | Inr r \<Rightarrow> Bind_loop (fst r) bound_pc (snd r))
      else Some (Inr a))"

definition Bind :: "assembler \<Rightarrow> Label \<Rightarrow> (asm_error + assembler \<times> Label) option" where
  "Bind a label =
     (let bound_pc = CodeSize a
      in map_option (map_sum id (\<lambda>a. (a\<lparr>delay_slot_available := False\<rparr>, Label_BindTo bound_pc)))
           (Bind_loop a bound_pc label))"

section \<open>Installing the code\<close>

text \<open>The fixups of far jumps turn offsets into the buffer into addresses, once the code is copied to the
  region of memory that starts at \<open>start\<close>.\<close>

definition PatchFarJump_Process :: "u32 \<Rightarrow> u32 list \<Rightarrow> int \<Rightarrow> u32 list" where
  "PatchFarJump_Process start region position =
     (let i = nat (position div 4);
          high = region ! i;
          low = region ! (i + 1);
          off = DecodeLoadImmediate low high;
          dest = start + off
      in if OpcodeField high = LUI \<and> OpcodeField low = ORI then
           (let encoded_low = EncodeLoadImmediate (dest AND kBranchOffsetMask) low;
                encoded_high = EncodeLoadImmediate (signed_drop_bit 16 dest) high
            in region[i := encoded_high, i + 1 := encoded_low])
         else region)"

definition ProcessFixups :: "u32 \<Rightarrow> int list \<Rightarrow> u32 list \<Rightarrow> u32 list" where
  "ProcessFixups start fixup region = foldl (PatchFarJump_Process start) region fixup"

definition FinalizeInstructions :: "assembler \<Rightarrow> u32 \<Rightarrow> u32 list" where
  "FinalizeInstructions a start = ProcessFixups start (fixups a) (buffer a)"

end
