(* ===== verification/Bit_Field.thy ===== *)
theory Bit_Field
  imports Prelude
begin

text \<open>
  The template class \<open>BitField<T, position, size>\<close> of \<^verbatim>\<open>vm/bitfield.h\<close>: packing small values
  into the bits of a machine word. The word length is a type parameter, 32 bits on MIPS and 64 bits on
  x64; a value is the word it is converted to.
\<close>

definition BitField_is_valid :: "nat \<Rightarrow> 'a::len word \<Rightarrow> bool" where
  "BitField_is_valid bits value \<longleftrightarrow> value AND NOT (push_bit bits 1 - 1) = 0"

definition BitField_mask :: "nat \<Rightarrow> 'a::len word" where
  "BitField_mask bits = push_bit bits 1 - 1"

definition BitField_mask_in_place :: "nat \<Rightarrow> nat \<Rightarrow> 'a::len word" where
  "BitField_mask_in_place position bits = push_bit position (push_bit bits 1 - 1)"

definition BitField_encode :: "nat \<Rightarrow> nat \<Rightarrow> 'a::len word \<Rightarrow> 'a word" where
  "BitField_encode position bits value = push_bit position value"

definition BitField_decode :: "nat \<Rightarrow> nat \<Rightarrow> 'a::len word \<Rightarrow> 'a word" where
  "BitField_decode position bits value = drop_bit position value AND (push_bit bits 1 - 1)"

definition BitField_update :: "nat \<Rightarrow> nat \<Rightarrow> 'a::len word \<Rightarrow> 'a word \<Rightarrow> 'a word" where
  "BitField_update position bits value original =
     push_bit position value OR (NOT (BitField_mask_in_place position bits) AND original)"

section \<open>Laws\<close>

lemma push_bit_mask: "push_bit bits 1 - 1 = (mask bits :: 'a::len word)"
  by (simp add: mask_eq_exp_minus_1)

lemma bit_BitField_decode:
  "bit (BitField_decode position bits w) n \<longleftrightarrow> n < bits \<and> bit w (position + n)" for w :: "'a::len word"
  unfolding BitField_decode_def push_bit_mask by (auto simp: bit_simps dest: bit_imp_le_length)

lemma BitField_is_valid_iff:
  "BitField_is_valid bits w \<longleftrightarrow> (\<forall>n. bit w n \<longrightarrow> n < bits)" for w :: "'a::len word"
proof -
  have "BitField_is_valid bits w \<longleftrightarrow> (\<forall>n < LENGTH('a). \<not> (bit w n \<and> \<not> n < bits))"
    unfolding BitField_is_valid_def push_bit_mask
    by (subst bit_eq_iff) (auto simp: bit_simps)
  then show ?thesis by (auto dest: bit_imp_le_length)
qed

lemma bit_BitField_update:
  assumes "BitField_is_valid bits v" "position + bits \<le> LENGTH('a)"
  shows "bit (BitField_update position bits v (w :: 'a::len word)) n \<longleftrightarrow>
    (if position \<le> n \<and> n < position + bits then bit v (n - position) else bit w n)"
proof (cases "n < LENGTH('a)")
  case True
  have "bit v (n - position) \<Longrightarrow> n - position < bits" using assms(1) by (simp add: BitField_is_valid_iff)
  then show ?thesis
    using True unfolding BitField_update_def BitField_mask_in_place_def push_bit_mask
    by (auto simp: bit_simps)
next
  case False
  with assms(2) show ?thesis by (auto dest: bit_imp_le_length)
qed

lemma BitField_decode_update:
  assumes "BitField_is_valid bits v" "position + bits \<le> LENGTH('a)"
  shows "BitField_decode position bits (BitField_update position bits v (w :: 'a::len word)) = v"
proof (rule bit_word_eqI)
  fix n assume "n < LENGTH('a)"
  have "bit v n \<Longrightarrow> n < bits" using assms(1) by (simp add: BitField_is_valid_iff)
  then show "bit (BitField_decode position bits (BitField_update position bits v w)) n = bit v n"
    using assms by (auto simp: bit_BitField_decode bit_BitField_update)
qed

lemma BitField_decode_update_other:
  assumes "BitField_is_valid bits v" "position + bits \<le> LENGTH('a)"
    and "position + bits \<le> position' \<or> position' + bits' \<le> position"
  shows "BitField_decode position' bits' (BitField_update position bits v (w :: 'a::len word))
     = BitField_decode position' bits' w"
  using assms by (intro bit_word_eqI) (auto simp: bit_BitField_decode bit_BitField_update)

lemma BitField_decode_encode:
  assumes "BitField_is_valid bits v" "position + bits \<le> LENGTH('a)"
  shows "BitField_decode position bits (BitField_encode position bits (v :: 'a::len word)) = v"
proof -
  have "BitField_encode position bits v = BitField_update position bits v 0"
    by (simp add: BitField_encode_def BitField_update_def)
  then show ?thesis using BitField_decode_update [OF assms] by simp
qed

lemma BitField_is_valid_of_nat:
  assumes "x < 2 ^ bits"
  shows "BitField_is_valid bits (of_nat x :: 'a::len word)"
  unfolding BitField_is_valid_iff
proof (intro allI impI)
  fix n assume "bit (of_nat x :: 'a word) n"
  then have "bit x n" by (simp add: bit_simps)
  with assms show "n < bits" by (metis bit_take_bit_iff take_bit_nat_eq_self)
qed

end
