(* ===== verification/Mips_Macros.thy ===== *)
theory Mips_Macros
  imports Mips_Assembler Bit_Field
begin

text \<open>
  The branch emitters of \<^verbatim>\<open>vm/assembler_mips.h\<close>, class \<open>Condition\<close>, and the macro
  instructions: loading immediates, arithmetic with overflow detection, conditional branches, stack
  frames and the filters of the write barrier. A macro that emits a branch also returns the label, which
  the branch may have linked.
\<close>

section \<open>Branch instructions\<close>

definition then_nop :: "asm_error + assembler \<times> Label \<Rightarrow> asm_error + assembler \<times> Label" where
  "then_nop r = map_sum id (map_prod EmitBranchDelayNop id) r"

definition asm_bal :: "assembler \<Rightarrow> Label \<Rightarrow> asm_error + assembler \<times> Label" where
  "asm_bal a l =
     then_nop (EmitRegImmBranch a BGEZAL R0 l)"

definition asm_bc1f :: "assembler \<Rightarrow> Label \<Rightarrow> asm_error + assembler \<times> Label" where
  "asm_bc1f a l =
     then_nop (EmitFpuBranch a False l)"

definition asm_bc1t :: "assembler \<Rightarrow> Label \<Rightarrow> asm_error + assembler \<times> Label" where
  "asm_bc1t a l =
     then_nop (EmitFpuBranch a True l)"

definition asm_beq :: "assembler \<Rightarrow> Register \<Rightarrow> Register \<Rightarrow> Label \<Rightarrow> asm_error + assembler \<times> Label" where
  "asm_beq a rs rt l =
     then_nop (EmitBranch a BEQ rs rt l)"

definition asm_beql :: "assembler \<Rightarrow> Register \<Rightarrow> Register \<Rightarrow> Label \<Rightarrow> asm_error + assembler \<times> Label" where
  "asm_beql a rs rt l =
     then_nop (EmitBranch a BEQL rs rt l)"

definition asm_bgez :: "assembler \<Rightarrow> Register \<Rightarrow> Label \<Rightarrow> asm_error + assembler \<times> Label" where
  "asm_bgez a rs l =
     then_nop (EmitRegImmBranch a BGEZ rs l)"

definition asm_bgezl :: "assembler \<Rightarrow> Register \<Rightarrow> Label \<Rightarrow> asm_error + assembler \<times> Label" where
  "asm_bgezl a rs l =
     then_nop (EmitRegImmBranch a BGEZL rs l)"

definition asm_bgtz :: "assembler \<Rightarrow> Register \<Rightarrow> Label \<Rightarrow> asm_error + assembler \<times> Label" where
  "asm_bgtz a rs l =
     then_nop (EmitBranch a BGTZ rs R0 l)"

definition asm_bgtzl :: "assembler \<Rightarrow> Register \<Rightarrow> Label \<Rightarrow> asm_error + assembler \<times> Label" where
  "asm_bgtzl a rs l =
     then_nop (EmitBranch a BGTZL rs R0 l)"

definition asm_blez :: "assembler \<Rightarrow> Register \<Rightarrow> Label \<Rightarrow> asm_error + assembler \<times> Label" where
  "asm_blez a rs l =
     then_nop (EmitBranch a BLEZ rs R0 l)"

definition asm_blezl :: "assembler \<Rightarrow> Register \<Rightarrow> Label \<Rightarrow> asm_error + assembler \<times> Label" where
  "asm_blezl a rs l =
     then_nop (EmitBranch a BLEZL rs R0 l)"

definition asm_bltz :: "assembler \<Rightarrow> Register \<Rightarrow> Label \<Rightarrow> asm_error + assembler \<times> Label" where
  "asm_bltz a rs l =
     then_nop (EmitRegImmBranch a BLTZ rs l)"

definition asm_bltzl :: "assembler \<Rightarrow> Register \<Rightarrow> Label \<Rightarrow> asm_error + assembler \<times> Label" where
  "asm_bltzl a rs l =
     then_nop (EmitRegImmBranch a BLTZL rs l)"

definition asm_bne :: "assembler \<Rightarrow> Register \<Rightarrow> Register \<Rightarrow> Label \<Rightarrow> asm_error + assembler \<times> Label" where
  "asm_bne a rs rt l =
     then_nop (EmitBranch a BNE rs rt l)"

definition asm_bnel :: "assembler \<Rightarrow> Register \<Rightarrow> Register \<Rightarrow> Label \<Rightarrow> asm_error + assembler \<times> Label" where
  "asm_bnel a rs rt l =
     then_nop (EmitBranch a BNEL rs rt l)"

definition asm_b :: "assembler \<Rightarrow> Label \<Rightarrow> asm_error + assembler \<times> Label" where
  "asm_b a l =
     asm_beq a R0 R0 l"

section \<open>Conditions\<close>

text \<open>The relation operator of the code, \<open>LE\<close> being 7 and so on, from its number.\<close>

definition RelOp_of :: "nat \<Rightarrow> RelationOperator" where
  "RelOp_of n = [AL, NV, EQ, NE, GT, GE, LT, LE, UGT, UGE, ULT, ULE] ! n"

primrec RelOp_number :: "RelationOperator \<Rightarrow> nat" where
  "RelOp_number AL = 0" | "RelOp_number NV = 1" | "RelOp_number EQ = 2" | "RelOp_number NE = 3"
| "RelOp_number GT = 4" | "RelOp_number GE = 5" | "RelOp_number LT = 6" | "RelOp_number LE = 7"
| "RelOp_number UGT = 8" | "RelOp_number UGE = 9" | "RelOp_number ULT = 10" | "RelOp_number ULE = 11"

definition Condition_left :: "u32 \<Rightarrow> Register" where
  "Condition_left bits = unat (BitField_decode 0 6 bits)"

definition Condition_right :: "u32 \<Rightarrow> Register" where
  "Condition_right bits = unat (BitField_decode 6 6 bits)"

definition Condition_rel_op :: "u32 \<Rightarrow> RelationOperator" where
  "Condition_rel_op bits = RelOp_of (unat (BitField_decode 12 4 bits))"

definition Condition_imm :: "u32 \<Rightarrow> u16" where
  "Condition_imm bits = ucast (BitField_decode 16 16 bits)"

definition Condition_IsValidImm :: "int \<Rightarrow> bool" where
  "Condition_IsValidImm value \<longleftrightarrow> - 0x08000 \<le> value \<and> value < 0x7fff"

definition set_rel_op :: "u32 \<Rightarrow> RelationOperator \<Rightarrow> u32" where
  "set_rel_op bits value = BitField_update 12 4 (of_nat (RelOp_number value)) bits"

definition set_left :: "u32 \<Rightarrow> Register \<Rightarrow> u32" where
  "set_left bits value = BitField_update 0 6 (of_nat value) bits"

definition set_right :: "u32 \<Rightarrow> Register \<Rightarrow> u32" where
  "set_right bits value = BitField_update 6 6 (of_nat value) bits"

definition set_imm :: "u32 \<Rightarrow> u16 \<Rightarrow> u32" where
  "set_imm bits value = BitField_update 16 16 (ucast value) bits"

text \<open>The constructor leaves \<open>bits_\<close> uninitialised before it sets the fields: \<open>bits\<close> is what the
  memory held.\<close>

definition Condition_new :: "u32 \<Rightarrow> Register \<Rightarrow> Register \<Rightarrow> RelationOperator \<Rightarrow> u16 \<Rightarrow> u32" where
  "Condition_new bits left right rel_op imm =
     (let bits = set_left bits left;
          bits = set_right bits right;
          bits = set_rel_op bits rel_op
      in set_imm bits imm)"

text \<open>\<open>EQ\<close> and \<open>NE\<close> put an immediate operand into \<open>AT\<close>.\<close>

definition BranchOnCondition_eq :: "assembler \<Rightarrow> Register \<Rightarrow> Register \<Rightarrow> u32 \<Rightarrow> bool \<Rightarrow> Label \<Rightarrow> asm_error + assembler \<times> Label" where
  "BranchOnCondition_eq a left right imm eq l =
     (let (a, left, right) =
            (if left = IMM then (asm_addiu a AT ZR imm, AT, right)
             else if right = IMM then (asm_addiu a AT ZR imm, left, AT)
             else (a, left, right))
      in if eq then asm_beq a left right l else asm_bne a left right l)"

definition BranchOnCondition :: "assembler \<Rightarrow> u32 \<Rightarrow> Label \<Rightarrow> asm_error + assembler \<times> Label" where
  "BranchOnCondition a cond l =
     (let left = Condition_left cond; right = Condition_right cond; imm = scast (Condition_imm cond)
      in case Condition_rel_op cond of
          NV \<Rightarrow> Inr (a, l)
        | AL \<Rightarrow> asm_b a l
        | EQ \<Rightarrow> BranchOnCondition_eq a left right imm True l
        | NE \<Rightarrow> BranchOnCondition_eq a left right imm False l
        | GT \<Rightarrow>
          (if left = ZR then asm_bltz a right l
           else if right = ZR then asm_bgtz a left l
           else if left = IMM then asm_bne (asm_slti a AT right imm) AT ZR l
           else if right = IMM then asm_beq (asm_slti a AT left (imm + 1)) AT ZR l
           else asm_bne (asm_slt a AT right left) AT ZR l)
        | GE \<Rightarrow>
          (if left = ZR then asm_blez a right l
           else if right = ZR then asm_bgez a left l
           else if left = IMM then asm_bne (asm_slti a AT right (imm + 1)) AT ZR l
           else if right = IMM then asm_beq (asm_slti a AT left imm) AT ZR l
           else asm_beq (asm_slt a AT left right) AT ZR l)
        | LT \<Rightarrow>
          (if left = ZR then asm_bgtz a right l
           else if right = ZR then asm_bltz a left l
           else if left = IMM then asm_beq (asm_slti a AT right (imm + 1)) AT ZR l
           else if right = IMM then asm_bne (asm_slti a AT left imm) AT ZR l
           else asm_bne (asm_slt a AT left right) AT ZR l)
        | LE \<Rightarrow>
          (if left = ZR then asm_bgez a right l
           else if right = ZR then asm_blez a left l
           else if left = IMM then asm_beq (asm_slti a AT right imm) AT ZR l
           else if right = IMM then asm_bne (asm_slti a AT left (imm + 1)) AT ZR l
           else asm_beq (asm_slt a AT right left) AT ZR l)
        | UGT \<Rightarrow>
          (if left = ZR then Inr (a, l)
           else if right = ZR then asm_bne a left ZR l
           else asm_bne (asm_sltu a AT right left) AT ZR l)
        | UGE \<Rightarrow>
          (if left = ZR then asm_beq a right ZR l
           else if right = ZR then asm_beq a ZR ZR l
           else asm_beq (asm_sltu a AT left right) AT ZR l)
        | ULT \<Rightarrow>
          (if left = ZR then asm_bne a right ZR l
           else if right = ZR then Inr (a, l)
           else asm_bne (asm_sltu a AT left right) AT ZR l)
        | ULE \<Rightarrow>
          (if left = ZR then asm_beq a ZR ZR l
           else if right = ZR then asm_beq a left ZR l
           else asm_beq (asm_sltu a AT right left) AT ZR l))"

section \<open>Macro instructions\<close>

text \<open>\<open>kNoRegister\<close> is -1.\<close>

abbreviation (input) kNoRegister :: Register where
  "kNoRegister \<equiv> 0xffffffff"

abbreviation (input) kPushedRegistersSize :: u32 where
  "kPushedRegistersSize \<equiv> 14 * 4 + 2 * 4 + 20 * 4"

abbreviation (input) kNewObjectAlignmentOffset :: u32 where
  "kNewObjectAlignmentOffset \<equiv> 4"

abbreviation (input) kObjectAlignmentLog2 :: nat where
  "kObjectAlignmentLog2 \<equiv> 3"

definition LoadImmediate :: "assembler \<Rightarrow> Register \<Rightarrow> u32 \<Rightarrow> assembler" where
  "LoadImmediate a rd value =
     (if IsInt 16 (sint value) then asm_addiu a rd ZR value
      else
        (let low = (ucast (value AND 0xffff) :: u16);
             high = (ucast (signed_drop_bit 16 value) :: u16);
             a = asm_lui a rd (ucast high)
         in if low \<noteq> 0 then asm_ori a rd rd (ucast low) else a))"

definition LoadImmediate_D :: "assembler \<Rightarrow> DRegister \<Rightarrow> 64 word \<Rightarrow> assembler" where
  "LoadImmediate_D a rd value =
     (let frd = rd * 2;
          low = (ucast value :: u32);
          high = (ucast (drop_bit 32 value) :: u32);
          a = (if low \<noteq> 0 then asm_mtc1 (LoadImmediate a TMP low) TMP frd else asm_mtc1 a ZR frd)
      in if high \<noteq> 0 then asm_mtc1 (LoadImmediate a TMP high) TMP (frd + 1) else asm_mtc1 a ZR (frd + 1))"

definition LoadImmediate_F :: "assembler \<Rightarrow> FRegister \<Rightarrow> u32 \<Rightarrow> assembler" where
  "LoadImmediate_F a rd ival =
     (if ival = 0 then asm_mtc1 a ZR rd else asm_mtc1 (LoadImmediate a TMP ival) TMP rd)"

definition AddImmediate :: "assembler \<Rightarrow> Register \<Rightarrow> Register \<Rightarrow> u32 \<Rightarrow> assembler" where
  "AddImmediate a rd rs value =
     (if value = 0 \<and> rd = rs then a
      else if IsInt 16 (sint value) then asm_addiu a rd rs value
      else asm_addu (LoadImmediate a TMP value) rd rs TMP)"

definition AndImmediate :: "assembler \<Rightarrow> Register \<Rightarrow> Register \<Rightarrow> u32 \<Rightarrow> assembler" where
  "AndImmediate a rd rs imm =
     (if imm = 0 then asm_mov a rd ZR
      else if IsUint 16 (sint imm) then asm_andi a rd rs imm
      else asm_and (LoadImmediate a TMP imm) rd rs TMP)"

definition OrImmediate :: "assembler \<Rightarrow> Register \<Rightarrow> Register \<Rightarrow> u32 \<Rightarrow> assembler" where
  "OrImmediate a rd rs imm =
     (if imm = 0 then asm_mov a rd rs
      else if IsUint 16 (sint imm) then asm_ori a rd rs imm
      else asm_or (LoadImmediate a TMP imm) rd rs TMP)"

definition XorImmediate :: "assembler \<Rightarrow> Register \<Rightarrow> Register \<Rightarrow> u32 \<Rightarrow> assembler" where
  "XorImmediate a rd rs imm =
     (if imm = 0 then asm_mov a rd rs
      else if IsUint 16 (sint imm) then asm_xori a rd rs imm
      else asm_xor (LoadImmediate a TMP imm) rd rs TMP)"

definition AdduDetectOverflow :: "assembler \<Rightarrow> Register \<Rightarrow> Register \<Rightarrow> Register \<Rightarrow> Register \<Rightarrow> Register \<Rightarrow> assembler" where
  "AdduDetectOverflow a rd rs rt ro scratch =
     (let (a, rt) = (if rs = rt \<and> rd = rs then (asm_mov a scratch rt, scratch) else (a, rt))
      in if rd = rs then
           (let a = asm_mov a TMP rs;
                a = asm_addu a rd rs rt;
                a = asm_xor a TMP rd TMP;
                a = asm_xor a ro rd rt
            in asm_and a ro ro TMP)
         else if rd = rt then
           (let a = asm_mov a TMP rt;
                a = asm_addu a rd rs rt;
                a = asm_xor a TMP rd TMP;
                a = asm_xor a ro rd rs
            in asm_and a ro ro TMP)
         else
           (let a = asm_addu a rd rs rt;
                a = asm_xor a ro rd rs;
                a = asm_xor a TMP rd rt
            in asm_and a ro TMP ro))"

definition AddImmediateDetectOverflow :: "assembler \<Rightarrow> Register \<Rightarrow> Register \<Rightarrow> u32 \<Rightarrow> Register \<Rightarrow> Register \<Rightarrow> assembler" where
  "AddImmediateDetectOverflow a rd rs imm ro scratch =
     AdduDetectOverflow (LoadImmediate a rd imm) rd rs rd ro scratch"

definition SubuDetectOverflow :: "assembler \<Rightarrow> Register \<Rightarrow> Register \<Rightarrow> Register \<Rightarrow> Register \<Rightarrow> assembler" where
  "SubuDetectOverflow a rd rs rt ro =
     (if rs = rt then asm_mov (asm_mov a rd ZR) ro ZR
      else if rd = rs then
        (let a = asm_mov a TMP rs;
             a = asm_subu a rd rs rt;
             a = asm_xor a ro rd TMP;
             a = asm_xor a TMP TMP rs
         in asm_and a ro TMP ro)
      else if rd = rt then
        (let a = asm_mov a TMP rt;
             a = asm_subu a rd rs rt;
             a = asm_xor a ro rd rs;
             a = asm_xor a TMP rs TMP
         in asm_and a ro TMP ro)
      else
        (let a = asm_subu a rd rs rt;
             a = asm_xor a ro rd rs;
             a = asm_xor a TMP rs rt
         in asm_and a ro TMP ro))"

definition SubImmediateDetectOverflow :: "assembler \<Rightarrow> Register \<Rightarrow> Register \<Rightarrow> u32 \<Rightarrow> Register \<Rightarrow> assembler" where
  "SubImmediateDetectOverflow a rd rs imm ro =
     SubuDetectOverflow (LoadImmediate a rd imm) rd rs rd ro"

definition Branch :: "assembler \<Rightarrow> u32 \<Rightarrow> assembler" where
  "Branch a address =
     asm_jr (LoadImmediate a TMP address) TMP"

definition BranchPatchable :: "assembler \<Rightarrow> u32 \<Rightarrow> assembler" where
  "BranchPatchable a address =
     (let low = (ucast (address AND 0xffff) :: u16);
          high = (ucast (signed_drop_bit 16 address) :: u16);
          a = asm_lui a T9 (ucast high);
          a = asm_ori a T9 T9 (ucast low);
          a = asm_jr a T9
      in a\<lparr>delay_slot_available := False\<rparr>)"

definition BranchLink :: "assembler \<Rightarrow> u32 \<Rightarrow> assembler" where
  "BranchLink a address =
     asm_jalr (LoadImmediate a T9 address) T9 RA"

definition Drop :: "assembler \<Rightarrow> nat \<Rightarrow> assembler" where
  "Drop a stack_elements =
     (if stack_elements > 0 then asm_addiu a SP SP (of_nat (stack_elements * 4)) else a)"

definition GetNextPC :: "assembler \<Rightarrow> Register \<Rightarrow> Register \<Rightarrow> assembler" where
  "GetNextPC a dest temp =
     (let a = (if temp \<noteq> kNoRegister then asm_mov a temp RA else a);
          a = EmitRegImmType a REGIMM R0 BGEZAL 1;
          a = asm_mov a dest RA
      in if temp \<noteq> kNoRegister then asm_mov a RA temp else a)"

definition LoadWordFromPoolOffset :: "assembler \<Rightarrow> Register \<Rightarrow> u32 \<Rightarrow> assembler" where
  "LoadWordFromPoolOffset a rd off =
     (if CanHoldOffset off then asm_lw a rd (Addr PP off)
      else
        (let offset_low = (scast (ucast off :: u16) :: u32);
             off = off - offset_low;
             offset_high = (ucast (signed_drop_bit 16 off) :: u16)
         in if offset_high \<noteq> 0 then
              (let a = asm_lui a rd (ucast offset_high);
                   a = asm_addu a rd rd PP
               in asm_lw a rd (Addr rd offset_low))
            else asm_lw a rd (Addr PP offset_low)))"

definition Push :: "assembler \<Rightarrow> Register \<Rightarrow> assembler" where
  "Push a rt =
     asm_sw (asm_addiu a SP SP (- 4)) rt (Addr SP 0)"

definition Pop :: "assembler \<Rightarrow> Register \<Rightarrow> assembler" where
  "Pop a rt =
     asm_addiu (asm_lw a rt (Addr SP 0)) SP SP 4"

definition Ret :: "assembler \<Rightarrow> assembler" where
  "Ret a =
     asm_jr a RA"

definition SmiTag :: "assembler \<Rightarrow> Register \<Rightarrow> Register \<Rightarrow> assembler" where
  "SmiTag a dst src =
     asm_sll a dst src 1"

definition SmiUntag :: "assembler \<Rightarrow> Register \<Rightarrow> Register \<Rightarrow> assembler" where
  "SmiUntag a dst src =
     asm_sra a dst src 1"

definition LoadFromOffset :: "assembler \<Rightarrow> Register \<Rightarrow> Register \<Rightarrow> u32 \<Rightarrow> assembler" where
  "LoadFromOffset a reg b off =
     (if IsInt 16 (sint off) then asm_lw a reg (Addr b off)
      else
        (let a = LoadImmediate a TMP off;
             a = asm_addu a TMP b TMP
         in asm_lw a reg (Addr TMP 0)))"

definition LoadFieldFromOffset :: "assembler \<Rightarrow> Register \<Rightarrow> Register \<Rightarrow> u32 \<Rightarrow> assembler" where
  "LoadFieldFromOffset a reg b off =
     LoadFromOffset a reg b (off - kHeapObjectTag)"

definition StoreToOffset :: "assembler \<Rightarrow> Register \<Rightarrow> Register \<Rightarrow> u32 \<Rightarrow> assembler" where
  "StoreToOffset a reg b off =
     (if IsInt 16 (sint off) then asm_sw a reg (Addr b off)
      else
        (let a = LoadImmediate a TMP off;
             a = asm_addu a TMP b TMP
         in asm_sw a reg (Addr TMP 0)))"

definition StoreFieldToOffset :: "assembler \<Rightarrow> Register \<Rightarrow> Register \<Rightarrow> u32 \<Rightarrow> assembler" where
  "StoreFieldToOffset a reg b off =
     StoreToOffset a reg b (off - kHeapObjectTag)"

definition StoreDToOffset :: "assembler \<Rightarrow> DRegister \<Rightarrow> Register \<Rightarrow> u32 \<Rightarrow> assembler" where
  "StoreDToOffset a reg b off =
     asm_swc1 (asm_swc1 a (reg * 2) (Addr b off)) (reg * 2 + 1) (Addr b (off + 4))"

definition LoadDFromOffset :: "assembler \<Rightarrow> DRegister \<Rightarrow> Register \<Rightarrow> u32 \<Rightarrow> assembler" where
  "LoadDFromOffset a reg b off =
     asm_lwc1 (asm_lwc1 a (reg * 2) (Addr b off)) (reg * 2 + 1) (Addr b (off + 4))"

definition EnterFrame :: "assembler \<Rightarrow> assembler" where
  "EnterFrame a =
     (let a = asm_addiu a SP SP (- 8);
          a = asm_sw a RA (Addr SP 4);
          a = asm_sw a FP (Addr SP 0)
      in asm_mov a FP SP)"

definition LeaveFrameAndReturn :: "assembler \<Rightarrow> assembler" where
  "LeaveFrameAndReturn a =
     (let a = asm_mov a SP FP;
          a = asm_lw a RA (Addr SP 4);
          a = asm_lw a FP (Addr SP 0);
          a = Ret a
      in asm_addiu (asm_delay_slot a) SP SP 8)"

definition EnterStubFrame_no_pp :: "assembler \<Rightarrow> assembler" where
  "EnterStubFrame_no_pp a =
     (let a = SetPrologueOffset a;
          a = asm_addiu a SP SP (- 16);
          a = asm_sw a ZR (Addr SP 12);
          a = asm_sw a RA (Addr SP 8);
          a = asm_sw a FP (Addr SP 4);
          a = asm_sw a PP (Addr SP 0)
      in asm_addiu a FP SP 4)"

definition LeaveStubFrame :: "assembler \<Rightarrow> assembler" where
  "LeaveStubFrame a =
     (let a = asm_addiu a SP FP (- 4);
          a = asm_lw a RA (Addr SP 8);
          a = asm_lw a FP (Addr SP 4);
          a = asm_lw a PP (Addr SP 0)
      in asm_addiu a SP SP 16)"

definition LeaveStubFrameAndReturn :: "assembler \<Rightarrow> Register \<Rightarrow> assembler" where
  "LeaveStubFrameAndReturn a ra =
     (let a = asm_addiu a SP FP (- 4);
          a = asm_lw a RA (Addr SP 8);
          a = asm_lw a FP (Addr SP 4);
          a = asm_lw a PP (Addr SP 0);
          a = asm_jr a ra
      in asm_addiu (asm_delay_slot a) SP SP 16)"

definition LeaveDartFrame :: "assembler \<Rightarrow> assembler" where
  "LeaveDartFrame a =
     (let a = asm_addiu a SP FP (- 4);
          a = asm_lw a RA (Addr SP 8);
          a = asm_lw a FP (Addr SP 4);
          a = asm_lw a PP (Addr SP 0)
      in asm_addiu a SP SP 16)"

definition LeaveDartFrameAndReturn :: "assembler \<Rightarrow> assembler" where
  "LeaveDartFrameAndReturn a =
     (let a = asm_addiu a SP FP (- 4);
          a = asm_lw a RA (Addr SP 8);
          a = asm_lw a FP (Addr SP 4);
          a = asm_lw a PP (Addr SP 0);
          a = Ret a
      in asm_addiu (asm_delay_slot a) SP SP 16)"

definition EnterDartFrame :: "assembler \<Rightarrow> u32 \<Rightarrow> u32 \<Rightarrow> assembler" where
  "EnterDartFrame a pool_dist frame_size =
     (let off = CodeSize a;
          a = SetPrologueOffset a;
          a = asm_addiu a SP SP (- 16);
          a = asm_sw a RA (Addr SP 8);
          a = asm_sw a FP (Addr SP 4);
          a = asm_sw a PP (Addr SP 0);
          a = GetNextPC a TMP kNoRegister;
          object_pool_pc_dist = pool_dist + word_of_int (CodeSize a);
          a = AddImmediate a TMP TMP (- word_of_int off);
          a = asm_sw a TMP (Addr SP 12);
          a = asm_addiu a FP SP 4;
          a = asm_lw a PP (Addr TMP (- object_pool_pc_dist + word_of_int off))
      in AddImmediate a SP SP (- frame_size))"

definition ReserveAlignedFrameSpace :: "assembler \<Rightarrow> u32 \<Rightarrow> u32 \<Rightarrow> assembler" where
  "ReserveAlignedFrameSpace a alignment frame_space =
     (let a = AddImmediate a SP SP (- frame_space)
      in if sint alignment > 1 then asm_and (LoadImmediate a TMP (NOT (alignment - 1))) SP SP TMP else a)"

definition EnterCallRuntimeFrame :: "assembler \<Rightarrow> u32 \<Rightarrow> u32 \<Rightarrow> assembler" where
  "EnterCallRuntimeFrame a alignment frame_space =
     (let a = SetPrologueOffset a;
          a = asm_addiu a SP SP (- kPushedRegistersSize);
          a = foldl (\<lambda>a i. asm_swc1 a i (Addr SP (of_nat ((i + 14 + 2) * 4)))) a [0..<20];
          a = foldl (\<lambda>a i. asm_sw a i (Addr SP (of_nat ((i - 2 + 2) * 4)))) a [2..<16];
          a = asm_sw a RA (Addr SP 4);
          a = asm_sw a FP (Addr SP 0);
          a = asm_mov a FP SP
      in ReserveAlignedFrameSpace a alignment frame_space)"

definition LeaveCallRuntimeFrame :: "assembler \<Rightarrow> assembler" where
  "LeaveCallRuntimeFrame a =
     (let a = asm_mov a SP FP;
          a = asm_lw a FP (Addr SP 0);
          a = asm_lw a RA (Addr SP 4);
          a = foldl (\<lambda>a i. asm_lw a i (Addr SP (of_nat ((i - 2 + 2) * 4)))) a [2..<16];
          a = foldl (\<lambda>a i. asm_lwc1 a i (Addr SP (of_nat ((i + 14 + 2) * 4)))) a [0..<20]
      in asm_addiu a SP SP kPushedRegistersSize)"

definition BranchEqual :: "assembler \<Rightarrow> Register \<Rightarrow> Register \<Rightarrow> Label \<Rightarrow> asm_error + assembler \<times> Label" where
  "BranchEqual a rd rn l =
     asm_beq a rd rn l"

definition BranchEqual_imm :: "assembler \<Rightarrow> Register \<Rightarrow> u32 \<Rightarrow> Label \<Rightarrow> asm_error + assembler \<times> Label" where
  "BranchEqual_imm a rd imm l =
     (if imm = 0 then asm_beq a rd ZR l else asm_beq (LoadImmediate a CMPRES2 imm) rd CMPRES2 l)"

definition BranchNotEqual :: "assembler \<Rightarrow> Register \<Rightarrow> Register \<Rightarrow> Label \<Rightarrow> asm_error + assembler \<times> Label" where
  "BranchNotEqual a rd rn l =
     asm_bne a rd rn l"

definition BranchNotEqual_imm :: "assembler \<Rightarrow> Register \<Rightarrow> u32 \<Rightarrow> Label \<Rightarrow> asm_error + assembler \<times> Label" where
  "BranchNotEqual_imm a rd imm l =
     (if imm = 0 then asm_bne a rd ZR l else asm_bne (LoadImmediate a CMPRES2 imm) rd CMPRES2 l)"

definition BranchSignedGreater :: "assembler \<Rightarrow> Register \<Rightarrow> Register \<Rightarrow> Label \<Rightarrow> asm_error + assembler \<times> Label" where
  "BranchSignedGreater a rd rs l =
     asm_bne (asm_slt a CMPRES2 rs rd) CMPRES2 ZR l"

definition BranchSignedGreater_imm :: "assembler \<Rightarrow> Register \<Rightarrow> u32 \<Rightarrow> Label \<Rightarrow> asm_error + assembler \<times> Label" where
  "BranchSignedGreater_imm a rd imm l =
     (if imm = 0 then asm_bgtz a rd l
      else if IsInt 16 (sint (imm + 1)) then asm_beq (asm_slti a CMPRES2 rd (imm + 1)) CMPRES2 ZR l
      else BranchSignedGreater (LoadImmediate a CMPRES2 imm) rd CMPRES2 l)"

definition BranchUnsignedGreater :: "assembler \<Rightarrow> Register \<Rightarrow> Register \<Rightarrow> Label \<Rightarrow> asm_error + assembler \<times> Label" where
  "BranchUnsignedGreater a rd rs l =
     asm_bne (asm_sltu a CMPRES2 rs rd) CMPRES2 ZR l"

definition BranchUnsignedGreater_imm :: "assembler \<Rightarrow> Register \<Rightarrow> u32 \<Rightarrow> Label \<Rightarrow> asm_error + assembler \<times> Label" where
  "BranchUnsignedGreater_imm a rd imm l =
     (if imm = 0 then BranchNotEqual_imm a rd 0 l
      else if imm \<noteq> - 1 \<and> IsInt 16 (sint (imm + 1)) then asm_beq (asm_sltiu a CMPRES2 rd (imm + 1)) CMPRES2 ZR l
      else BranchUnsignedGreater (LoadImmediate a CMPRES2 imm) rd CMPRES2 l)"

definition BranchSignedGreaterEqual :: "assembler \<Rightarrow> Register \<Rightarrow> Register \<Rightarrow> Label \<Rightarrow> asm_error + assembler \<times> Label" where
  "BranchSignedGreaterEqual a rd rs l =
     asm_beq (asm_slt a CMPRES2 rd rs) CMPRES2 ZR l"

definition BranchSignedGreaterEqual_imm :: "assembler \<Rightarrow> Register \<Rightarrow> u32 \<Rightarrow> Label \<Rightarrow> asm_error + assembler \<times> Label" where
  "BranchSignedGreaterEqual_imm a rd imm l =
     (if imm = 0 then asm_bgez a rd l
      else if IsInt 16 (sint imm) then asm_beq (asm_slti a CMPRES2 rd imm) CMPRES2 ZR l
      else BranchSignedGreaterEqual (LoadImmediate a CMPRES2 imm) rd CMPRES2 l)"

definition BranchUnsignedGreaterEqual :: "assembler \<Rightarrow> Register \<Rightarrow> Register \<Rightarrow> Label \<Rightarrow> asm_error + assembler \<times> Label" where
  "BranchUnsignedGreaterEqual a rd rs l =
     asm_beq (asm_sltu a CMPRES2 rd rs) CMPRES2 ZR l"

definition BranchUnsignedGreaterEqual_imm :: "assembler \<Rightarrow> Register \<Rightarrow> u32 \<Rightarrow> Label \<Rightarrow> asm_error + assembler \<times> Label" where
  "BranchUnsignedGreaterEqual_imm a rd imm l =
     (if imm = 0 then asm_b a l
      else if IsInt 16 (sint imm) then asm_beq (asm_sltiu a CMPRES2 rd imm) CMPRES2 ZR l
      else BranchUnsignedGreaterEqual (LoadImmediate a CMPRES2 imm) rd CMPRES2 l)"

definition BranchSignedLess :: "assembler \<Rightarrow> Register \<Rightarrow> Register \<Rightarrow> Label \<Rightarrow> asm_error + assembler \<times> Label" where
  "BranchSignedLess a rd rs l =
     BranchSignedGreater a rs rd l"

definition BranchSignedLess_imm :: "assembler \<Rightarrow> Register \<Rightarrow> u32 \<Rightarrow> Label \<Rightarrow> asm_error + assembler \<times> Label" where
  "BranchSignedLess_imm a rd imm l =
     (if imm = 0 then asm_bltz a rd l
      else if IsInt 16 (sint imm) then asm_bne (asm_slti a CMPRES2 rd imm) CMPRES2 ZR l
      else BranchSignedGreater (LoadImmediate a CMPRES2 imm) CMPRES2 rd l)"

definition BranchUnsignedLess :: "assembler \<Rightarrow> Register \<Rightarrow> Register \<Rightarrow> Label \<Rightarrow> asm_error + assembler \<times> Label" where
  "BranchUnsignedLess a rd rs l =
     BranchUnsignedGreater a rs rd l"

definition BranchUnsignedLess_imm :: "assembler \<Rightarrow> Register \<Rightarrow> u32 \<Rightarrow> Label \<Rightarrow> asm_error + assembler \<times> Label" where
  "BranchUnsignedLess_imm a rd imm l =
     (if imm = 0 then Inr (a, l)
      else if IsInt 16 (sint imm) then asm_bne (asm_sltiu a CMPRES2 rd imm) CMPRES2 ZR l
      else BranchUnsignedGreater (LoadImmediate a CMPRES2 imm) CMPRES2 rd l)"

definition BranchSignedLessEqual :: "assembler \<Rightarrow> Register \<Rightarrow> Register \<Rightarrow> Label \<Rightarrow> asm_error + assembler \<times> Label" where
  "BranchSignedLessEqual a rd rs l =
     BranchSignedGreaterEqual a rs rd l"

definition BranchSignedLessEqual_imm :: "assembler \<Rightarrow> Register \<Rightarrow> u32 \<Rightarrow> Label \<Rightarrow> asm_error + assembler \<times> Label" where
  "BranchSignedLessEqual_imm a rd imm l =
     (if imm = 0 then asm_blez a rd l
      else if IsInt 16 (sint (imm + 1)) then asm_bne (asm_slti a CMPRES2 rd (imm + 1)) CMPRES2 ZR l
      else BranchSignedGreaterEqual (LoadImmediate a CMPRES2 imm) CMPRES2 rd l)"

definition BranchUnsignedLessEqual :: "assembler \<Rightarrow> Register \<Rightarrow> Register \<Rightarrow> Label \<Rightarrow> asm_error + assembler \<times> Label" where
  "BranchUnsignedLessEqual a rd rs l =
     BranchUnsignedGreaterEqual a rs rd l"

definition BranchUnsignedLessEqual_imm :: "assembler \<Rightarrow> Register \<Rightarrow> u32 \<Rightarrow> Label \<Rightarrow> asm_error + assembler \<times> Label" where
  "BranchUnsignedLessEqual_imm a rd imm l =
     (if imm = 0 then asm_beq a rd ZR l
      else if imm \<noteq> - 1 \<and> IsInt 16 (sint (imm + 1)) then asm_bne (asm_sltiu a CMPRES2 rd (imm + 1)) CMPRES2 ZR l
      else BranchUnsignedGreaterEqual (LoadImmediate a CMPRES2 imm) CMPRES2 rd l)"

definition StoreIntoObjectFilterNoSmi :: "assembler \<Rightarrow> Register \<Rightarrow> Register \<Rightarrow> Label \<Rightarrow> asm_error + assembler \<times> Label" where
  "StoreIntoObjectFilterNoSmi a object value l =
     (let a = asm_nor a TMP ZR object;
          a = asm_and a TMP value TMP;
          a = asm_andi a CMPRES1 TMP kNewObjectAlignmentOffset
      in asm_beq a CMPRES1 ZR l)"

definition StoreIntoObjectFilter :: "assembler \<Rightarrow> Register \<Rightarrow> Register \<Rightarrow> Label \<Rightarrow> asm_error + assembler \<times> Label" where
  "StoreIntoObjectFilter a object value l =
     (let a = asm_sll a TMP value (kObjectAlignmentLog2 - 1);
          a = asm_and a TMP value TMP;
          a = asm_nor a CMPRES1 ZR object;
          a = asm_and a TMP TMP CMPRES1;
          a = asm_andi a CMPRES1 TMP kNewObjectAlignmentOffset
      in asm_beq a CMPRES1 ZR l)"

end
