(* ===== verification/Mips_Exec.thy ===== *)
theory Mips_Exec
  imports Mips_Memory Mips_Macros
begin

text \<open>
  Running assembled code in the simulator: what one step of the dispatch loop does for each instruction
  the assembler emits. The macro instructions are verified by symbolic execution with these rules.
\<close>

section \<open>Steps and emitted code\<close>

fun steps :: "host \<Rightarrow> nat \<Rightarrow> simulator \<Rightarrow> sim_result" where
  "steps h 0 s = Inr s"
| "steps h (Suc n) s = (case Execute_step h s of Inl e \<Rightarrow> Inl e | Inr s \<Rightarrow> steps h n s)"

text \<open>The words that an emitter appends to the code.\<close>

definition emitted :: "assembler \<Rightarrow> assembler \<Rightarrow> u32 list" where
  "emitted a a' = drop (length (buffer a)) (buffer a')"

lemma emitted_self [simp]: "emitted a a = []"
  by (simp add: emitted_def)

lemma emitted_eq: "buffer a' = buffer a @ ws \<Longrightarrow> emitted a a' = ws"
  by (simp add: emitted_def)

section \<open>Instruction words\<close>

lemma LoadStore_word:
  "push_bit 26 opcode OR push_bit 16 (of_nat rt) OR Address_encoding (Addr b off) = IType_word opcode b rt (ucast off)"
  by (simp add: IType_word_def Address_encoding_def Addr_def or.assoc or.left_commute)

lemma RegImm_word:
  "push_bit 26 opcode OR push_bit 21 (of_nat rs) OR push_bit 16 code OR ucast imm = IType_word opcode rs (unat code) imm"
  by (simp add: IType_word_def)

lemma FpuRType_word:
  "push_bit 26 opcode OR push_bit 21 fmt OR push_bit 16 (of_nat ft) OR push_bit 11 (of_nat fs) OR push_bit 6 (of_nat fd) OR func
   = RType_word opcode (unat fmt) ft fs fd func"
  by (simp add: RType_word_def)

lemma Emit_simps [simp]:
  "buffer (Emit a w) = buffer a @ [w]" "use_far_branches (Emit a w) = use_far_branches a"
  "buffer (EmitIType a op rs rt imm) = buffer a @ [IType_word op rs rt imm]"
  "use_far_branches (EmitIType a op rs rt imm) = use_far_branches a"
  "buffer (EmitRType a op rs rt rd sa f) = buffer a @ [RType_word op rs rt rd sa f]"
  "use_far_branches (EmitRType a op rs rt rd sa f) = use_far_branches a"
  "buffer (EmitLoadStore a op rt (Addr b off)) = buffer a @ [IType_word op b rt (ucast off)]"
  "use_far_branches (EmitLoadStore a op rt addr) = use_far_branches a"
  "buffer (EmitFpuLoadStore a op rt (Addr b off)) = buffer a @ [IType_word op b rt (ucast off)]"
  "buffer (EmitRegImmType a op rs code imm) = buffer a @ [IType_word op rs (unat code) imm]"
  "buffer (EmitFpuRType a op fmt ft fs fd f) = buffer a @ [RType_word op (unat fmt) ft fs fd f]"
  "buffer (EmitBranchDelayNop a) = buffer a @ [kNopInstruction]"
  by (simp_all add: Emit_def EmitIType_def EmitRType_def EmitLoadStore_def EmitFpuLoadStore_def
      EmitRegImmType_def EmitFpuRType_def EmitBranchDelayNop_def LoadStore_word RegImm_word FpuRType_word)

named_theorems asm_defs

lemmas [asm_defs] = asm_addiu_def asm_addu_def asm_and_def asm_andi_def asm_lui_def asm_lw_def asm_sw_def
  asm_lwc1_def asm_swc1_def asm_lhu_def asm_mov_def asm_movz_def asm_nor_def asm_or_def asm_ori_def asm_sll_def
  asm_slt_def asm_slti_def asm_sltiu_def asm_sltu_def asm_sra_def asm_srl_def asm_subu_def asm_xor_def
  asm_xori_def asm_nop_def asm_jr_def asm_jalr_def

section \<open>Decoding\<close>

lemma set_register_simps [simp]:
  "sim_pc (set_register s r v) = sim_pc s" "memory (set_register s r v) = memory s"
  "icount (set_register s r v) = icount s" "fregisters (set_register s r v) = fregisters s"
  "fcsr (set_register s r v) = fcsr s" "delay_slot (set_register s r v) = delay_slot s"
  by (simp_all add: set_register_def)

lemma get_register_updates [simp]:
  "get_register (s\<lparr>sim_pc := p\<rparr>) r = get_register s r"
  "get_register (s\<lparr>icount := n\<rparr>) r = get_register s r"
  "get_register (s\<lparr>memory := m\<rparr>) r = get_register s r"
  "get_register (s\<lparr>delay_slot := b\<rparr>) r = get_register s r"
  "get_register (s\<lparr>fregisters := f\<rparr>) r = get_register s r"
  "get_register s 0 = 0"
  by (simp_all add: get_register_def)

lemma get_set_register [simp]:
  "get_register (set_register s r v) r' = (if r = r' \<and> r \<noteq> 0 then v else get_register s r')"
  by (auto simp: get_register_def set_register_def)

lemma Execute_step_code:
  assumes "load32 (memory s) (sim_pc s) = w" "\<not> IsIllegalAddress (sim_pc s)"
  shows "Execute_step h s =
    InstructionDecode h (ExecuteDelaySlot h) (s\<lparr>icount := icount s + 1\<rparr>) (sim_pc s) w"
  using assms by (simp add: Execute_step_def Let_def)

named_theorems mips_decode

lemma decode_special [mips_decode]:
  assumes "rs < 32" "rt < 32" "rd < 32"
  shows
    "InstructionDecode h slot s at (RType_word 0 rs rt rd 0 33) =
       Inr ((set_register s rd (get_register s rs + get_register s rt))\<lparr>sim_pc := sim_pc s + 4\<rparr>)"
    "InstructionDecode h slot s at (RType_word 0 rs rt rd 0 36) =
       Inr ((set_register s rd (get_register s rs AND get_register s rt))\<lparr>sim_pc := sim_pc s + 4\<rparr>)"
    "InstructionDecode h slot s at (RType_word 0 rs rt rd 0 39) =
       Inr ((set_register s rd (NOT (get_register s rs OR get_register s rt)))\<lparr>sim_pc := sim_pc s + 4\<rparr>)"
    "InstructionDecode h slot s at (RType_word 0 rs rt rd 0 37) =
       Inr ((set_register s rd (get_register s rs OR get_register s rt))\<lparr>sim_pc := sim_pc s + 4\<rparr>)"
    "InstructionDecode h slot s at (RType_word 0 rs rt rd 0 42) =
       Inr ((set_register s rd (if sint (get_register s rs) < sint (get_register s rt) then 1 else 0))\<lparr>sim_pc := sim_pc s + 4\<rparr>)"
    "InstructionDecode h slot s at (RType_word 0 rs rt rd 0 43) =
       Inr ((set_register s rd (if get_register s rs < get_register s rt then 1 else 0))\<lparr>sim_pc := sim_pc s + 4\<rparr>)"
    "InstructionDecode h slot s at (RType_word 0 rs rt rd 0 35) =
       Inr ((set_register s rd (get_register s rs - get_register s rt))\<lparr>sim_pc := sim_pc s + 4\<rparr>)"
    "InstructionDecode h slot s at (RType_word 0 rs rt rd 0 38) =
       Inr ((set_register s rd (get_register s rs XOR get_register s rt))\<lparr>sim_pc := sim_pc s + 4\<rparr>)"
  using assms
  by (simp_all add: InstructionDecode_def DecodeSpecial_def RType_fields Let_def
      sim_ADDU_def sim_AND_def sim_NOR_def sim_OR_def sim_SLT_def sim_SLTU_def sim_SUBU_def sim_XOR_def)

lemma decode_shift [mips_decode]:
  assumes "rt < 32" "rd < 32" "sa < 32"
  shows
    "InstructionDecode h slot s at (RType_word 0 0 rt rd sa 0) =
       Inr ((set_register s rd (push_bit sa (get_register s rt)))\<lparr>sim_pc := sim_pc s + 4\<rparr>)"
    "InstructionDecode h slot s at (RType_word 0 0 rt rd sa 3) =
       Inr ((set_register s rd (signed_drop_bit sa (get_register s rt)))\<lparr>sim_pc := sim_pc s + 4\<rparr>)"
    "InstructionDecode h slot s at (RType_word 0 0 rt rd sa 2) =
       Inr ((set_register s rd (drop_bit sa (get_register s rt)))\<lparr>sim_pc := sim_pc s + 4\<rparr>)"
  using assms
  by (simp_all add: InstructionDecode_def DecodeSpecial_def RType_fields Let_def
      sim_SLL_def sim_SRA_def sim_SRL_def set_register_def)

lemma decode_imm [mips_decode]:
  assumes "rs < 32" "rt < 32"
  shows
    "InstructionDecode h slot s at (IType_word 9 rs rt imm) =
       Inr ((set_register s rt (get_register s rs + scast imm))\<lparr>sim_pc := sim_pc s + 4\<rparr>)"
    "InstructionDecode h slot s at (IType_word 12 rs rt imm) =
       Inr ((set_register s rt (get_register s rs AND ucast imm))\<lparr>sim_pc := sim_pc s + 4\<rparr>)"
    "InstructionDecode h slot s at (IType_word 13 rs rt imm) =
       Inr ((set_register s rt (get_register s rs OR ucast imm))\<lparr>sim_pc := sim_pc s + 4\<rparr>)"
    "InstructionDecode h slot s at (IType_word 14 rs rt imm) =
       Inr ((set_register s rt (get_register s rs XOR ucast imm))\<lparr>sim_pc := sim_pc s + 4\<rparr>)"
    "InstructionDecode h slot s at (IType_word 15 rs rt imm) =
       Inr ((set_register s rt (push_bit 16 (ucast imm)))\<lparr>sim_pc := sim_pc s + 4\<rparr>)"
    "InstructionDecode h slot s at (IType_word 10 rs rt imm) =
       Inr ((set_register s rt (if sint (get_register s rs) < sint (scast imm :: u32) then 1 else 0))\<lparr>sim_pc := sim_pc s + 4\<rparr>)"
    "InstructionDecode h slot s at (IType_word 11 rs rt imm) =
       Inr ((set_register s rt (if get_register s rs < scast imm then 1 else 0))\<lparr>sim_pc := sim_pc s + 4\<rparr>)"
  using assms
  by (simp_all add: InstructionDecode_def Decode_rest_def IType_fields Let_def
      sim_ADDIU_def sim_ANDI_def sim_ORI_def sim_XORI_def sim_LUI_def sim_SLTI_def sim_SLTIU_def)

lemma decode_memory [mips_decode]:
  assumes "rs < 32" "rt < 32"
  shows
    "InstructionDecode h slot s at (IType_word 35 rs rt imm) =
       (let addr = get_register s rs + scast imm
        in if IsIllegalAddress addr then Inl (HandleIllegalAccess addr)
           else if addr AND 3 = 0
           then Inr ((set_register s rt (load32 (memory s) addr))\<lparr>sim_pc := sim_pc s + 4\<rparr>)
           else Inl (UnalignedAccess addr))"
    "InstructionDecode h slot s at (IType_word 43 rs rt imm) =
       (let addr = get_register s rs + scast imm
        in if IsIllegalAddress addr then Inl (HandleIllegalAccess addr)
           else if addr AND 3 = 0
           then Inr (s\<lparr>memory := store32 (memory s) addr (get_register s rt), sim_pc := sim_pc s + 4\<rparr>)
           else Inl (UnalignedAccess addr))"
    "InstructionDecode h slot s at (IType_word 49 rs rt imm) =
       (let addr = get_register s rs + scast imm
        in if IsIllegalAddress addr then Inl (HandleIllegalAccess addr)
           else if addr AND 3 = 0
           then Inr (s\<lparr>fregisters := (fregisters s)(rt := load32 (memory s) addr), sim_pc := sim_pc s + 4\<rparr>)
           else Inl (UnalignedAccess addr))"
    "InstructionDecode h slot s at (IType_word 57 rs rt imm) =
       (let addr = get_register s rs + scast imm
        in if IsIllegalAddress addr then Inl (HandleIllegalAccess addr)
           else if addr AND 3 = 0
           then Inr (s\<lparr>memory := store32 (memory s) addr (fregisters s rt), sim_pc := sim_pc s + 4\<rparr>)
           else Inl (UnalignedAccess addr))"
  using assms
  by (simp_all add: InstructionDecode_def Decode_rest_def IType_fields Let_def
      sim_LW_def sim_SW_def sim_LWC1_def sim_SWC1_def effective_address_def ReadW_def WriteW_def
      set_fregister_def get_fregister_def)

text \<open>Branches whose delay slot holds a nop. The branch takes both words in one step of the loop.\<close>

lemma kNop_word: "kNopInstruction = RType_word 0 0 0 0 0 0"
  by (simp add: kNopInstruction_def RType_word_def)

lemma ExecuteDelaySlot_nop:
  assumes "load32 (memory s) (sim_pc s + 4) = kNopInstruction" "\<not> delay_slot s"
  shows "ExecuteDelaySlot h s = Inr (s\<lparr>icount := icount s + 1, sim_pc := sim_pc s + 4\<rparr>)"
  using assms
  by (simp add: ExecuteDelaySlot_def Let_def kNop_word mips_decode set_register_def)

definition branch_taken :: "u32 \<Rightarrow> simulator \<Rightarrow> nat \<Rightarrow> nat \<Rightarrow> bool" where
  "branch_taken op s rs rt \<longleftrightarrow>
     (if op = BEQ then get_register s rs = get_register s rt
      else if op = BNE then get_register s rs \<noteq> get_register s rt
      else if op = BGTZ then sint (get_register s rs) > 0
      else sint (get_register s rs) \<le> 0)"

lemma DoBranch_nop:
  assumes "load32 (memory s) (sim_pc s + 4) = kNopInstruction" "\<not> delay_slot s"
  shows "DoBranch (ExecuteDelaySlot h) s instr taken False =
    Inr (s\<lparr>icount := icount s + 1,
           sim_pc := (if taken then sim_pc s + push_bit 2 (SImmField instr) else sim_pc s + 4)\<rparr>)"
  using assms by (simp add: DoBranch_def Let_def ExecuteDelaySlot_nop)

lemma decode_branch [mips_decode]:
  assumes "op \<in> {BEQ, BNE, BGTZ, BLEZ}" "rs < 32" "rt < 32"
    and "load32 (memory s) (sim_pc s + 4) = kNopInstruction" "\<not> delay_slot s"
  shows "InstructionDecode h (ExecuteDelaySlot h) s at (IType_word op rs rt imm) =
    Inr (s\<lparr>icount := icount s + 1,
           sim_pc := (if branch_taken op s rs rt then sim_pc s + push_bit 2 (scast imm) else sim_pc s + 4) + 4\<rparr>)"
proof -
  from assms(1) consider "op = BEQ" | "op = BNE" | "op = BGTZ" | "op = BLEZ" by blast
  then show ?thesis
    by cases (use assms(2-) in \<open>simp_all add: InstructionDecode_def Decode_rest_def Decode_branches_def
        IType_fields Let_def DoBranch_nop branch_taken_def\<close>)
qed

lemma decode_regimm [mips_decode]:
  assumes "op \<in> {BGEZ, BLTZ}" "rs < 32"
    and "load32 (memory s) (sim_pc s + 4) = kNopInstruction" "\<not> delay_slot s"
  shows "InstructionDecode h (ExecuteDelaySlot h) s at (IType_word 1 rs (unat op) imm) =
    Inr (s\<lparr>icount := icount s + 1,
           sim_pc := (if (if op = BGEZ then 0 \<le> sint (get_register s rs) else sint (get_register s rs) < 0)
                      then sim_pc s + push_bit 2 (scast imm) else sim_pc s + 4) + 4\<rparr>)"
proof -
  from assms(1) consider "op = BGEZ" | "op = BLTZ" by blast
  then show ?thesis
    by cases (use assms(2-) in \<open>simp_all add: InstructionDecode_def DecodeRegImm_def IType_fields Let_def
        DoBranch_nop\<close>)
qed

section \<open>A concrete machine\<close>

text \<open>A host with no functions to call and a machine that holds some code, to run examples on.\<close>

definition idle_host :: host where
  "idle_host =
     \<lparr>d_add = \<lambda>x y. 0, d_sub = \<lambda>x y. 0, d_mul = \<lambda>x y. 0, d_div = \<lambda>x y. 0, d_sqrt = \<lambda>x. 0,
      d_of_int32 = \<lambda>x. 0, d_of_int64 = \<lambda>x. 0, d_of_float = \<lambda>x. 0, d_to_int32 = \<lambda>x. 0, d_to_float = \<lambda>x. 0,
      redirection_at = \<lambda>a. (kLeafRuntimeCall, 0), current_stack_pointer = 0,
      runtime_call = \<lambda>f args s. Returned s, leaf_call = \<lambda>f a b c d s. (0, s),
      debugger_stop = \<lambda>a s. None, leaf_float_call = \<lambda>f a b s. (0, s)\<rparr>"

definition machine :: "(nat \<Rightarrow> u32) \<Rightarrow> u32 \<Rightarrow> u32 list \<Rightarrow> simulator" where
  "machine regs pc code =
     \<lparr>registers = regs, fregisters = \<lambda>r. 0, fcsr = 0, sim_pc = pc, hi_reg = 0, lo_reg = 0, icount = 0,
      delay_slot = False, top_exit_frame_info = 0, memory = write_code (\<lambda>a. 0) pc code\<rparr>"

lemma machine_simps [simp]:
  "sim_pc (machine regs pc code) = pc" "delay_slot (machine regs pc code) = False"
  "get_register (machine regs pc code) r = (if r = 0 then 0 else regs r)"
  by (simp_all add: machine_def get_register_def)

lemma code_at_machine:
  assumes "\<not> IsIllegalAddress pc" "unat pc + 4 * length code \<le> 2 ^ 32 - 4"
  shows "code_at (memory (machine regs pc code)) pc code"
  using code_at_write_code [OF assms] by (simp add: machine_def)

lemma code_at_machine_0x10000:
  assumes "length code \<le> 1000"
  shows "code_at (memory (machine regs 0x10000 code)) (sim_pc (machine regs 0x10000 code)) code"
  unfolding machine_simps by (rule code_at_machine) (use assms in \<open>simp_all add: IsIllegalAddress_def\<close>)

end
