(* ===== verification/Mips_Correct.thy ===== *)
theory Mips_Correct
  imports Mips_Exec
begin

text \<open>
  The macro instructions of the MIPS assembler do what they are for: the code they emit, placed in
  memory and run by the simulator, has the stated effect on registers, memory and program counter.
\<close>

section \<open>Running code\<close>

definition runs :: "host \<Rightarrow> simulator \<Rightarrow> simulator \<Rightarrow> bool" where
  "runs h s s' \<longleftrightarrow> (\<exists>n. steps h n s = Inr s')"

lemma runs_refl [simp]: "runs h s s"
  unfolding runs_def by (rule exI [of _ 0]) simp

lemma runs_stepsI: "steps h n s = Inr s' \<Longrightarrow> runs h s s'"
  by (auto simp: runs_def)

lemma runs_computed:
  "(case steps h n s of Inl e \<Rightarrow> False | Inr s' \<Rightarrow> P s') \<Longrightarrow> \<exists>s'. runs h s s' \<and> P s'"
  by (auto simp: runs_def split: sum.splits)

lemma steps_numeral [simp]:
  "steps h (numeral k) s = (case Execute_step h s of Inl e \<Rightarrow> Inl e | Inr s \<Rightarrow> steps h (pred_numeral k) s)"
  by (simp add: numeral_eq_Suc)

lemma steps_one [simp]: "steps h 1 s = Execute_step h s"
  by (simp add: One_nat_def split: sum.split)

lemma steps_add: "steps h (m + n) s = (case steps h m s of Inl e \<Rightarrow> Inl e | Inr s \<Rightarrow> steps h n s)"
  by (induction m arbitrary: s) (auto split: sum.splits)

lemma runs_trans: "runs h s s' \<Longrightarrow> runs h s' s'' \<Longrightarrow> runs h s s''"
  unfolding runs_def by (metis steps_add sum.simps(6))

lemma runs_code:
  assumes "load32 (memory s) (sim_pc s) = w" "\<not> IsIllegalAddress (sim_pc s)"
    and "InstructionDecode h (ExecuteDelaySlot h) (s\<lparr>icount := icount s + 1\<rparr>) (sim_pc s) w = Inr s1"
    and "runs h s1 s2"
  shows "runs h s s2"
proof -
  have "steps h 1 s = Inr s1" using assms(1-3) by (simp add: Execute_step_code)
  then have "runs h s s1" unfolding runs_def by blast
  then show ?thesis using assms(4) by (rule runs_trans)
qed

text \<open>A run of the dispatch loop continues where the code leaves.\<close>

lemma runs_Execute:
  assumes "runs h s s'" "\<And>n s''. steps h n s = Inr s'' \<Longrightarrow> sim_pc s'' \<noteq> kEndSimulatingPC \<or> s'' = s'"
  shows "Execute h s = Execute h s'"
proof -
  obtain n where "steps h n s = Inr s'" using assms(1) by (auto simp: runs_def)
  then show ?thesis using assms(2)
  proof (induction n arbitrary: s)
    case 0
    then show ?case by simp
  next
    case (Suc n)
    obtain s1 where s1: "Execute_step h s = Inr s1" "steps h n s1 = Inr s'"
      using Suc.prems(1) by (auto split: sum.splits)
    have step: "steps h (Suc k) s = steps h k s1" for k using s1(1) by simp
    show ?case
    proof (cases "sim_pc s = kEndSimulatingPC")
      case True
      with Suc.prems(2) [of 0 s] show ?thesis by simp
    next
      case False
      then have "Execute h s = Execute h s1" by (subst Execute.simps) (simp add: s1(1))
      also have "\<dots> = Execute h s'"
        using Suc.IH [OF s1(2)] Suc.prems(2) step by metis
      finally show ?thesis .
    qed
  qed
qed

lemma fetch:
  "\<not> IsIllegalAddress (sim_pc s) \<Longrightarrow>
   Execute_step h s = InstructionDecode h (ExecuteDelaySlot h) (s\<lparr>icount := icount s + 1\<rparr>) (sim_pc s) (load32 (memory s) (sim_pc s))"
  by (simp add: Execute_step_def Let_def)

section \<open>Loading immediates\<close>

lemma sext_imm16:
  assumes "IsInt 16 (sint v)"
  shows "scast (ucast v :: u16) = (v :: u32)"
proof (rule bit_word_eqI)
  fix n assume n: "n < LENGTH(32)"
  have self: "signed_take_bit 15 (sint v) = sint v"
    using assms by (simp add: IsInt_def signed_take_bit_int_eq_self)
  have bits: "bit v k = bit (sint v) k" if "k < 32" for k
    using that by (auto simp: bit_sint_iff)
  have "bit v n = bit (signed_take_bit 15 (sint v)) n" using n bits [of n] self by simp
  also have "\<dots> = bit v (min 15 n)" using bits [of "min 15 n"] by (simp add: bit_signed_take_bit_iff)
  finally have "bit v n = bit v (min 15 n)" .
  moreover have "bit (scast (ucast v :: u16) :: u32) n = bit v (min 15 n)"
    using n by (cases "n = 15") (auto simp: bit_simps min_def)
  ultimately show "bit (scast (ucast v :: u16) :: u32) n = bit v n" by simp
qed

lemma ucast_ucast_u16 [simp]: "ucast (ucast (x :: u16) :: u32) = x"
  by (rule bit_word_eqI) (auto simp: bit_simps)

lemma lui_ori:
  "push_bit 16 (ucast (ucast (signed_drop_bit 16 v) :: u16) :: u32) OR
     ucast (ucast (v AND 0xffff) :: u16) = (v :: u32)"
proof -
  have m: "v AND 0xffff = take_bit 16 v" using word_and_mask_pow2 [of v 16] by simp
  show ?thesis unfolding m by (rule bit_word_eqI) (auto simp: bit_simps)
qed

lemma lui_only:
  assumes "(ucast ((v :: u32) AND 0xffff) :: u16) = 0"
  shows "push_bit 16 (ucast (ucast (signed_drop_bit 16 v) :: u16) :: u32) = v"
  using lui_ori [of v] assms by simp

lemma LoadImmediate_runs:
  assumes "rd < 32" "rd \<noteq> 0"
    and "code_at (memory s) (sim_pc s) (emitted a (LoadImmediate a rd value))"
  shows "\<exists>ic. runs h s (s\<lparr>registers := (registers s)(rd := value),
            sim_pc := sim_pc s + 4 * of_nat (length (emitted a (LoadImmediate a rd value))), icount := ic\<rparr>)"
proof -
  let ?low = "ucast (value AND 0xffff) :: u16" and ?high = "ucast (signed_drop_bit 16 value) :: u16"
  consider "IsInt 16 (sint value)" | "\<not> IsInt 16 (sint value)" "?low = 0" | "\<not> IsInt 16 (sint value)" "?low \<noteq> 0"
    by blast
  then show ?thesis
  proof cases
    case 1
    then have e: "emitted a (LoadImmediate a rd value) = [IType_word 9 0 rd (ucast value)]"
      by (simp add: emitted_def LoadImmediate_def asm_defs)
    have "steps h (Suc 0) s = Inr (s\<lparr>registers := (registers s)(rd := value), sim_pc := sim_pc s + 4, icount := icount s + 1\<rparr>)"
      using assms unfolding e by (simp add: fetch mips_decode sext_imm16 [OF 1] set_register_def)
    from runs_stepsI [OF this] show ?thesis unfolding e by auto
  next
    case 2
    then have e: "emitted a (LoadImmediate a rd value) = [IType_word 15 0 rd (ucast (ucast ?high :: u32))]"
      by (simp add: emitted_def LoadImmediate_def asm_defs)
    have "steps h (Suc 0) s = Inr (s\<lparr>registers := (registers s)(rd := value), sim_pc := sim_pc s + 4, icount := icount s + 1\<rparr>)"
      using assms unfolding e by (simp add: fetch mips_decode lui_only [OF 2(2)] set_register_def)
    from runs_stepsI [OF this] show ?thesis unfolding e by auto
  next
    case 3
    then have e: "emitted a (LoadImmediate a rd value) =
        [IType_word 15 0 rd (ucast (ucast ?high :: u32)), IType_word 13 rd rd (ucast (ucast ?low :: u32))]"
      by (simp add: emitted_def LoadImmediate_def asm_defs)
    have "steps h (Suc (Suc 0)) s = Inr (s\<lparr>registers := (registers s)(rd := value), sim_pc := sim_pc s + 8, icount := icount s + 2\<rparr>)"
      using assms unfolding e by (simp add: fetch mips_decode lui_ori set_register_def get_register_def)
    from runs_stepsI [OF this] show ?thesis unfolding e by auto
  qed
qed

text \<open>C17: The code that \<open>LoadImmediate\<close> emits, one or two instructions depending on the value, puts
  exactly the 32-bit value into the destination register, changes no other register and no memory,
  and leaves the program counter behind the emitted code.\<close>

theorem LoadImmediate_correct:
  assumes "rd < 32" "rd \<noteq> R0"
    and "code_at (memory s) (sim_pc s) (emitted a (LoadImmediate a rd value))"
  shows "\<exists>s'. runs h s s' \<and> get_register s' rd = value
     \<and> (\<forall>r. r \<noteq> rd \<longrightarrow> get_register s' r = get_register s r) \<and> memory s' = memory s
     \<and> sim_pc s' = sim_pc s + 4 * of_nat (length (emitted a (LoadImmediate a rd value)))"
proof -
  obtain ic where run: "runs h s (s\<lparr>registers := (registers s)(rd := value),
      sim_pc := sim_pc s + 4 * of_nat (length (emitted a (LoadImmediate a rd value))), icount := ic\<rparr>)"
    using LoadImmediate_runs [OF assms, of h] by blast
  show ?thesis by (intro exI conjI, rule run) (use assms(2) in \<open>simp_all add: get_register_def\<close>)
qed

theorem LoadImmediate_correct_witness:
  "\<exists>s'. runs idle_host (machine (\<lambda>r. 7) 0x10000 (emitted (Assembler_new False) (LoadImmediate (Assembler_new False) 8 0x12345678))) s'
     \<and> get_register s' 8 = 0x12345678 \<and> get_register s' 9 = 7"
proof -
  let ?code = "emitted (Assembler_new False) (LoadImmediate (Assembler_new False) 8 0x12345678)"
  have "length ?code \<le> 1000" by (simp add: emitted_def LoadImmediate_def asm_defs)
  from LoadImmediate_correct [OF _ _ code_at_machine_0x10000 [OF this, of "\<lambda>r. 7"], of idle_host]
  show ?thesis by fastforce
qed

section \<open>Overflow detection\<close>

lemma sint_neg_bit: "sint (w :: u32) < 0 \<longleftrightarrow> bit w 31"
  using bit_last_iff [of w] by simp

lemma sint_bounds: "- 2147483648 \<le> sint (x :: u32)" "sint (x :: u32) \<le> 2147483647"
  using sint_range_size [of x] by (simp_all add: word_size)

lemma signed_take_bit_31_cases:
  assumes "- (2 ^ 32) \<le> k" "k < (2 ^ 32 :: int)"
  shows "signed_take_bit 31 k =
    (if k < - 2147483648 then k + 4294967296 else if k \<ge> 2147483648 then k - 4294967296 else k)"
proof -
  have e: "signed_take_bit 31 k = (k + 2147483648) mod 4294967296 - 2147483648"
    by (simp add: signed_take_bit_eq_take_bit_shift take_bit_eq_mod)
  consider "k < - 2147483648" | "k \<ge> 2147483648" | "- 2147483648 \<le> k" "k < 2147483648" by linarith
  then show ?thesis
  proof cases
    case 1
    have "(k + 2147483648) mod 4294967296 = (k + 2147483648 + 4294967296) mod 4294967296" by (simp only: mod_add_self2)
    also have "\<dots> = k + 2147483648 + 4294967296" using 1 assms by (intro mod_pos_pos_trivial) auto
    finally show ?thesis using 1 e by simp
  next
    case 2
    have "(k + 2147483648) mod 4294967296 = (k + 2147483648 - 4294967296 + 4294967296) mod 4294967296"
      by (simp only: diff_add_cancel)
    also have "\<dots> = (k + 2147483648 - 4294967296) mod 4294967296" by (simp only: mod_add_self2)
    also have "\<dots> = k + 2147483648 - 4294967296" using 2 assms by (intro mod_pos_pos_trivial) auto
    finally show ?thesis using 2 e by simp
  next
    case 3
    then have "(k + 2147483648) mod 4294967296 = k + 2147483648" by (intro mod_pos_pos_trivial) auto
    then show ?thesis using 3 e by simp
  qed
qed

definition int32_overflow :: "int \<Rightarrow> bool" where
  "int32_overflow k \<longleftrightarrow> \<not> (kMinInt32 \<le> k \<and> k \<le> kMaxInt32)"

lemma add_overflow_sign:
  fixes x y :: u32
  shows "sint ((x + y XOR x) AND (x + y XOR y)) < 0 \<longleftrightarrow> int32_overflow (sint x + sint y)"
proof -
  have "sint (x + y) = signed_take_bit 31 (sint x + sint y)" by (simp add: sint_word_add)
  also have "\<dots> = (if sint x + sint y < - 2147483648 then sint x + sint y + 4294967296
      else if sint x + sint y \<ge> 2147483648 then sint x + sint y - 4294967296 else sint x + sint y)"
    using sint_bounds [of x] sint_bounds [of y] by (intro signed_take_bit_31_cases) auto
  finally have s: "sint (x + y) = \<dots>" .
  have "sint ((x + y XOR x) AND (x + y XOR y)) < 0 \<longleftrightarrow>
      (sint (x + y) < 0) \<noteq> (sint x < 0) \<and> (sint (x + y) < 0) \<noteq> (sint y < 0)"
    by (auto simp: sint_neg_bit bit_simps)
  also have "\<dots> \<longleftrightarrow> int32_overflow (sint x + sint y)"
    unfolding s int32_overflow_def kMinInt32_def kMaxInt32_def
    using sint_bounds [of x] sint_bounds [of y] by auto
  finally show ?thesis .
qed

lemma sub_overflow_sign:
  fixes x y :: u32
  shows "sint ((x XOR y) AND (x - y XOR x)) < 0 \<longleftrightarrow> int32_overflow (sint x - sint y)"
proof -
  have "sint (x - y) = signed_take_bit 31 (sint x - sint y)" by (simp add: sint_word_diff)
  also have "\<dots> = (if sint x - sint y < - 2147483648 then sint x - sint y + 4294967296
      else if sint x - sint y \<ge> 2147483648 then sint x - sint y - 4294967296 else sint x - sint y)"
    using sint_bounds [of x] sint_bounds [of y] by (intro signed_take_bit_31_cases) auto
  finally have s: "sint (x - y) = \<dots>" .
  have "sint ((x XOR y) AND (x - y XOR x)) < 0 \<longleftrightarrow>
      (sint x < 0) \<noteq> (sint y < 0) \<and> (sint (x - y) < 0) \<noteq> (sint x < 0)"
    by (auto simp: sint_neg_bit bit_simps)
  also have "\<dots> \<longleftrightarrow> int32_overflow (sint x - sint y)"
    unfolding s int32_overflow_def kMinInt32_def kMaxInt32_def
    using sint_bounds [of x] sint_bounds [of y] by auto
  finally show ?thesis .
qed

text \<open>C15: \<open>AdduDetectOverflow\<close> adds two registers, for every choice of coinciding operands that its
  assertions allow, with two exceptions: \<open>TMP\<close> is not one operand when the destination is the other, since the
  code then overwrites it before it is added, and the destination, the overflow register and a
  needed scratch register are not the zero register. The destination holds the 32-bit sum, and the overflow register is negative exactly
  when the sum of the signed operands does not fit into 32 bits. Only the destination, the overflow
  register, the assembler's temporary and, where it is needed, the scratch register change.\<close>

theorem AdduDetectOverflow_correct:
  assumes regs: "rd < 32" "rs < 32" "rt < 32" "ro < 32" "rd \<noteq> ZR" "ro \<noteq> ZR" "rd \<noteq> TMP" "ro \<noteq> TMP"
    and dist: "ro \<noteq> rd" "ro \<noteq> rs" "ro \<noteq> rt" "rd = rs \<Longrightarrow> rt \<noteq> TMP" "rd = rt \<Longrightarrow> rs \<noteq> TMP"
    and scratch: "rs = rt \<and> rd = rs \<Longrightarrow> scratch < 32 \<and> scratch \<notin> {ZR, TMP, rd, ro}"
    and code: "code_at (memory s) (sim_pc s) (emitted a (AdduDetectOverflow a rd rs rt ro scratch))"
  shows "\<exists>s'. runs h s s' \<and> memory s' = memory s
     \<and> sim_pc s' = sim_pc s + 4 * of_nat (length (emitted a (AdduDetectOverflow a rd rs rt ro scratch)))
     \<and> get_register s' rd = get_register s rs + get_register s rt
     \<and> (sint (get_register s' ro) < 0 \<longleftrightarrow> int32_overflow (sint (get_register s rs) + sint (get_register s rt)))
     \<and> (\<forall>r. r \<notin> {rd, ro, TMP} \<and> (rs = rt \<and> rd = rs \<longrightarrow> r \<noteq> scratch) \<longrightarrow> get_register s' r = get_register s r)"
proof -
  note ov = add_overflow_sign [of "get_register s rs" "get_register s rt"]
  consider (same) "rs = rt" "rd = rs" | (left) "rd = rs" "rs \<noteq> rt" | (right) "rd = rt" "rd \<noteq> rs" | (other) "rd \<noteq> rs" "rd \<noteq> rt"
    by auto
  then show ?thesis
  proof cases
    case other
    have e: "emitted a (AdduDetectOverflow a rd rs rt ro scratch) =
        [RType_word 0 rs rt rd 0 33, RType_word 0 rd rs ro 0 38, RType_word 0 rd rt 1 0 38, RType_word 0 1 ro ro 0 36]"
      using other by (auto simp: emitted_def AdduDetectOverflow_def asm_defs)
    show ?thesis
      unfolding e by (rule runs_computed [where n = 4])
        (use code [unfolded e] regs dist other ov in \<open>simp add: fetch mips_decode and.commute\<close>)
  next
    case left
    have e: "emitted a (AdduDetectOverflow a rd rs rt ro scratch) =
        [RType_word 0 rs 0 1 0 37, RType_word 0 rs rt rd 0 33, RType_word 0 rd 1 1 0 38, RType_word 0 rd rt ro 0 38, RType_word 0 ro 1 ro 0 36]"
      using left by (auto simp: emitted_def AdduDetectOverflow_def asm_defs)
    show ?thesis
      unfolding e by (rule runs_computed [where n = 5])
        (use code [unfolded e] regs dist left ov in \<open>simp add: fetch mips_decode and.commute\<close>)
  next
    case right
    have e: "emitted a (AdduDetectOverflow a rd rs rt ro scratch) =
        [RType_word 0 rt 0 1 0 37, RType_word 0 rs rt rd 0 33, RType_word 0 rd 1 1 0 38, RType_word 0 rd rs ro 0 38, RType_word 0 ro 1 ro 0 36]"
      using right by (auto simp: emitted_def AdduDetectOverflow_def asm_defs)
    show ?thesis
      unfolding e by (rule runs_computed [where n = 5])
        (use code [unfolded e] regs dist right ov in \<open>simp add: fetch mips_decode and.commute\<close>)
  next
    case same
    have e: "emitted a (AdduDetectOverflow a rd rs rt ro scratch) =
        [RType_word 0 rt 0 scratch 0 37, RType_word 0 rs 0 1 0 37, RType_word 0 rs scratch rd 0 33, RType_word 0 rd 1 1 0 38,
         RType_word 0 rd scratch ro 0 38, RType_word 0 ro 1 ro 0 36]"
      using same by (auto simp: emitted_def AdduDetectOverflow_def asm_defs)
    show ?thesis
      unfolding e by (rule runs_computed [where n = 6])
        (use code [unfolded e] regs dist same scratch ov in \<open>simp add: fetch mips_decode and.commute\<close>)
  qed
qed

theorem AdduDetectOverflow_correct_witness:
  "\<exists>s'. runs idle_host (machine (\<lambda>r. if r = 9 then 0x7fffffff else 1) 0x10000
            (emitted (Assembler_new False) (AdduDetectOverflow (Assembler_new False) 8 9 10 11 kNoRegister))) s'
     \<and> get_register s' 8 = 0x80000000 \<and> sint (get_register s' 11) < 0"
proof -
  let ?code = "emitted (Assembler_new False) (AdduDetectOverflow (Assembler_new False) 8 9 10 11 kNoRegister)"
  have "length ?code \<le> 1000" by (simp add: emitted_def AdduDetectOverflow_def asm_defs)
  from AdduDetectOverflow_correct [OF _ _ _ _ _ _ _ _ _ _ _ _ _ _ code_at_machine_0x10000 [OF this, of "\<lambda>r. if r = 9 then 0x7fffffff else 1"], of idle_host]
  show ?thesis by (fastforce simp: int32_overflow_def kMaxInt32_def)
qed

text \<open>When \<open>rd\<close> is \<open>rs\<close>, the fourth instruction combines the difference with the minuend instead of
  the subtrahend, and the flag is the sign of their exclusive or.\<close>

definition subu_flag :: "bool \<Rightarrow> u32 \<Rightarrow> u32 \<Rightarrow> bool" where
  "subu_flag same x y \<longleftrightarrow>
     (if same then (sint x < 0) \<noteq> (sint (x - y) < 0) else int32_overflow (sint x - sint y))"

lemma subu_flag_same: "sint (x - y XOR x) < 0 \<longleftrightarrow> subu_flag True x y"
  by (auto simp: subu_flag_def sint_neg_bit bit_simps)

text \<open>C16: \<open>SubuDetectOverflow\<close> subtracts two registers. The destination holds the 32-bit difference. The
  overflow register is negative exactly when the signed difference does not fit into 32 bits, except
  that when the destination is the minuend (and not also the subtrahend) it is negative exactly
  when the difference and the minuend differ in sign, which is not overflow.\<close>

theorem SubuDetectOverflow_correct:
  assumes regs: "rd < 32" "rs < 32" "rt < 32" "ro < 32" "rd \<noteq> ZR" "ro \<noteq> ZR" "rd \<noteq> TMP" "ro \<noteq> TMP"
    and dist: "ro \<noteq> rd" "ro \<noteq> rs" "ro \<noteq> rt" "rs \<noteq> TMP" "rt \<noteq> TMP"
    and code: "code_at (memory s) (sim_pc s) (emitted a (SubuDetectOverflow a rd rs rt ro))"
  shows "\<exists>s'. runs h s s' \<and> memory s' = memory s
     \<and> sim_pc s' = sim_pc s + 4 * of_nat (length (emitted a (SubuDetectOverflow a rd rs rt ro)))
     \<and> get_register s' rd = get_register s rs - get_register s rt
     \<and> (sint (get_register s' ro) < 0 \<longleftrightarrow> subu_flag (rd = rs \<and> rs \<noteq> rt) (get_register s rs) (get_register s rt))
     \<and> (\<forall>r. r \<notin> {rd, ro, TMP} \<longrightarrow> get_register s' r = get_register s r)"
proof -
  note ov = sub_overflow_sign [of "get_register s rs" "get_register s rt"]
  consider (same) "rs = rt" | (left) "rd = rs" "rs \<noteq> rt" | (right) "rd = rt" "rd \<noteq> rs" "rs \<noteq> rt" | (other) "rd \<noteq> rs" "rd \<noteq> rt" "rs \<noteq> rt"
    by auto
  then show ?thesis
  proof cases
    case other
    have e: "emitted a (SubuDetectOverflow a rd rs rt ro) =
        [RType_word 0 rs rt rd 0 35, RType_word 0 rd rs ro 0 38, RType_word 0 rs rt 1 0 38, RType_word 0 1 ro ro 0 36]"
      using other by (auto simp: emitted_def SubuDetectOverflow_def asm_defs)
    show ?thesis
      unfolding e by (rule runs_computed [where n = 4])
        (use code [unfolded e] regs dist other ov in \<open>simp add: fetch mips_decode subu_flag_def\<close>)
  next
    case left
    have e: "emitted a (SubuDetectOverflow a rd rs rt ro) =
        [RType_word 0 rs 0 1 0 37, RType_word 0 rs rt rd 0 35, RType_word 0 rd 1 ro 0 38, RType_word 0 1 rs 1 0 38, RType_word 0 1 ro ro 0 36]"
      using left by (auto simp: emitted_def SubuDetectOverflow_def asm_defs)
    have x: "(u XOR v) AND (v XOR u) = v XOR u" for u v :: u32
      by (simp add: xor.commute)
    show ?thesis
      unfolding e by (rule runs_computed [where n = 5])
        (use code [unfolded e] regs dist left in \<open>simp add: fetch mips_decode x subu_flag_same\<close>)
  next
    case right
    have e: "emitted a (SubuDetectOverflow a rd rs rt ro) =
        [RType_word 0 rt 0 1 0 37, RType_word 0 rs rt rd 0 35, RType_word 0 rd rs ro 0 38, RType_word 0 rs 1 1 0 38, RType_word 0 1 ro ro 0 36]"
      using right by (auto simp: emitted_def SubuDetectOverflow_def asm_defs)
    show ?thesis
      unfolding e by (rule runs_computed [where n = 5])
        (use code [unfolded e] regs dist right ov in \<open>simp add: fetch mips_decode subu_flag_def\<close>)
  next
    case same
    have e: "emitted a (SubuDetectOverflow a rd rs rt ro) = [RType_word 0 0 0 rd 0 37, RType_word 0 0 0 ro 0 37]"
      using same by (auto simp: emitted_def SubuDetectOverflow_def asm_defs)
    show ?thesis
      unfolding e by (rule runs_computed [where n = 2])
        (use code [unfolded e] regs dist same in
          \<open>simp add: fetch mips_decode subu_flag_def int32_overflow_def kMinInt32_def kMaxInt32_def\<close>)
  qed
qed

theorem SubuDetectOverflow_correct_witness:
  "\<exists>s'. runs idle_host (machine (\<lambda>r. if r = 8 then 1 else 2) 0x10000
            (emitted (Assembler_new False) (SubuDetectOverflow (Assembler_new False) 8 8 10 11))) s'
     \<and> get_register s' 8 = - 1 \<and> sint (get_register s' 11) < 0"
proof -
  let ?code = "emitted (Assembler_new False) (SubuDetectOverflow (Assembler_new False) 8 8 10 11)"
  have "length ?code \<le> 1000" by (simp add: emitted_def SubuDetectOverflow_def asm_defs)
  from SubuDetectOverflow_correct [OF _ _ _ _ _ _ _ _ _ _ _ _ _ code_at_machine_0x10000 [OF this, of "\<lambda>r. if r = 8 then 1 else 2"], of idle_host]
  show ?thesis by (fastforce simp: subu_flag_def)
qed

end
