(* ===== verification/Mips_Chain.thy ===== *)
theory Mips_Chain
  imports Mips_Correct
begin

text \<open>
  Forward branches. While a label is unbound, the branches to it form a chain through their offset fields; \<open>Bind\<close>
  follows the chain and patches every branch. \<open>linked\<close> describes the chain by the positions of its branches, \<open>resolved\<close>
  and \<open>retarget\<close> the code after binding.
\<close>

section \<open>Branch offsets\<close>

lemma mask16: "kBranchOffsetMask = mask 16"
  by (simp add: kBranchOffsetMask_def mask_eq_exp_minus_1)

lemma DecodeBranchOffset_eq: "DecodeBranchOffset w = 4 * sint (ucast w :: u16)"
proof -
  have "drop_bit 14 (sint (push_bit 16 (w AND mask 16) :: u32)) = push_bit 2 (sint (ucast w :: u16))"
  proof (rule bit_eqI)
    fix n :: nat
    consider "n < 2" | "2 \<le> n" "n < 17" | "17 \<le> n" by linarith
    then show "bit (drop_bit 14 (sint (push_bit 16 (w AND mask 16) :: u32))) n = bit (push_bit 2 (sint (ucast w :: u16))) n"
      by cases (auto simp: bit_simps min_def)
  qed
  then show ?thesis
    by (simp add: DecodeBranchOffset_def mask16 sint_signed_drop_bit_eq push_bit_eq_mult)
qed

definition patched :: "int \<Rightarrow> u32 \<Rightarrow> u32" where
  "patched dest w = (w AND NOT kBranchOffsetMask) OR (word_of_int (dest div 4) AND kBranchOffsetMask)"

lemma EncodeBranchOffset_eq:
  "EncodeBranchOffset dest w = (if CanEncodeBranchOffset dest then Inr (patched dest w) else Inl branch_offset_error)"
  by (simp add: EncodeBranchOffset_def patched_def drop_bit_eq_div)

lemma ucast_patched: "(ucast (patched dest w) :: u16) = word_of_int (dest div 4)"
  unfolding patched_def mask16 by (rule bit_word_eqI) (auto simp: bit_simps)

lemma DecodeBranchOffset_patched:
  assumes "CanEncodeBranchOffset dest" "4 dvd dest"
  shows "DecodeBranchOffset (patched dest w) = dest"
proof -
  have r: "- (2 ^ 17) \<le> dest" "dest < 2 ^ 17" using assms(1) by (simp_all add: CanEncodeBranchOffset_def IsInt_def)
  have "sint (word_of_int (dest div 4) :: u16) = dest div 4"
    unfolding sint_sbintrunc' by (rule signed_take_bit_int_eq_self) (use r in simp_all)
  then show ?thesis using assms(2) by (simp add: DecodeBranchOffset_eq ucast_patched)
qed

lemma DecodeBranchOffset_low:
  "(ucast w :: u16) = ucast v \<Longrightarrow> DecodeBranchOffset w = DecodeBranchOffset v"
  by (simp add: DecodeBranchOffset_eq)

text \<open>The simulator reads the same offset.\<close>

lemma SImmField_offset: "push_bit 2 (SImmField w) = word_of_int (DecodeBranchOffset w)"
proof -
  have "SImmField w = scast (ucast w :: u16)"
  proof (rule bit_word_eqI)
    fix n assume "n < LENGTH(32)"
    then show "bit (SImmField w) n = bit (scast (ucast w :: u16) :: u32) n"
      by (cases "n = 15") (auto simp: SImmField_def Bits_eq bit_simps min_def)
  qed
  also have "\<dots> = word_of_int (sint (ucast w :: u16))" by (rule scast_eq)
  finally have e: "SImmField w = word_of_int (sint (ucast w :: u16))" .
  show ?thesis unfolding e DecodeBranchOffset_eq by (simp only: push_bit_eq_mult wi_hom_mult [symmetric]) simp
qed

section \<open>The chain of branches to an unbound label\<close>

fun linked :: "u32 list \<Rightarrow> Label \<Rightarrow> int list \<Rightarrow> bool" where
  "linked code l [] \<longleftrightarrow> l = 0"
| "linked code l (p # ps) \<longleftrightarrow>
     l = p + 4 \<and> 0 \<le> p \<and> 4 dvd p \<and> p + 4 \<le> 4 * int (length code) \<and> (\<forall>q \<in> set ps. q < p)
     \<and> linked code (DecodeBranchOffset (code ! nat (p div 4))) ps"

lemma linked_append: "linked code l ps \<Longrightarrow> linked (code @ ws) l ps"
proof (induction ps arbitrary: l)
  case Nil
  then show ?case by simp
next
  case (Cons p ps)
  have "nat (p div 4) < length code" using Cons.prems by (auto elim!: dvdE)
  then show ?case using Cons by (auto simp: nth_append)
qed

lemma linked_positions:
  "linked code l ps \<Longrightarrow> p \<in> set ps \<Longrightarrow> 0 \<le> p \<and> 4 dvd p \<and> p + 4 \<le> 4 * int (length code)"
  by (induction ps arbitrary: l) auto

lemma linked_update:
  assumes "linked code l ps" "\<forall>p \<in> set ps. p < q" "4 dvd q"
  shows "linked (code[nat (q div 4) := w]) l ps"
  using assms(1,2)
proof (induction ps arbitrary: l)
  case Nil
  then show ?case by simp
next
  case (Cons p ps)
  have "4 dvd p" "0 \<le> p" "p < q" using Cons.prems by auto
  then have "nat (p div 4) \<noteq> nat (q div 4)" using assms(3) by (auto elim!: dvdE)
  then show ?case using Cons by auto
qed

section \<open>Binding\<close>

definition resolved :: "int \<Rightarrow> int list \<Rightarrow> u32 list \<Rightarrow> u32 list \<Rightarrow> bool" where
  "resolved pc ps code code' \<longleftrightarrow>
     length code' = length code
     \<and> (\<forall>i < length code. code' ! i = (if 4 * int i \<in> set ps then patched (pc - (4 * int i + 4)) (code ! i) else code ! i))"

lemma Bind_loop_near:
  assumes "\<not> use_far_branches a" "linked (buffer a) l ps"
  shows "if \<forall>p \<in> set ps. CanEncodeBranchOffset (pc - (p + 4))
    then \<exists>code. Bind_loop a pc l = Some (Inr (a\<lparr>buffer := code\<rparr>)) \<and> resolved pc ps (buffer a) code
    else Bind_loop a pc l = Some (Inl branch_offset_error)"
  using assms
proof (induction ps arbitrary: a l)
  case Nil
  then show ?case by (auto simp: Bind_loop.simps [of a] Label_IsLinked_def resolved_def intro!: exI [of _ "buffer a"])
next
  case (Cons p ps)
  have p: "l = p + 4" "0 \<le> p" "4 dvd p" "p + 4 \<le> 4 * int (length (buffer a))" "\<forall>q \<in> set ps. q < p"
    "linked (buffer a) (DecodeBranchOffset (buffer a ! nat (p div 4))) ps"
    using Cons.prems(2) by auto
  let ?next = "buffer a ! nat (p div 4)"
  let ?a = "a\<lparr>buffer := (buffer a)[nat (p div 4) := patched (pc - (p + 4)) ?next]\<rparr>"
  have unfold: "Bind_loop a pc l = (if CanEncodeBranchOffset (pc - (p + 4))
      then Bind_loop ?a pc (DecodeBranchOffset ?next) else Some (Inl branch_offset_error))"
    using Cons.prems(1) p(1,2) by (subst Bind_loop.simps)
      (simp add: Label_IsLinked_def Label_Position_def Label_IsBound_def Bind_near_def EncodeBranchOffset_eq buffer_Load_def buffer_Store_def Let_def)
  show ?case
  proof (cases "CanEncodeBranchOffset (pc - (p + 4))")
    case False
    then show ?thesis using unfold by simp
  next
    case True
    have "linked (buffer ?a) (DecodeBranchOffset ?next) ps" using linked_update [OF p(6,5,3)] by simp
    note IH = Cons.IH [OF _ this]
    have res: "resolved pc (p # ps) (buffer a) code" if "resolved pc ps (buffer ?a) code" for code
      unfolding resolved_def
    proof (intro conjI allI impI)
      show "length code = length (buffer a)" using that by (simp add: resolved_def)
      fix i assume i: "i < length (buffer a)"
      have e: "nat (p div 4) = i \<longleftrightarrow> p = 4 * int i" using p(2,3) by (auto elim!: dvdE)
      have "4 * int i \<notin> set ps" if "p = 4 * int i" using p(5) that by auto
      then show "code ! i = (if 4 * int i \<in> set (p # ps) then patched (pc - (4 * int i + 4)) (buffer a ! i) else buffer a ! i)"
        using that i e by (auto simp: resolved_def nth_list_update)
    qed
    show ?thesis
      using IH Cons.prems(1) unfold True res by (auto split: if_splits)
  qed
qed

lemma resolved_linked:
  assumes "resolved pc ps code code'" "linked code l qs" "set ps \<inter> set qs = {}"
  shows "linked code' l qs"
  using assms(2,3)
proof (induction qs arbitrary: l)
  case Nil
  then show ?case by simp
next
  case (Cons q qs)
  have q: "0 \<le> q" "4 dvd q" "q + 4 \<le> 4 * int (length code)" using Cons.prems(1) by auto
  then have i: "nat (q div 4) < length code" "4 * int (nat (q div 4)) = q" by (auto elim!: dvdE)
  have "code' ! nat (q div 4) = code ! nat (q div 4)"
    using assms(1) i Cons.prems(2) by (simp add: resolved_def)
  then show ?case using Cons assms(1) by (simp add: resolved_def)
qed

lemma linked_butlast:
  assumes "linked code l ps" "\<forall>p \<in> set ps. p + 8 \<le> 4 * int (length code)"
  shows "linked (butlast code) l ps"
  using assms
proof (induction ps arbitrary: l)
  case Nil
  then show ?case by simp
next
  case (Cons p ps)
  have "p + 8 \<le> 4 * int (length code)" "0 \<le> p" "4 dvd p" using Cons.prems by auto
  then have "nat (p div 4) < length (butlast code)" by (auto elim!: dvdE)
  then show ?case using Cons by (auto simp: nth_butlast)
qed

section \<open>The code of a branch after binding\<close>

text \<open>The words of some code at position \<open>p\<close>, with the branches at the positions in \<open>Q\<close> patched to the target \<open>t\<close>.\<close>

fun retarget :: "int \<Rightarrow> int set \<Rightarrow> int \<Rightarrow> u32 list \<Rightarrow> u32 list" where
  "retarget t Q p [] = []"
| "retarget t Q p (w # ws) = (if p \<in> Q then patched (t - (p + 4)) w else w) # retarget t Q (p + 4) ws"

lemma retarget_append [simp]:
  "retarget t Q p (vs @ ws) = retarget t Q p vs @ retarget t Q (p + 4 * int (length vs)) ws"
  by (induction vs arbitrary: p) (simp_all add: algebra_simps)

lemma length_retarget [simp]: "length (retarget t Q p ws) = length ws"
  by (induction ws arbitrary: p) simp_all

lemma retarget_nth:
  "i < length ws \<Longrightarrow> retarget t Q p ws ! i = (if p + 4 * int i \<in> Q then patched (t - (p + 4 * int i + 4)) (ws ! i) else ws ! i)"
  by (induction ws arbitrary: p i) (auto simp: nth_Cons' algebra_simps)

lemma retarget_behind: "\<forall>q \<in> Q. p + 4 * int (length ws) \<le> q \<Longrightarrow> retarget t Q p ws = ws"
  by (induction ws arbitrary: p) (force simp: algebra_simps)+

lemma resolved_slice:
  assumes "resolved t ps code code'" "n \<le> m" "m \<le> length code"
    and "\<And>i. n \<le> i \<Longrightarrow> i < m \<Longrightarrow> 4 * int i \<in> set ps \<longleftrightarrow> 4 * int i \<in> Q"
  shows "take (m - n) (drop n code') = retarget t Q (4 * int n) (take (m - n) (drop n code))"
proof (rule nth_equalityI)
  have len: "length code' = length code" using assms(1) by (simp add: resolved_def)
  then show "length (take (m - n) (drop n code')) = length (retarget t Q (4 * int n) (take (m - n) (drop n code)))" by simp
  fix i assume "i < length (take (m - n) (drop n code'))"
  then have i: "i < m - n" "n + i < length code" using len assms(3) by auto
  then have "4 * int (n + i) \<in> set ps \<longleftrightarrow> 4 * int (n + i) \<in> Q" using assms(4) [of "n + i"] by auto
  then show "take (m - n) (drop n code') ! i = retarget t Q (4 * int n) (take (m - n) (drop n code)) ! i"
    using assms(1) i len by (simp add: resolved_def retarget_nth algebra_simps)
qed

end
