(* ===== verification/Mips_Branch.thy ===== *)
theory Mips_Branch
  imports Mips_Chain
begin

text \<open>
  Conditional branches. \<open>computes\<close> says that an emitter appends straight-line code with some effect, \<open>branches_iff\<close> that it appends
  code that jumps to the label exactly when a condition holds, whether the label is bound already or is bound later. Both
  compose, so that the macros are verified from their parts. What follows for code in memory is \<open>jumps_iff\<close>.
\<close>

section \<open>Specifications of emitters\<close>

definition unchanged_but :: "nat set \<Rightarrow> simulator \<Rightarrow> simulator \<Rightarrow> bool" where
  "unchanged_but C s s' \<longleftrightarrow>
     memory s' = memory s \<and> fregisters s' = fregisters s \<and> delay_slot s' = delay_slot s
     \<and> (\<forall>r. r \<notin> C \<longrightarrow> get_register s' r = get_register s r)"

lemma unchanged_but_trans:
  "unchanged_but C s s1 \<Longrightarrow> unchanged_but D s1 s2 \<Longrightarrow> unchanged_but (C \<union> D) s s2"
  by (auto simp: unchanged_but_def)

lemma unchanged_but_mono: "unchanged_but C s s1 \<Longrightarrow> C \<subseteq> D \<Longrightarrow> unchanged_but D s s1"
  by (auto simp: unchanged_but_def)

definition computes :: "(assembler \<Rightarrow> assembler) \<Rightarrow> nat set \<Rightarrow> (simulator \<Rightarrow> simulator \<Rightarrow> bool) \<Rightarrow> bool" where
  "computes p C Q \<longleftrightarrow>
     (\<exists>ws. (\<forall>a. buffer (p a) = buffer a @ ws \<and> use_far_branches (p a) = use_far_branches a)
       \<and> (\<forall>h s. \<not> delay_slot s \<and> code_at (memory s) (sim_pc s) ws \<longrightarrow>
            (\<exists>s'. runs h s s' \<and> sim_pc s' = sim_pc s + 4 * of_nat (length ws) \<and> unchanged_but C s s' \<and> Q s s')))"

text \<open>
  How an emitter treats its label. A bound label stays as it is, and its position is the target of the branches. The
  branches to an unbound label, at the positions \<open>qs\<close>, are linked in front of its chain, and the target is any position that they can encode.
\<close>

definition links_to :: "assembler \<Rightarrow> Label \<Rightarrow> assembler \<Rightarrow> Label \<Rightarrow> int list \<Rightarrow> bool" where
  "links_to a l a' l' qs \<longleftrightarrow>
     (if Label_IsBound l then qs = [] \<and> l' = l
      else (\<forall>q \<in> set qs. CodeSize a \<le> q) \<and> (\<forall>ps. linked (buffer a) l ps \<longrightarrow> linked (buffer a') l' (qs @ ps)))"

definition aims_at :: "Label \<Rightarrow> int list \<Rightarrow> int \<Rightarrow> bool" where
  "aims_at l qs t \<longleftrightarrow>
     (if Label_IsBound l then t = Label_Position l else 4 dvd t \<and> (\<forall>q \<in> set qs. CanEncodeBranchOffset (t - (q + 4))))"

definition branches_iff :: "(assembler \<Rightarrow> Label \<Rightarrow> asm_error + assembler \<times> Label) \<Rightarrow> nat set \<Rightarrow> (simulator \<Rightarrow> bool) \<Rightarrow> bool" where
  "branches_iff emit C P \<longleftrightarrow>
     (\<forall>a l a' l'. emit a l = Inr (a', l') \<and> \<not> use_far_branches a \<and> 4 dvd l \<longrightarrow>
        buffer a' = buffer a @ emitted a a' \<and>
        (\<exists>qs. links_to a l a' l' qs \<and>
          (\<forall>t h s. aims_at l qs t \<and> \<not> delay_slot s
               \<and> code_at (memory s) (sim_pc s) (retarget t (set qs) (CodeSize a) (emitted a a')) \<longrightarrow>
             (\<exists>s'. runs h s s' \<and> unchanged_but C s s' \<and>
                sim_pc s' = (if P s then sim_pc s + word_of_int (t - CodeSize a)
                             else sim_pc s + 4 * of_nat (length (emitted a a')))))))"

lemma computesI:
  assumes "\<And>a. buffer (p a) = buffer a @ ws" "\<And>a. use_far_branches (p a) = use_far_branches a"
    and "\<And>h s. \<lbrakk>\<not> delay_slot s; code_at (memory s) (sim_pc s) ws\<rbrakk> \<Longrightarrow>
      \<exists>s'. runs h s s' \<and> sim_pc s' = sim_pc s + 4 * of_nat (length ws) \<and> unchanged_but C s s' \<and> Q s s'"
  shows "computes p C Q"
  unfolding computes_def by (intro exI [of _ ws]) (use assms in auto)

lemma computes_comp:
  assumes "computes p C Q" "computes q D R"
    and "\<And>s s1 s2. Q s s1 \<Longrightarrow> unchanged_but C s s1 \<Longrightarrow> R s1 s2 \<Longrightarrow> unchanged_but D s1 s2 \<Longrightarrow> S s s2"
  shows "computes (\<lambda>a. q (p a)) (C \<union> D) S"
proof -
  obtain ws where ws: "\<And>a. buffer (p a) = buffer a @ ws" "\<And>a. use_far_branches (p a) = use_far_branches a"
    "\<And>h s. \<lbrakk>\<not> delay_slot s; code_at (memory s) (sim_pc s) ws\<rbrakk> \<Longrightarrow>
      \<exists>s'. runs h s s' \<and> sim_pc s' = sim_pc s + 4 * of_nat (length ws) \<and> unchanged_but C s s' \<and> Q s s'"
    using assms(1) unfolding computes_def by blast
  obtain vs where vs: "\<And>a. buffer (q a) = buffer a @ vs" "\<And>a. use_far_branches (q a) = use_far_branches a"
    "\<And>h s. \<lbrakk>\<not> delay_slot s; code_at (memory s) (sim_pc s) vs\<rbrakk> \<Longrightarrow>
      \<exists>s'. runs h s s' \<and> sim_pc s' = sim_pc s + 4 * of_nat (length vs) \<and> unchanged_but D s s' \<and> R s s'"
    using assms(2) unfolding computes_def by blast
  show ?thesis
  proof (rule computesI [where ws = "ws @ vs"])
    fix h and s :: simulator assume s: "\<not> delay_slot s" "code_at (memory s) (sim_pc s) (ws @ vs)"
    obtain s1 where s1: "runs h s s1" "sim_pc s1 = sim_pc s + 4 * of_nat (length ws)" "unchanged_but C s s1" "Q s s1"
      using ws(3) [of s h] s by auto
    have m: "memory s1 = memory s" "\<not> delay_slot s1" using s1(3) s(1) by (auto simp: unchanged_but_def)
    obtain s2 where s2: "runs h s1 s2" "sim_pc s2 = sim_pc s1 + 4 * of_nat (length vs)" "unchanged_but D s1 s2" "R s1 s2"
      using vs(3) [of s1 h] s m s1(2) by auto
    have "runs h s s2" using s1(1) s2(1) by (rule runs_trans)
    moreover have "unchanged_but (C \<union> D) s s2" using s1(3) s2(3) by (rule unchanged_but_trans)
    moreover have "S s s2" using assms(3) s1(3,4) s2(3,4) by blast
    ultimately show "\<exists>s'. runs h s s' \<and> sim_pc s' = sim_pc s + 4 * of_nat (length (ws @ vs))
        \<and> unchanged_but (C \<union> D) s s' \<and> S s s'"
      using s1(2) s2(2) by (intro exI [of _ s2]) (simp add: algebra_simps)
  qed (use ws(1,2) vs(1,2) in auto)
qed

lemma branches_iffE:
  assumes "branches_iff emit C P" "emit a l = Inr (a', l')" "\<not> use_far_branches a" "4 dvd l"
  obtains qs where "buffer a' = buffer a @ emitted a a'" "links_to a l a' l' qs"
    and "\<And>t h s. \<lbrakk>aims_at l qs t; \<not> delay_slot s; code_at (memory s) (sim_pc s) (retarget t (set qs) (CodeSize a) (emitted a a'))\<rbrakk> \<Longrightarrow>
      \<exists>s'. runs h s s' \<and> unchanged_but C s s' \<and>
        sim_pc s' = (if P s then sim_pc s + word_of_int (t - CodeSize a)
                     else sim_pc s + 4 * of_nat (length (emitted a a')))"
proof -
  from assms have "buffer a' = buffer a @ emitted a a' \<and> (\<exists>qs. links_to a l a' l' qs \<and>
      (\<forall>t h s. aims_at l qs t \<and> \<not> delay_slot s
           \<and> code_at (memory s) (sim_pc s) (retarget t (set qs) (CodeSize a) (emitted a a')) \<longrightarrow>
         (\<exists>s'. runs h s s' \<and> unchanged_but C s s' \<and>
            sim_pc s' = (if P s then sim_pc s + word_of_int (t - CodeSize a)
                         else sim_pc s + 4 * of_nat (length (emitted a a'))))))"
    unfolding branches_iff_def by blast
  then show ?thesis using that by blast
qed

lemma links_to_after:
  assumes "links_to (p a) l a' l' qs" "buffer (p a) = buffer a @ ws"
  shows "links_to a l a' l' qs"
  using assms linked_append [of "buffer a" l _ ws] by (auto simp: links_to_def CodeSize_def split: if_splits)

lemma links_to_retarget:
  assumes "links_to (p a) l a' l' qs" "buffer (p a) = buffer a @ ws"
  shows "retarget t (set qs) (CodeSize a) (ws @ vs) = ws @ retarget t (set qs) (CodeSize (p a)) vs"
proof -
  have "\<forall>q \<in> set qs. CodeSize a + 4 * int (length ws) \<le> q"
    using assms by (auto simp: links_to_def CodeSize_def split: if_splits)
  then show ?thesis using assms(2) by (simp add: retarget_behind CodeSize_def)
qed

lemma branches_after:
  assumes "computes p C Q" "branches_iff emit D R" "C \<union> D \<subseteq> E"
    and "\<And>s s1. Q s s1 \<Longrightarrow> unchanged_but C s s1 \<Longrightarrow> R s1 = P s"
  shows "branches_iff (\<lambda>a. emit (p a)) E P"
  unfolding branches_iff_def
proof (intro allI impI)
  fix a l a' l'
  assume pre: "emit (p a) l = Inr (a', l') \<and> \<not> use_far_branches a \<and> 4 dvd l"
  obtain ws where ws: "\<And>a. buffer (p a) = buffer a @ ws" "\<And>a. use_far_branches (p a) = use_far_branches a"
    "\<And>h s. \<lbrakk>\<not> delay_slot s; code_at (memory s) (sim_pc s) ws\<rbrakk> \<Longrightarrow>
      \<exists>s'. runs h s s' \<and> sim_pc s' = sim_pc s + 4 * of_nat (length ws) \<and> unchanged_but C s s' \<and> Q s s'"
    using assms(1) unfolding computes_def by blast
  obtain qs where e: "buffer a' = buffer (p a) @ emitted (p a) a'" "links_to (p a) l a' l' qs"
    and run: "\<And>t h s. \<lbrakk>aims_at l qs t; \<not> delay_slot s;
        code_at (memory s) (sim_pc s) (retarget t (set qs) (CodeSize (p a)) (emitted (p a) a'))\<rbrakk> \<Longrightarrow>
      \<exists>s'. runs h s s' \<and> unchanged_but D s s' \<and>
        sim_pc s' = (if R s then sim_pc s + word_of_int (t - CodeSize (p a))
                     else sim_pc s + 4 * of_nat (length (emitted (p a) a')))"
    using branches_iffE [OF assms(2), of "p a" l a' l'] pre ws(2) by metis
  have code: "emitted a a' = ws @ emitted (p a) a'"
    using e(1) ws(1) by (simp add: emitted_def [of a a'])
  have cs: "CodeSize (p a) = CodeSize a + 4 * int (length ws)" using ws(1) [of a] by (simp add: CodeSize_def)
  have "\<exists>s'. runs h s s' \<and> unchanged_but E s s' \<and>
      sim_pc s' = (if P s then sim_pc s + word_of_int (t - CodeSize a) else sim_pc s + 4 * of_nat (length (emitted a a')))"
    if s: "aims_at l qs t" "\<not> delay_slot s" "code_at (memory s) (sim_pc s) (retarget t (set qs) (CodeSize a) (emitted a a'))" for t h s
  proof -
    have at: "code_at (memory s) (sim_pc s) (ws @ retarget t (set qs) (CodeSize (p a)) (emitted (p a) a'))"
      using s(3) unfolding code links_to_retarget [of p a, OF e(2) ws(1)] .
    obtain s1 where s1: "runs h s s1" "sim_pc s1 = sim_pc s + 4 * of_nat (length ws)" "unchanged_but C s s1" "Q s s1"
      using ws(3) [of s h] s(2) at by auto
    have m: "memory s1 = memory s" "\<not> delay_slot s1" using s1(3) s(2) by (auto simp: unchanged_but_def)
    obtain s2 where s2: "runs h s1 s2" "unchanged_but D s1 s2"
      "sim_pc s2 = (if R s1 then sim_pc s1 + word_of_int (t - CodeSize (p a))
                    else sim_pc s1 + 4 * of_nat (length (emitted (p a) a')))"
      using run [of t s1 h] s(1) at m s1(2) by auto
    have "R s1 = P s" using assms(4) s1(3,4) by blast
    then have "sim_pc s2 = (if P s then sim_pc s + word_of_int (t - CodeSize a) else sim_pc s + 4 * of_nat (length (emitted a a')))"
      using s2(3) s1(2) cs code by (simp add: algebra_simps)
    moreover have "unchanged_but E s s2" using unchanged_but_trans [OF s1(3) s2(2)] assms(3) by (rule unchanged_but_mono)
    ultimately show ?thesis using runs_trans [OF s1(1) s2(1)] by blast
  qed
  moreover have "buffer a' = buffer a @ emitted a a'" using e(1) ws(1) code by simp
  ultimately show "buffer a' = buffer a @ emitted a a' \<and> (\<exists>qs. links_to a l a' l' qs \<and>
      (\<forall>t h s. aims_at l qs t \<and> \<not> delay_slot s \<and> code_at (memory s) (sim_pc s) (retarget t (set qs) (CodeSize a) (emitted a a')) \<longrightarrow>
        (\<exists>s'. runs h s s' \<and> unchanged_but E s s' \<and> sim_pc s' = (if P s then sim_pc s + word_of_int (t - CodeSize a)
            else sim_pc s + 4 * of_nat (length (emitted a a'))))))"
    using links_to_after [of p a, OF e(2) ws(1)] by blast
qed

section \<open>Branch instructions\<close>

lemma scast_of_int16: "(scast (word_of_int k :: u16) :: u32) = word_of_int (signed_take_bit 15 k)"
  by (rule bit_word_eqI) (auto simp: bit_simps min_def)

lemma branch_offset:
  assumes "CanEncodeBranchOffset dest" "4 dvd dest"
  shows "push_bit 2 (scast (word_of_int (dest div 4) :: u16) :: u32) = word_of_int dest"
proof -
  have r: "- (2 ^ 17) \<le> dest" "dest < 2 ^ 17" using assms(1) by (simp_all add: CanEncodeBranchOffset_def IsInt_def)
  have "signed_take_bit 15 (dest div 4) = dest div 4"
    using r by (intro signed_take_bit_int_eq_self) auto
  then have "push_bit 2 (scast (word_of_int (dest div 4) :: u16) :: u32) = word_of_int (dest div 4 * 4)"
    by (simp add: scast_of_int16 push_bit_eq_mult wi_hom_syms)
  then show ?thesis using assms(2) by (simp only: dvd_div_mult_self)
qed

lemma then_nop_Inr:
  "then_nop r = Inr (a', l') \<longleftrightarrow> (\<exists>b. r = Inr (b, l') \<and> a' = EmitBranchDelayNop b)"
  by (cases r) (auto simp: then_nop_def)

text \<open>Without far branches, a branch is one instruction with the encoded distance, or with the link to the previous branch.\<close>

definition near_dest :: "assembler \<Rightarrow> Label \<Rightarrow> int" where
  "near_dest a l = (if Label_IsBound l then Label_Position l - (CodeSize a + 4) else l)"

definition emits_near :: "(assembler \<Rightarrow> Label \<Rightarrow> asm_error + assembler \<times> Label) \<Rightarrow> (u16 \<Rightarrow> u32) \<Rightarrow> bool" where
  "emits_near emit word \<longleftrightarrow>
     (\<forall>imm d. patched d (word imm) = word (word_of_int (d div 4))) \<and>
     (\<forall>a l. \<not> use_far_branches a \<longrightarrow> emit a l =
        (if CanEncodeBranchOffset (near_dest a l)
         then Inr (Emit a (word (word_of_int (near_dest a l div 4))), if Label_IsBound l then l else Label_LinkTo (CodeSize a))
         else Inl branch_offset_error))"

lemma emits_nearD:
  assumes "emits_near emit word" "\<not> use_far_branches a" "emit a l = Inr (a', l')"
  shows "CanEncodeBranchOffset (near_dest a l)" "l' = (if Label_IsBound l then l else Label_LinkTo (CodeSize a))"
    "a' = Emit a (word (word_of_int (near_dest a l div 4)))" "patched d (word imm) = word (word_of_int (d div 4))"
proof -
  have e: "emit a l = (if CanEncodeBranchOffset (near_dest a l)
      then Inr (Emit a (word (word_of_int (near_dest a l div 4))), if Label_IsBound l then l else Label_LinkTo (CodeSize a))
      else Inl branch_offset_error)"
    using assms(1,2) unfolding emits_near_def by blast
  from assms(3) show "CanEncodeBranchOffset (near_dest a l)" "l' = (if Label_IsBound l then l else Label_LinkTo (CodeSize a))"
    "a' = Emit a (word (word_of_int (near_dest a l div 4)))"
    unfolding e by (cases "CanEncodeBranchOffset (near_dest a l)"; simp)+
  show "patched d (word imm) = word (word_of_int (d div 4))" using assms(1) by (simp add: emits_near_def)
qed

lemma linked_Emit:
  assumes "linked (buffer a) l ps" "CanEncodeBranchOffset l" "w = patched l v"
  shows "linked (buffer (Emit a w)) (Label_LinkTo (CodeSize a)) (CodeSize a # ps)"
proof -
  have "4 dvd l" using assms(1) by (cases ps) auto
  then have "DecodeBranchOffset w = l" using DecodeBranchOffset_patched [OF assms(2)] assms(3) by simp
  then show ?thesis
    using linked_append [OF assms(1), of "[w]"] linked_positions [OF assms(1)]
    by (fastforce simp: CodeSize_def Label_LinkTo_def)
qed

lemma near_branches_iff:
  fixes word :: "u16 \<Rightarrow> u32"
  assumes emit: "emits_near emit word"
    and step: "\<And>h s imm at. load32 (memory s) (sim_pc s + 4) = kNopInstruction \<Longrightarrow> \<not> delay_slot s \<Longrightarrow>
      InstructionDecode h (ExecuteDelaySlot h) s at (word imm) =
        Inr (s\<lparr>icount := icount s + 1, sim_pc := (if P s then sim_pc s + push_bit 2 (scast imm) else sim_pc s + 4) + 4\<rparr>)"
    and ic: "\<And>s n. P (s\<lparr>icount := n\<rparr>) = P s"
  shows "branches_iff (\<lambda>a l. then_nop (emit a l)) C P"
  unfolding branches_iff_def
proof (intro allI impI)
  fix a l a' l'
  assume pre: "then_nop (emit a l) = Inr (a', l') \<and> \<not> use_far_branches a \<and> 4 dvd l"
  let ?w = "word (word_of_int (near_dest a l div 4))" and ?qs = "if Label_IsBound l then [] else [CodeSize a]"
  obtain b where b: "emit a l = Inr (b, l')" "a' = EmitBranchDelayNop b" using pre by (auto simp: then_nop_Inr)
  note near = emits_nearD [OF emit _ b(1)]
  have w: "CanEncodeBranchOffset (near_dest a l)" "l' = (if Label_IsBound l then l else Label_LinkTo (CodeSize a))" "a' = EmitBranchDelayNop (Emit a ?w)"
    using near(1-3) b(2) pre by simp_all
  have pat: "patched d (word imm) = word (word_of_int (d div 4))" for d imm using near(4) pre by simp
  have code: "emitted a a' = [?w, kNopInstruction]" by (simp add: emitted_def w(3))
  have buf: "buffer a' = buffer a @ emitted a a'" unfolding code by (simp add: w(3))
  have link: "links_to a l a' l' ?qs"
  proof (cases "Label_IsBound l")
    case False
    then have "linked (buffer a') l' (CodeSize a # ps)" if "linked (buffer a) l ps" for ps
      using linked_append [OF linked_Emit [OF that _ pat [symmetric, of l]], of "[kNopInstruction]"] w
      by (simp add: near_dest_def del: linked.simps)
    then show ?thesis using False by (simp add: links_to_def del: linked.simps)
  qed (simp add: links_to_def w(2))
  have "\<exists>s'. runs h s s' \<and> unchanged_but C s s' \<and>
      sim_pc s' = (if P s then sim_pc s + word_of_int (t - CodeSize a) else sim_pc s + 4 * of_nat (length (emitted a a')))"
    if s: "aims_at l ?qs t" "\<not> delay_slot s" "code_at (memory s) (sim_pc s) (retarget t (set ?qs) (CodeSize a) (emitted a a'))" for t h s
  proof -
    let ?e = "t - (CodeSize a + 4)"
    have "4 dvd t" using s(1) pre by (auto simp: aims_at_def Label_Position_def split: if_splits)
    then have "4 dvd ?e" by (auto simp: CodeSize_def intro!: dvd_diff)
    moreover have "CanEncodeBranchOffset ?e" using s(1) w(1) by (auto simp: aims_at_def near_dest_def split: if_splits)
    ultimately have off: "push_bit 2 (scast (word_of_int (?e div 4) :: u16) :: u32) = word_of_int ?e" by (intro branch_offset)
    have at: "code_at (memory s) (sim_pc s) [word (word_of_int (?e div 4)), kNopInstruction]"
      using s(1,3) unfolding code by (cases "Label_IsBound l") (simp_all add: aims_at_def near_dest_def pat)
    have "steps h (Suc 0) s = Inr (s\<lparr>icount := icount s + 1 + 1,
        sim_pc := (if P s then sim_pc s + word_of_int ?e else sim_pc s + 4) + 4\<rparr>)"
      using s(2) at by (simp add: fetch step ic off)
    from runs_stepsI [OF this] show ?thesis
      by (intro exI conjI, assumption) (simp_all add: unchanged_but_def code)
  qed
  with buf link show "buffer a' = buffer a @ emitted a a' \<and> (\<exists>qs. links_to a l a' l' qs \<and>
      (\<forall>t h s. aims_at l qs t \<and> \<not> delay_slot s \<and> code_at (memory s) (sim_pc s) (retarget t (set qs) (CodeSize a) (emitted a a')) \<longrightarrow>
        (\<exists>s'. runs h s s' \<and> unchanged_but C s s' \<and> sim_pc s' = (if P s then sim_pc s + word_of_int (t - CodeSize a)
            else sim_pc s + 4 * of_nat (length (emitted a a'))))))"
    by blast
qed

lemma EmitIType_Emit: "EmitIType a b rs rt imm = Emit a (IType_word b rs rt imm)"
  by (simp add: EmitIType_def)

lemma EmitRegImm_Emit: "EmitRegImmType a op rs code imm = Emit a (IType_word op rs (unat code) imm)"
  by (simp add: EmitRegImmType_def RegImm_word)

lemma branch_taken_icount [simp]: "branch_taken op (s\<lparr>icount := n\<rparr>) rs rt = branch_taken op s rs rt"
  by (simp add: branch_taken_def)

lemma patched_word:
  assumes "\<And>imm. word imm = push_bit 16 c OR ucast (imm :: u16)"
  shows "patched d (word imm) = word (word_of_int (d div 4))"
  unfolding patched_def mask16 assms
  by (rule bit_word_eqI) (auto simp: bit_simps dest: bit_imp_le_length)

lemma IType_high: "IType_word op rs rt imm = push_bit 16 (push_bit 10 op OR push_bit 5 (of_nat rs) OR of_nat rt) OR ucast imm"
  by (rule bit_word_eqI) (auto simp: IType_word_def bit_simps)

lemma EmitBranch_near: "emits_near (\<lambda>a. EmitBranch a op rs rt) (IType_word op rs rt)"
  by (auto simp: emits_near_def EmitBranch_def EmitIType_Emit EncodeBranchOffset_eq ucast_patched near_dest_def Let_def
      intro!: patched_word IType_high)

lemma EmitRegImmBranch_near: "emits_near (\<lambda>a. EmitRegImmBranch a op rs) (IType_word REGIMM rs (unat op))"
  by (auto simp: emits_near_def EmitRegImmBranch_def EmitRegImm_Emit EncodeBranchOffset_eq ucast_patched near_dest_def Let_def
      intro!: patched_word IType_high)

lemma EmitBranch_branches:
  assumes "op \<in> {BEQ, BNE, BGTZ, BLEZ}" "rs < 32" "rt < 32"
  shows "branches_iff (\<lambda>a l. then_nop (EmitBranch a op rs rt l)) C (\<lambda>s. branch_taken op s rs rt)"
  by (rule near_branches_iff [OF EmitBranch_near]) (use assms in \<open>simp_all add: decode_branch\<close>)

lemma EmitRegImmBranch_branches:
  assumes "op \<in> {BGEZ, BLTZ}" "rs < 32"
  shows "branches_iff (\<lambda>a l. then_nop (EmitRegImmBranch a op rs l)) C
    (\<lambda>s. if op = BGEZ then 0 \<le> sint (get_register s rs) else sint (get_register s rs) < 0)"
  by (rule near_branches_iff [OF EmitRegImmBranch_near]) (use assms in \<open>simp_all add: decode_regimm\<close>)


named_theorems branching

lemma asm_branches [branching]:
  assumes "rs < 32" "rt < 32"
  shows "branches_iff (\<lambda>a. asm_beq a rs rt) C (\<lambda>s. get_register s rs = get_register s rt)"
    and "branches_iff (\<lambda>a. asm_bne a rs rt) C (\<lambda>s. get_register s rs \<noteq> get_register s rt)"
  unfolding asm_beq_def asm_bne_def
  using EmitBranch_branches [OF _ assms, of BEQ] EmitBranch_branches [OF _ assms, of BNE]
  by (simp_all add: branch_taken_def)

lemma asm_branches_zero [branching]:
  assumes "rs < 32"
  shows "branches_iff (\<lambda>a. asm_bgtz a rs) C (\<lambda>s. 0 < sint (get_register s rs))"
    and "branches_iff (\<lambda>a. asm_blez a rs) C (\<lambda>s. sint (get_register s rs) \<le> 0)"
    and "branches_iff (\<lambda>a. asm_bgez a rs) C (\<lambda>s. 0 \<le> sint (get_register s rs))"
    and "branches_iff (\<lambda>a. asm_bltz a rs) C (\<lambda>s. sint (get_register s rs) < 0)"
  unfolding asm_bgtz_def asm_blez_def asm_bgez_def asm_bltz_def
  using EmitBranch_branches [of BGTZ rs 0] EmitBranch_branches [of BLEZ rs 0]
    EmitRegImmBranch_branches [of BGEZ rs] EmitRegImmBranch_branches [of BLTZ rs] assms
  by (simp_all add: branch_taken_def)

lemma asm_branches_ZR [branching]:
  assumes "r < 32"
  shows "branches_iff (\<lambda>a. asm_beq a r ZR) C (\<lambda>s. get_register s r = 0)"
    and "branches_iff (\<lambda>a. asm_bne a r ZR) C (\<lambda>s. get_register s r \<noteq> 0)"
    and "branches_iff (\<lambda>a. asm_beq a ZR ZR) C (\<lambda>s. True)"
  using asm_branches [of r 0 C] asm_branches(1) [of 0 0 C] assms by simp_all

lemma asm_b_branches [branching]: "branches_iff asm_b C (\<lambda>s. True)"
proof -
  have "asm_b = (\<lambda>a. asm_beq a 0 0)" by (intro ext) (simp add: asm_b_def)
  then show ?thesis using asm_branches(1) [of 0 0] by simp
qed

section \<open>Straight-line code\<close>

named_theorems computing

lemma computes_instr:
  assumes "\<And>a. buffer (p a) = buffer a @ [w]" "\<And>a. use_far_branches (p a) = use_far_branches a" "rd \<noteq> 0"
    and "\<And>h s at. InstructionDecode h (ExecuteDelaySlot h) s at w = Inr ((set_register s rd (f s))\<lparr>sim_pc := sim_pc s + 4\<rparr>)"
    and "\<And>s n. f (s\<lparr>icount := n\<rparr>) = f s"
  shows "computes p {rd} (\<lambda>s s'. get_register s' rd = f s)"
proof (rule computesI [OF assms(1,2)])
  fix h and s :: simulator assume s: "\<not> delay_slot s" "code_at (memory s) (sim_pc s) [w]"
  have "steps h (Suc 0) s = Inr ((set_register (s\<lparr>icount := icount s + 1\<rparr>) rd (f s))\<lparr>sim_pc := sim_pc s + 4\<rparr>)"
    using s assms(4,5) by (simp add: fetch)
  from runs_stepsI [OF this] show "\<exists>s'. runs h s s' \<and> sim_pc s' = sim_pc s + 4 * of_nat (length [w])
      \<and> unchanged_but {rd} s s' \<and> get_register s' rd = f s"
    by (intro exI conjI, assumption) (use assms(3) in \<open>auto simp: unchanged_but_def\<close>)
qed

lemma computes_regs [computing]:
  assumes "rd < 32" "rs < 32" "rt < 32" "rd \<noteq> 0"
  shows "computes (\<lambda>a. asm_slt a rd rs rt) {rd}
      (\<lambda>s s'. get_register s' rd = (if sint (get_register s rs) < sint (get_register s rt) then 1 else 0))"
    and "computes (\<lambda>a. asm_sltu a rd rs rt) {rd}
      (\<lambda>s s'. get_register s' rd = (if get_register s rs < get_register s rt then 1 else 0))"
    and "computes (\<lambda>a. asm_addu a rd rs rt) {rd} (\<lambda>s s'. get_register s' rd = get_register s rs + get_register s rt)"
    and "computes (\<lambda>a. asm_and a rd rs rt) {rd} (\<lambda>s s'. get_register s' rd = get_register s rs AND get_register s rt)"
    and "computes (\<lambda>a. asm_or a rd rs rt) {rd} (\<lambda>s s'. get_register s' rd = get_register s rs OR get_register s rt)"
    and "computes (\<lambda>a. asm_xor a rd rs rt) {rd} (\<lambda>s s'. get_register s' rd = get_register s rs XOR get_register s rt)"
    and "computes (\<lambda>a. asm_nor a rd rs rt) {rd} (\<lambda>s s'. get_register s' rd = NOT (get_register s rs OR get_register s rt))"
  by (rule computes_instr, simp add: asm_defs, simp add: asm_defs, rule assms,
      use assms in \<open>simp add: mips_decode\<close>, simp)+

lemma computes_imm [computing]:
  assumes "rt < 32" "rs < 32" "rt \<noteq> 0"
  shows "computes (\<lambda>a. asm_slti a rt rs imm) {rt}
      (\<lambda>s s'. get_register s' rt = (if sint (get_register s rs) < sint (scast (ucast imm :: u16) :: u32) then 1 else 0))"
    and "computes (\<lambda>a. asm_sltiu a rt rs imm) {rt}
      (\<lambda>s s'. get_register s' rt = (if get_register s rs < scast (ucast imm :: u16) then 1 else 0))"
    and "computes (\<lambda>a. asm_addiu a rt rs imm) {rt} (\<lambda>s s'. get_register s' rt = get_register s rs + scast (ucast imm :: u16))"
    and "computes (\<lambda>a. asm_andi a rt rs imm) {rt} (\<lambda>s s'. get_register s' rt = get_register s rs AND ucast (ucast imm :: u16))"
  by (rule computes_instr, simp add: asm_defs, simp add: asm_defs, rule assms,
      use assms in \<open>simp add: mips_decode\<close>, simp)+

lemma computes_shift [computing]:
  assumes "rd < 32" "rt < 32" "sa < 32" "rd \<noteq> 0"
  shows "computes (\<lambda>a. asm_sll a rd rt sa) {rd} (\<lambda>s s'. get_register s' rd = push_bit sa (get_register s rt))"
    and "computes (\<lambda>a. asm_sra a rd rt sa) {rd} (\<lambda>s s'. get_register s' rd = signed_drop_bit sa (get_register s rt))"
  by (rule computes_instr, simp add: asm_defs, simp add: asm_defs, rule assms,
      use assms in \<open>simp add: mips_decode\<close>, simp)+

lemma LoadImmediate_emitted:
  "\<exists>ws. \<forall>a. buffer (LoadImmediate a rd v) = buffer a @ ws \<and> use_far_branches (LoadImmediate a rd v) = use_far_branches a"
  by (auto simp: LoadImmediate_def Let_def asm_defs)

lemma computes_LoadImmediate [computing]:
  assumes "rd < 32" "rd \<noteq> 0"
  shows "computes (\<lambda>a. LoadImmediate a rd v) {rd} (\<lambda>s s'. get_register s' rd = v)"
proof -
  obtain ws where ws: "\<And>a. buffer (LoadImmediate a rd v) = buffer a @ ws"
    "\<And>a. use_far_branches (LoadImmediate a rd v) = use_far_branches a"
    using LoadImmediate_emitted [of rd v] by blast
  show ?thesis
  proof (rule computesI [OF ws])
    fix h and s :: simulator assume s: "\<not> delay_slot s" "code_at (memory s) (sim_pc s) ws"
    have e: "emitted a (LoadImmediate a rd v) = ws" for a by (simp add: emitted_def ws(1))
    obtain ic where "runs h s (s\<lparr>registers := (registers s)(rd := v), sim_pc := sim_pc s + 4 * of_nat (length ws), icount := ic\<rparr>)"
      using LoadImmediate_runs [OF assms, of s _ v h, unfolded e, OF s(2)] by blast
    then show "\<exists>s'. runs h s s' \<and> sim_pc s' = sim_pc s + 4 * of_nat (length ws) \<and> unchanged_but {rd} s s' \<and> get_register s' rd = v"
      by (intro exI conjI, assumption) (use assms in \<open>auto simp: unchanged_but_def get_register_def\<close>)
  qed
qed


section \<open>Branching code in memory\<close>

text \<open>
  What a macro that branches to a label promises for the code in memory, when far branches are off. If the label is bound, the code
  jumps from the start of the macro to the label exactly when the condition holds, and otherwise continues behind the macro;
  it changes only the registers in \<open>C\<close>. The run starts outside of a delay slot. If the label is unbound, with the branches to it at the positions \<open>ps\<close>, the macro
  links its own branches, at \<open>qs\<close>, and the same holds of the code after the label has been bound, whatever has been emitted in between: \<open>b\<close>
  is the assembler before binding, which still has the code of the macro, and \<open>rs\<close> are the positions of the later branches. That the branches to an unbound label
  are linked holds for all code emitted without far branches, by \<open>emits_ok\<close> in \<open>Mips_Labels\<close>.
\<close>

definition starts_at :: "simulator \<Rightarrow> u32 \<Rightarrow> assembler \<Rightarrow> int \<Rightarrow> bool" where
  "starts_at s start a p \<longleftrightarrow> \<not> delay_slot s \<and> code_at (memory s) start (buffer a) \<and> sim_pc s = start + word_of_int p"

definition keeps_code :: "assembler \<Rightarrow> assembler \<Rightarrow> assembler \<Rightarrow> bool" where
  "keeps_code a a' b \<longleftrightarrow> length (buffer a') \<le> length (buffer b)
     \<and> (\<forall>i. length (buffer a) \<le> i \<and> i < length (buffer a') \<longrightarrow> buffer b ! i = buffer a' ! i)"

definition jumps_iff :: "(assembler \<Rightarrow> Label \<Rightarrow> asm_error + assembler \<times> Label) \<Rightarrow> nat set \<Rightarrow> (simulator \<Rightarrow> bool) \<Rightarrow> bool" where
  "jumps_iff emit C P \<longleftrightarrow>
     (\<forall>a l a' l'. emit a l = Inr (a', l') \<and> \<not> use_far_branches a \<and> Label_IsBound l \<and> 4 dvd l \<longrightarrow>
        l' = l \<and> (\<forall>h s start. starts_at s start a' (CodeSize a) \<longrightarrow>
          (\<exists>s'. runs h s s' \<and> unchanged_but C s s' \<and>
             sim_pc s' = start + word_of_int (if P s then Label_Position l else CodeSize a'))))
   \<and> (\<forall>a l ps a' l'. emit a l = Inr (a', l') \<and> \<not> use_far_branches a \<and> linked (buffer a) l ps \<longrightarrow>
        (\<exists>qs. linked (buffer a') l' (qs @ ps) \<and>
          (\<forall>b k rs b' k' h s start.
             keeps_code a a' b \<and> \<not> use_far_branches b \<and> linked (buffer b) k (rs @ qs @ ps) \<and> (\<forall>r \<in> set rs. CodeSize a' \<le> r)
               \<and> Bind b k = Some (Inr (b', k')) \<and> starts_at s start b' (CodeSize a) \<longrightarrow>
             (\<exists>s'. runs h s s' \<and> unchanged_but C s s' \<and>
                sim_pc s' = start + word_of_int (if P s then Label_Position k' else CodeSize a')))))"

lemma Bind_near_Inr:
  assumes "\<not> use_far_branches b" "linked (buffer b) k ps" "Bind b k = Some (Inr (b', k'))"
  shows "resolved (CodeSize b) ps (buffer b) (buffer b')" "k' = Label_BindTo (CodeSize b)" "use_far_branches b' = use_far_branches b"
    "delay_slot_available b' = False" "\<forall>p \<in> set ps. CanEncodeBranchOffset (CodeSize b - (p + 4))"
proof -
  note loop = Bind_loop_near [OF assms(1,2), of "CodeSize b"]
  show can: "\<forall>p \<in> set ps. CanEncodeBranchOffset (CodeSize b - (p + 4))"
  proof (rule ccontr)
    assume "\<not> ?thesis"
    with loop have "Bind_loop b (CodeSize b) k = Some (Inl branch_offset_error)" by presburger
    then show False using assms(3) by (simp add: Bind_def)
  qed
  then obtain code where "Bind_loop b (CodeSize b) k = Some (Inr (b\<lparr>buffer := code\<rparr>))" "resolved (CodeSize b) ps (buffer b) code"
    using loop by auto
  then show "resolved (CodeSize b) ps (buffer b) (buffer b')" "k' = Label_BindTo (CodeSize b)" "use_far_branches b' = use_far_branches b"
    "delay_slot_available b' = False"
    using assms(3) by (auto simp: Bind_def)
qed

lemma code_at_slice:
  assumes "code_at m start code" "n \<le> k" "k \<le> length code"
  shows "code_at m (start + 4 * of_nat n) (take (k - n) (drop n code))"
proof -
  have "code = take n code @ take (k - n) (drop n code) @ drop (k - n) (drop n code)" by (simp del: drop_drop)
  then have "code_at m start (take n code @ take (k - n) (drop n code) @ drop (k - n) (drop n code))" using assms(1) by metis
  then show ?thesis using assms(2,3) by (simp add: min_absorb2)
qed

lemma Position_BindTo: "0 \<le> p \<Longrightarrow> Label_Position (Label_BindTo p) = p"
  by (simp add: Label_Position_def Label_BindTo_def Label_IsBound_def)

lemma linked_Label: "linked code l ps \<Longrightarrow> \<not> Label_IsBound l \<and> 4 dvd l"
  by (cases ps) (auto simp: Label_IsBound_def)

lemma keeps_code_slice:
  assumes "keeps_code a a' b" "buffer a' = buffer a @ emitted a a'"
  shows "take (length (buffer a') - length (buffer a)) (drop (length (buffer a)) (buffer b)) = emitted a a'" (is "?l = _")
proof (rule nth_equalityI)
  have len: "length (buffer a') \<le> length (buffer b)" using assms(1) by (simp add: keeps_code_def)
  then show "length ?l = length (emitted a a')" by (simp add: emitted_def)
  fix i assume "i < length ?l"
  then show "?l ! i = emitted a a' ! i" using assms(1) len by (simp add: keeps_code_def emitted_def)
qed

lemma emitted_CodeSize: "buffer a' = buffer a @ emitted a a' \<Longrightarrow> CodeSize a' = CodeSize a + 4 * int (length (emitted a a'))"
  by (drule arg_cong [of _ _ length]) (simp add: CodeSize_def)

lemma branches_bound:
  assumes "branches_iff emit C P" "emit a l = Inr (a', l')" "\<not> use_far_branches a" "Label_IsBound l" "4 dvd l"
  shows "l' = l" "starts_at s start a' (CodeSize a) \<Longrightarrow> \<exists>s'. runs h s s' \<and> unchanged_but C s s' \<and>
    sim_pc s' = start + word_of_int (if P s then Label_Position l else CodeSize a')"
proof -
  obtain qs where e: "buffer a' = buffer a @ emitted a a'" "links_to a l a' l' qs"
    and run: "\<And>t h s. \<lbrakk>aims_at l qs t; \<not> delay_slot s; code_at (memory s) (sim_pc s) (retarget t (set qs) (CodeSize a) (emitted a a'))\<rbrakk> \<Longrightarrow>
      \<exists>s'. runs h s s' \<and> unchanged_but C s s' \<and>
        sim_pc s' = (if P s then sim_pc s + word_of_int (t - CodeSize a) else sim_pc s + 4 * of_nat (length (emitted a a')))"
    using branches_iffE [OF assms(1-3,5)] by metis
  show "l' = l" using e(2) assms(4) by (simp add: links_to_def)
  have q: "qs = []" using e(2) assms(4) by (simp add: links_to_def)
  have id: "retarget t {} p ws = ws" for t p ws by (rule retarget_behind) simp
  assume s: "starts_at s start a' (CodeSize a)"
  then have "code_at (memory s) start (buffer a @ emitted a a')" using e(1) by (metis starts_at_def)
  then have at: "code_at (memory s) (sim_pc s) (emitted a a')" using s by (simp add: starts_at_def CodeSize_def)
  from run [of "Label_Position l" s h] obtain s' where "runs h s s'" "unchanged_but C s s'"
    "sim_pc s' = (if P s then sim_pc s + word_of_int (Label_Position l - CodeSize a) else sim_pc s + 4 * of_nat (length (emitted a a')))"
    using at s assms(4) q by (auto simp: aims_at_def starts_at_def id)
  then show "\<exists>s'. runs h s s' \<and> unchanged_but C s s' \<and> sim_pc s' = start + word_of_int (if P s then Label_Position l else CodeSize a')"
    using s emitted_CodeSize [OF e(1)] by (intro exI [of _ s']) (simp add: starts_at_def)
qed

lemma branches_unbound:
  assumes "branches_iff emit C P" "emit a l = Inr (a', l')" "\<not> use_far_branches a" "linked (buffer a) l ps"
  obtains qs where "linked (buffer a') l' (qs @ ps)"
    and "\<And>b k rs b' k' h s start. \<lbrakk>keeps_code a a' b; \<not> use_far_branches b; linked (buffer b) k (rs @ qs @ ps);
        \<forall>r \<in> set rs. CodeSize a' \<le> r; Bind b k = Some (Inr (b', k')); starts_at s start b' (CodeSize a)\<rbrakk> \<Longrightarrow>
      \<exists>s'. runs h s s' \<and> unchanged_but C s s' \<and> sim_pc s' = start + word_of_int (if P s then Label_Position k' else CodeSize a')"
proof -
  have l: "\<not> Label_IsBound l" "4 dvd l" using linked_Label [OF assms(4)] by blast+
  obtain qs where e: "buffer a' = buffer a @ emitted a a'" "links_to a l a' l' qs"
    and run: "\<And>t h s. \<lbrakk>aims_at l qs t; \<not> delay_slot s; code_at (memory s) (sim_pc s) (retarget t (set qs) (CodeSize a) (emitted a a'))\<rbrakk> \<Longrightarrow>
      \<exists>s'. runs h s s' \<and> unchanged_but C s s' \<and>
        sim_pc s' = (if P s then sim_pc s + word_of_int (t - CodeSize a) else sim_pc s + 4 * of_nat (length (emitted a a')))"
    using branches_iffE [OF assms(1-3) l(2)] by metis
  have p: "\<forall>p \<in> set ps. p < CodeSize a" using linked_positions [OF assms(4)] by (fastforce simp: CodeSize_def)
  show ?thesis
  proof (rule that [of qs])
    show "linked (buffer a') l' (qs @ ps)" using e(2) assms(4) l(1) by (simp add: links_to_def)
    fix b k rs b' k' h s start
    assume b: "keeps_code a a' b" "\<not> use_far_branches b" "linked (buffer b) k (rs @ qs @ ps)" "\<forall>r \<in> set rs. CodeSize a' \<le> r"
      "Bind b k = Some (Inr (b', k'))" and s: "starts_at s start b' (CodeSize a)"
    let ?n = "length (buffer a)" and ?m = "length (buffer a')"
    note bind = Bind_near_Inr [OF b(2,3,5)]
    have len: "?n \<le> ?m" "?m \<le> length (buffer b)" "length (buffer b') = length (buffer b)"
      using b(1) bind(1) arg_cong [OF e(1), of length] by (simp_all add: keeps_code_def resolved_def)
    have "take (?m - ?n) (drop ?n (buffer b')) = retarget (CodeSize b) (set qs) (4 * int ?n) (take (?m - ?n) (drop ?n (buffer b)))"
      by (rule resolved_slice [OF bind(1) len(1,2)]) (use b(4) p in \<open>auto simp: CodeSize_def\<close>)
    then have code: "code_at (memory s) (sim_pc s) (retarget (CodeSize b) (set qs) (CodeSize a) (emitted a a'))"
      using code_at_slice [of "memory s" start "buffer b'" ?n ?m] s len keeps_code_slice [OF b(1) e(1)]
      by (simp add: starts_at_def CodeSize_def)
    have "aims_at l qs (CodeSize b)" using l(1) bind(5) by (simp add: aims_at_def CodeSize_def)
    from run [OF this _ code, of h] obtain s' where "runs h s s'" "unchanged_but C s s'"
      "sim_pc s' = (if P s then sim_pc s + word_of_int (CodeSize b - CodeSize a) else sim_pc s + 4 * of_nat (length (emitted a a')))"
      using s by (auto simp: starts_at_def)
    moreover have "Label_Position k' = CodeSize b" unfolding bind(2) by (rule Position_BindTo) (simp add: CodeSize_def)
    ultimately show "\<exists>s'. runs h s s' \<and> unchanged_but C s s' \<and>
        sim_pc s' = start + word_of_int (if P s then Label_Position k' else CodeSize a')"
      using s emitted_CodeSize [OF e(1)] by (intro exI [of _ s']) (simp add: starts_at_def)
  qed
qed

lemma branches_jumps:
  assumes "branches_iff emit C P"
  shows "jumps_iff emit C P"
  unfolding jumps_iff_def
proof (rule conjI; intro allI impI)
  fix a l a' l'
  assume "emit a l = Inr (a', l') \<and> \<not> use_far_branches a \<and> Label_IsBound l \<and> 4 dvd l"
  then show "l' = l \<and> (\<forall>h s start. starts_at s start a' (CodeSize a) \<longrightarrow>
      (\<exists>s'. runs h s s' \<and> unchanged_but C s s' \<and> sim_pc s' = start + word_of_int (if P s then Label_Position l else CodeSize a')))"
    using branches_bound [OF assms, of a l a' l'] by blast
next
  fix a l ps a' l'
  assume "emit a l = Inr (a', l') \<and> \<not> use_far_branches a \<and> linked (buffer a) l ps"
  then have pre: "emit a l = Inr (a', l')" "\<not> use_far_branches a" "linked (buffer a) l ps" by auto
  show "\<exists>qs. linked (buffer a') l' (qs @ ps) \<and>
      (\<forall>b k rs b' k' h s start. keeps_code a a' b \<and> \<not> use_far_branches b \<and> linked (buffer b) k (rs @ qs @ ps)
          \<and> (\<forall>r \<in> set rs. CodeSize a' \<le> r) \<and> Bind b k = Some (Inr (b', k')) \<and> starts_at s start b' (CodeSize a) \<longrightarrow>
        (\<exists>s'. runs h s s' \<and> unchanged_but C s s' \<and> sim_pc s' = start + word_of_int (if P s then Label_Position k' else CodeSize a')))"
  proof (rule branches_unbound [OF assms pre], goal_cases)
    case (1 qs)
    show ?case by (rule exI [of _ qs], rule conjI [OF 1(1)], intro allI impI, elim conjE) (rule 1(2); assumption)
  qed
qed

text \<open>The contract for a bound label, and for a new label that is bound behind some more code.\<close>

lemma jumps_boundD:
  assumes "jumps_iff emit C P" "emit a l = Inr (a', l')" "\<not> use_far_branches a" "Label_IsBound l" "4 dvd l" "starts_at s start a' (CodeSize a)"
  shows "\<exists>s'. runs h s s' \<and> unchanged_but C s s' \<and> sim_pc s' = start + word_of_int (if P s then Label_Position l else CodeSize a')"
proof -
  have "emit a l = Inr (a', l') \<and> \<not> use_far_branches a \<and> Label_IsBound l \<and> 4 dvd l" using assms(2-5) by simp
  from assms(1) [unfolded jumps_iff_def, THEN conjunct1, rule_format, OF this] assms(6) show ?thesis by blast
qed

lemma jumps_newD:
  assumes "jumps_iff emit C P" "emit a 0 = Inr (a', l')" "\<not> use_far_branches a"
    and b: "buffer b = buffer a' @ ws" "\<not> use_far_branches b" "Bind b l' = Some (Inr (b', k'))" "starts_at s start b' (CodeSize a)"
  shows "\<exists>s'. runs h s s' \<and> unchanged_but C s s' \<and> sim_pc s' = start + word_of_int (if P s then Label_Position k' else CodeSize a')"
proof -
  have "emit a 0 = Inr (a', l') \<and> \<not> use_far_branches a \<and> linked (buffer a) 0 []" using assms(2,3) by simp
  from assms(1) [unfolded jumps_iff_def, THEN conjunct2, rule_format, OF this] obtain qs where qs: "linked (buffer a') l' (qs @ [])"
    and run: "\<And>b k rs b' k' h s start. keeps_code a a' b \<and> \<not> use_far_branches b \<and> linked (buffer b) k (rs @ qs @ [])
          \<and> (\<forall>r \<in> set rs. CodeSize a' \<le> r) \<and> Bind b k = Some (Inr (b', k')) \<and> starts_at s start b' (CodeSize a) \<longrightarrow>
        (\<exists>s'. runs h s s' \<and> unchanged_but C s s' \<and> sim_pc s' = start + word_of_int (if P s then Label_Position k' else CodeSize a'))"
    by auto
  have "keeps_code a a' b" by (simp add: keeps_code_def b(1) nth_append)
  then show ?thesis using run [of b l' "[]" b' k' s start h] linked_append [OF qs, of ws] b by simp
qed

lemma jumps_newE:
  assumes "jumps_iff emit C P" "emit a 0 = Inr (a', l')" "\<not> use_far_branches a"
  obtains qs where "linked (buffer a') l' qs"
proof -
  have "emit a 0 = Inr (a', l') \<and> \<not> use_far_branches a \<and> linked (buffer a) 0 []" using assms(2,3) by simp
  from assms(1) [unfolded jumps_iff_def, THEN conjunct2, rule_format, OF this] that show ?thesis by auto
qed

lemma Bind_short:
  assumes "\<not> use_far_branches b" "linked (buffer b) k ps" "length (buffer b) \<le> 1000"
  shows "\<exists>b'. Bind b k = Some (Inr (b', Label_BindTo (CodeSize b))) \<and> length (buffer b') = length (buffer b)"
proof -
  have "\<forall>p \<in> set ps. CanEncodeBranchOffset (CodeSize b - (p + 4))"
    using linked_positions [OF assms(2)] assms(3) by (fastforce simp: CanEncodeBranchOffset_def IsInt_def CodeSize_def)
  then obtain code where "Bind_loop b (CodeSize b) k = Some (Inr (b\<lparr>buffer := code\<rparr>))" "resolved (CodeSize b) ps (buffer b) code"
    using Bind_loop_near [OF assms(1,2), of "CodeSize b"] by auto
  then show ?thesis by (auto simp: Bind_def resolved_def)
qed

text \<open>Code at the address 0x10000.\<close>

lemmas near_emit = asm_defs asm_beq_def asm_bne_def then_nop_def EmitBranch_def Label_IsBound_def
  Label_BindTo_def EncodeBranchOffset_def CanEncodeBranchOffset_def IsInt_def Label_Position_def CodeSize_def
  Assembler_new_def

lemma starts_at_machine:
  "length (buffer a') \<le> 1000 \<Longrightarrow> starts_at (machine regs 0x10000 (buffer a')) 0x10000 a' (CodeSize (Assembler_new far))"
  using code_at_machine_0x10000 [of "buffer a'" regs] by (simp add: starts_at_def Assembler_new_def CodeSize_def)

lemma new_assembler [simp]:
  "\<not> use_far_branches (Assembler_new False)" "Label_IsBound (Label_BindTo 0)" "4 dvd Label_BindTo 0" "Label_Position (Label_BindTo 0) = 0"
  by (simp_all add: Assembler_new_def Label_IsBound_def Label_BindTo_def Label_Position_def)

section \<open>Compare and branch\<close>

lemma unchanged_butD [dest]: "unchanged_but C s s1 \<Longrightarrow> r \<notin> C \<Longrightarrow> get_register s1 r = get_register s r"
  by (simp add: unchanged_but_def)

text \<open>A comparison leaves 0 or 1 in a register, and the branch tests it against zero.\<close>

lemma flag_branches:
  assumes "c < 32" "computes p {c} (\<lambda>s s'. get_register s' c = (if P s then 1 else 0))"
  shows "branches_iff (\<lambda>a. asm_bne (p a) c ZR) {c} P"
    and "branches_iff (\<lambda>a. asm_beq (p a) c ZR) {c} (\<lambda>s. \<not> P s)"
proof -
  show "branches_iff (\<lambda>a. asm_bne (p a) c ZR) {c} P"
    by (rule branches_after [OF assms(2) asm_branches(2) [where C = "{c}"]]) (use assms(1) in simp_all)
  show "branches_iff (\<lambda>a. asm_beq (p a) c ZR) {c} (\<lambda>s. \<not> P s)"
    by (rule branches_after [OF assms(2) asm_branches(1) [where C = "{c}"]]) (use assms(1) in simp_all)
qed

lemma branch_set_less:
  assumes "rd < 32" "rs < 32"
  shows "branches_iff (\<lambda>a. BranchSignedGreater a rd rs) {CMPRES2} (\<lambda>s. sint (get_register s rs) < sint (get_register s rd))"
    and "branches_iff (\<lambda>a. BranchUnsignedGreater a rd rs) {CMPRES2} (\<lambda>s. get_register s rs < get_register s rd)"
    and "branches_iff (\<lambda>a. BranchSignedGreaterEqual a rd rs) {CMPRES2} (\<lambda>s. sint (get_register s rs) \<le> sint (get_register s rd))"
    and "branches_iff (\<lambda>a. BranchUnsignedGreaterEqual a rd rs) {CMPRES2} (\<lambda>s. get_register s rs \<le> get_register s rd)"
  unfolding BranchSignedGreater_def [abs_def] BranchUnsignedGreater_def [abs_def]
    BranchSignedGreaterEqual_def [abs_def] BranchUnsignedGreaterEqual_def [abs_def]
  using flag_branches(1) [OF _ computes_regs(1) [of CMPRES2 rs rd]] flag_branches(1) [OF _ computes_regs(2) [of CMPRES2 rs rd]]
    flag_branches(2) [OF _ computes_regs(1) [of CMPRES2 rd rs]] flag_branches(2) [OF _ computes_regs(2) [of CMPRES2 rd rs]] assms
  by (simp_all add: not_less)

lemma branch_after_LoadImmediate:
  assumes "\<And>rs. rs < 32 \<Longrightarrow> branches_iff (\<lambda>a. emit a rs) {CMPRES2} (\<lambda>s. P (get_register s rd) (get_register s rs))"
    and "rd < 32" "rd \<noteq> CMPRES2"
  shows "branches_iff (\<lambda>a. emit (LoadImmediate a CMPRES2 imm) CMPRES2) {CMPRES2} (\<lambda>s. P (get_register s rd) imm)"
  by (rule branches_after [OF computes_LoadImmediate assms(1)]) (use assms(2,3) in \<open>auto dest: unchanged_butD\<close>)


lemma sint_plus_1:
  fixes imm :: u32
  assumes "IsInt 16 (sint (imm + 1))"
  shows "sint (imm + 1) = sint imm + 1"
proof -
  have "sint (imm + 1) = signed_take_bit 31 (sint imm + 1)" by (simp add: sint_word_add)
  also have "\<dots> = (if sint imm + 1 < - 2147483648 then sint imm + 1 + 4294967296
      else if sint imm + 1 \<ge> 2147483648 then sint imm + 1 - 4294967296 else sint imm + 1)"
    using sint_bounds [of imm] by (intro signed_take_bit_31_cases) auto
  finally show ?thesis using assms sint_bounds [of imm] by (auto simp: IsInt_def split: if_splits)
qed

lemma less_plus_1:
  fixes x imm :: u32
  assumes "imm \<noteq> - 1"
  shows "x < imm + 1 \<longleftrightarrow> x \<le> imm"
proof -
  have "unat imm + 1 < 2 ^ 32"
  proof (rule ccontr)
    assume "\<not> unat imm + 1 < 2 ^ 32"
    moreover have "unat imm < 2 ^ 32" by (simp add: unsigned_less [where w = imm, simplified])
    ultimately have "unat imm = unat (- 1 :: u32)" by (simp add: unsigned_minus_1_eq_mask mask_eq_exp_minus_1)
    then show False using assms unsigned_word_eqI by blast
  qed
  then have "unat (imm + 1) = unat imm + 1" by (simp add: unat_word_ariths)
  then show ?thesis by (auto simp: word_less_nat_alt word_le_nat_alt)
qed

lemma never_branches: "branches_iff (\<lambda>a l. Inr (a, l)) C (\<lambda>s. False)"
  unfolding branches_iff_def links_to_def
  by (auto intro!: exI [of _ "[] :: int list"] exI [of _ "_ :: simulator"] simp: unchanged_but_def)


lemma branch_set_less_imm:
  assumes "rd < 32" "IsInt 16 (sint imm)"
  shows "branches_iff (\<lambda>a. asm_beq (asm_slti a CMPRES2 rd imm) CMPRES2 ZR) {CMPRES2} (\<lambda>s. sint imm \<le> sint (get_register s rd))"
    and "branches_iff (\<lambda>a. asm_bne (asm_slti a CMPRES2 rd imm) CMPRES2 ZR) {CMPRES2} (\<lambda>s. sint (get_register s rd) < sint imm)"
    and "branches_iff (\<lambda>a. asm_beq (asm_sltiu a CMPRES2 rd imm) CMPRES2 ZR) {CMPRES2} (\<lambda>s. imm \<le> get_register s rd)"
    and "branches_iff (\<lambda>a. asm_bne (asm_sltiu a CMPRES2 rd imm) CMPRES2 ZR) {CMPRES2} (\<lambda>s. get_register s rd < imm)"
  using flag_branches [OF _ computes_imm(1) [of CMPRES2 rd imm]] flag_branches [OF _ computes_imm(2) [of CMPRES2 rd imm]] assms
  by (simp_all add: sext_imm16 not_less)

lemma BranchEqual_branches:
  assumes "rd < 32" "rd \<noteq> CMPRES2"
  shows "branches_iff (\<lambda>a. BranchEqual_imm a rd imm) {CMPRES2} (\<lambda>s. get_register s rd = imm)"
    and "branches_iff (\<lambda>a. BranchNotEqual_imm a rd imm) {CMPRES2} (\<lambda>s. get_register s rd \<noteq> imm)"
  unfolding BranchEqual_imm_def [abs_def] BranchNotEqual_imm_def [abs_def]
  using asm_branches [of rd 0 "{CMPRES2}"] assms
    branch_after_LoadImmediate [of "\<lambda>a. asm_beq a rd" "(=)" rd imm] branch_after_LoadImmediate [of "\<lambda>a. asm_bne a rd" "(\<noteq>)" rd imm]
  by (cases "imm = 0"; simp add: asm_branches)+

lemma Branch_imm_signed:
  assumes "rd < 32" "rd \<noteq> CMPRES2"
  shows "branches_iff (\<lambda>a. BranchSignedGreater_imm a rd imm) {CMPRES2} (\<lambda>s. sint imm < sint (get_register s rd))"
    and "branches_iff (\<lambda>a. BranchSignedGreaterEqual_imm a rd imm) {CMPRES2} (\<lambda>s. sint imm \<le> sint (get_register s rd))"
    and "branches_iff (\<lambda>a. BranchSignedLess_imm a rd imm) {CMPRES2} (\<lambda>s. sint (get_register s rd) < sint imm)"
    and "branches_iff (\<lambda>a. BranchSignedLessEqual_imm a rd imm) {CMPRES2} (\<lambda>s. sint (get_register s rd) \<le> sint imm)"
proof -
  note zero = asm_branches_zero [OF assms(1), where C = "{CMPRES2}"]
  note imm0 = branch_set_less_imm [OF assms(1), of imm] and imm1 = branch_set_less_imm [OF assms(1), of "imm + 1"]
  show "branches_iff (\<lambda>a. BranchSignedGreater_imm a rd imm) {CMPRES2} (\<lambda>s. sint imm < sint (get_register s rd))"
    unfolding BranchSignedGreater_imm_def [abs_def]
    using zero(1) imm1(1) sint_plus_1 [of imm] assms
      branch_after_LoadImmediate [of "\<lambda>a. BranchSignedGreater a rd" "\<lambda>x y. sint y < sint x" rd imm]
    by (cases "imm = 0"; cases "IsInt 16 (sint (imm + 1))"; simp add: branch_set_less add1_zle_eq)
  show "branches_iff (\<lambda>a. BranchSignedGreaterEqual_imm a rd imm) {CMPRES2} (\<lambda>s. sint imm \<le> sint (get_register s rd))"
    unfolding BranchSignedGreaterEqual_imm_def [abs_def]
    using zero(3) imm0(1) assms
      branch_after_LoadImmediate [of "\<lambda>a. BranchSignedGreaterEqual a rd" "\<lambda>x y. sint y \<le> sint x" rd imm]
    by (cases "imm = 0"; cases "IsInt 16 (sint imm)"; simp add: branch_set_less)
  show "branches_iff (\<lambda>a. BranchSignedLess_imm a rd imm) {CMPRES2} (\<lambda>s. sint (get_register s rd) < sint imm)"
    unfolding BranchSignedLess_imm_def [abs_def]
    using zero(4) imm0(2) assms
      branch_after_LoadImmediate [of "\<lambda>a r. BranchSignedGreater a r rd" "\<lambda>x y. sint x < sint y" rd imm]
    by (cases "imm = 0"; cases "IsInt 16 (sint imm)"; simp add: branch_set_less)
  show "branches_iff (\<lambda>a. BranchSignedLessEqual_imm a rd imm) {CMPRES2} (\<lambda>s. sint (get_register s rd) \<le> sint imm)"
    unfolding BranchSignedLessEqual_imm_def [abs_def]
    using zero(2) imm1(2) sint_plus_1 [of imm] assms
      branch_after_LoadImmediate [of "\<lambda>a r. BranchSignedGreaterEqual a r rd" "\<lambda>x y. sint x \<le> sint y" rd imm]
    by (cases "imm = 0"; cases "IsInt 16 (sint (imm + 1))"; simp add: branch_set_less zle_add1_eq_le)
qed

lemma Branch_imm_unsigned:
  assumes "rd < 32" "rd \<noteq> CMPRES2"
  shows "branches_iff (\<lambda>a. BranchUnsignedGreater_imm a rd imm) {CMPRES2} (\<lambda>s. imm < get_register s rd)"
    and "branches_iff (\<lambda>a. BranchUnsignedGreaterEqual_imm a rd imm) {CMPRES2} (\<lambda>s. imm \<le> get_register s rd)"
    and "branches_iff (\<lambda>a. BranchUnsignedLess_imm a rd imm) {CMPRES2} (\<lambda>s. get_register s rd < imm)"
    and "branches_iff (\<lambda>a. BranchUnsignedLessEqual_imm a rd imm) {CMPRES2} (\<lambda>s. get_register s rd \<le> imm)"
proof -
  note imm0 = branch_set_less_imm [OF assms(1), of imm] and imm1 = branch_set_less_imm [OF assms(1), of "imm + 1"]
  have le: "imm + 1 \<le> x \<longleftrightarrow> imm < x" if "imm \<noteq> - 1" for x using less_plus_1 [OF that, of x] by auto
  show "branches_iff (\<lambda>a. BranchUnsignedGreater_imm a rd imm) {CMPRES2} (\<lambda>s. imm < get_register s rd)"
    unfolding BranchUnsignedGreater_imm_def [abs_def]
    using BranchEqual_branches(2) [OF assms, of 0] imm1(3) le assms
      branch_after_LoadImmediate [of "\<lambda>a. BranchUnsignedGreater a rd" "\<lambda>x y. y < x" rd imm]
    by (cases "imm = 0"; cases "imm = - 1"; cases "IsInt 16 (sint (imm + 1))"; simp add: branch_set_less word_gt_0)
  show "branches_iff (\<lambda>a. BranchUnsignedGreaterEqual_imm a rd imm) {CMPRES2} (\<lambda>s. imm \<le> get_register s rd)"
    unfolding BranchUnsignedGreaterEqual_imm_def [abs_def]
    using asm_b_branches [of "{CMPRES2}"] imm0(3) assms
      branch_after_LoadImmediate [of "\<lambda>a. BranchUnsignedGreaterEqual a rd" "\<lambda>x y. y \<le> x" rd imm]
    by (cases "imm = 0"; cases "IsInt 16 (sint imm)"; simp add: branch_set_less)
  show "branches_iff (\<lambda>a. BranchUnsignedLess_imm a rd imm) {CMPRES2} (\<lambda>s. get_register s rd < imm)"
    unfolding BranchUnsignedLess_imm_def [abs_def]
    using never_branches [of "{CMPRES2}"] imm0(4) assms
      branch_after_LoadImmediate [of "\<lambda>a r. BranchUnsignedGreater a r rd" "\<lambda>x y. x < y" rd imm]
    by (cases "imm = 0"; cases "IsInt 16 (sint imm)"; simp add: branch_set_less)
  show "branches_iff (\<lambda>a. BranchUnsignedLessEqual_imm a rd imm) {CMPRES2} (\<lambda>s. get_register s rd \<le> imm)"
    unfolding BranchUnsignedLessEqual_imm_def [abs_def]
    using asm_branches(1) [of rd 0 "{CMPRES2}"] imm1(4) less_plus_1 [of imm] assms
      branch_after_LoadImmediate [of "\<lambda>a r. BranchUnsignedGreaterEqual a r rd" "\<lambda>x y. x \<le> y" rd imm]
    by (cases "imm = 0"; cases "imm = - 1"; cases "IsInt 16 (sint (imm + 1))"; simp add: branch_set_less)
qed


text \<open>C11: The compare-and-branch macros, when far branches are off. Each jumps to its label exactly when the comparison it is named after
  holds between its operands, signed or unsigned, and otherwise continues behind its code. The second operand is a
  register or, if the first is not \<open>CMPRES2\<close>, any 32-bit immediate, whichever instructions the immediate needs. The tests of two
  registers for equality change no register, the others only \<open>CMPRES2\<close>. This holds outside of a delay slot, whenever emitting succeeds and the
  label is bound, at a multiple of 4, or is unbound, the branches to it being linked, and is bound successfully later, far branches still being
  off and the emitted code still in place.\<close>

theorem compare_and_branch_correct:
  assumes "rd < 32" "rs < 32"
  shows "jumps_iff (\<lambda>a. BranchEqual a rd rs) {} (\<lambda>s. get_register s rd = get_register s rs)
    \<and> jumps_iff (\<lambda>a. BranchNotEqual a rd rs) {} (\<lambda>s. get_register s rd \<noteq> get_register s rs)
    \<and> jumps_iff (\<lambda>a. BranchSignedGreater a rd rs) {CMPRES2} (\<lambda>s. sint (get_register s rd) > sint (get_register s rs))
    \<and> jumps_iff (\<lambda>a. BranchSignedGreaterEqual a rd rs) {CMPRES2} (\<lambda>s. sint (get_register s rd) \<ge> sint (get_register s rs))
    \<and> jumps_iff (\<lambda>a. BranchSignedLess a rd rs) {CMPRES2} (\<lambda>s. sint (get_register s rd) < sint (get_register s rs))
    \<and> jumps_iff (\<lambda>a. BranchSignedLessEqual a rd rs) {CMPRES2} (\<lambda>s. sint (get_register s rd) \<le> sint (get_register s rs))
    \<and> jumps_iff (\<lambda>a. BranchUnsignedGreater a rd rs) {CMPRES2} (\<lambda>s. get_register s rd > get_register s rs)
    \<and> jumps_iff (\<lambda>a. BranchUnsignedGreaterEqual a rd rs) {CMPRES2} (\<lambda>s. get_register s rd \<ge> get_register s rs)
    \<and> jumps_iff (\<lambda>a. BranchUnsignedLess a rd rs) {CMPRES2} (\<lambda>s. get_register s rd < get_register s rs)
    \<and> jumps_iff (\<lambda>a. BranchUnsignedLessEqual a rd rs) {CMPRES2} (\<lambda>s. get_register s rd \<le> get_register s rs)
    \<and> (rd \<noteq> CMPRES2 \<longrightarrow>
        jumps_iff (\<lambda>a. BranchEqual_imm a rd imm) {CMPRES2} (\<lambda>s. get_register s rd = imm)
      \<and> jumps_iff (\<lambda>a. BranchNotEqual_imm a rd imm) {CMPRES2} (\<lambda>s. get_register s rd \<noteq> imm)
      \<and> jumps_iff (\<lambda>a. BranchSignedGreater_imm a rd imm) {CMPRES2} (\<lambda>s. sint (get_register s rd) > sint imm)
      \<and> jumps_iff (\<lambda>a. BranchSignedGreaterEqual_imm a rd imm) {CMPRES2} (\<lambda>s. sint (get_register s rd) \<ge> sint imm)
      \<and> jumps_iff (\<lambda>a. BranchSignedLess_imm a rd imm) {CMPRES2} (\<lambda>s. sint (get_register s rd) < sint imm)
      \<and> jumps_iff (\<lambda>a. BranchSignedLessEqual_imm a rd imm) {CMPRES2} (\<lambda>s. sint (get_register s rd) \<le> sint imm)
      \<and> jumps_iff (\<lambda>a. BranchUnsignedGreater_imm a rd imm) {CMPRES2} (\<lambda>s. get_register s rd > imm)
      \<and> jumps_iff (\<lambda>a. BranchUnsignedGreaterEqual_imm a rd imm) {CMPRES2} (\<lambda>s. get_register s rd \<ge> imm)
      \<and> jumps_iff (\<lambda>a. BranchUnsignedLess_imm a rd imm) {CMPRES2} (\<lambda>s. get_register s rd < imm)
      \<and> jumps_iff (\<lambda>a. BranchUnsignedLessEqual_imm a rd imm) {CMPRES2} (\<lambda>s. get_register s rd \<le> imm))"
  unfolding BranchSignedLess_def [abs_def] BranchSignedLessEqual_def [abs_def] BranchUnsignedLess_def [abs_def]
    BranchUnsignedLessEqual_def [abs_def] BranchEqual_def [abs_def] BranchNotEqual_def [abs_def]
  by (intro conjI impI branches_jumps asm_branches branch_set_less Branch_imm_signed Branch_imm_unsigned BranchEqual_branches assms)

theorem compare_and_branch_correct_witness:
  "\<exists>a' s'. BranchSignedGreater_imm (Assembler_new False) 8 0x12345 (Label_BindTo 0) = Inr (a', Label_BindTo 0)
     \<and> runs idle_host (machine (\<lambda>r. 0x20000) 0x10000 (buffer a')) s' \<and> sim_pc s' = 0x10000"
proof -
  let ?a = "Assembler_new False"
  obtain a' where a': "BranchSignedGreater_imm ?a 8 0x12345 (Label_BindTo 0) = Inr (a', Label_BindTo 0)" "length (buffer a') = 5"
    by (simp add: BranchSignedGreater_imm_def BranchSignedGreater_def LoadImmediate_def near_emit)
  have j: "jumps_iff (\<lambda>a. BranchSignedGreater_imm a 8 0x12345) {CMPRES2} (\<lambda>s. sint (get_register s 8) > 0x12345)"
    using compare_and_branch_correct [of 8 9 "0x12345"] by simp
  have "\<exists>s'. runs idle_host (machine (\<lambda>r. 0x20000) 0x10000 (buffer a')) s' \<and> sim_pc s' = 0x10000"
    using jumps_boundD [OF j a'(1) _ _ _ starts_at_machine, of idle_host "\<lambda>r. 0x20000"] a'(2) by fastforce
  with a'(1) show ?thesis by blast
qed

section \<open>Branching on a condition\<close>

lemma RelOp_number_less: "RelOp_number r < 2 ^ 4"
  by (cases r) simp_all

lemma Condition_fields:
  assumes "left < 64" "right < 64"
  shows "Condition_left (Condition_new bits left right rel_op imm) = left"
    and "Condition_right (Condition_new bits left right rel_op imm) = right"
    and "Condition_rel_op (Condition_new bits left right rel_op imm) = rel_op"
    and "Condition_imm (Condition_new bits left right rel_op imm) = imm"
proof -
  have v: "BitField_is_valid 6 (of_nat left :: u32)" "BitField_is_valid 6 (of_nat right :: u32)"
    "BitField_is_valid 4 (of_nat (RelOp_number rel_op) :: u32)"
    using assms by (auto intro!: BitField_is_valid_of_nat simp: RelOp_number_less [of rel_op, simplified])
  have w: "BitField_is_valid 16 (ucast imm :: u32)"
    by (auto simp: BitField_is_valid_iff bit_simps dest: bit_imp_le_length)
  note d = BitField_decode_update BitField_decode_update_other
  have u: "unat (of_nat left :: u32) = left" "unat (of_nat right :: u32) = right"
    "unat (of_nat (RelOp_number rel_op) :: u32) = RelOp_number rel_op"
    using assms RelOp_number_less [of rel_op] by (auto simp: unat_of_nat)
  note defs = Condition_new_def Let_def set_left_def set_right_def set_rel_op_def set_imm_def
  show "Condition_left (Condition_new bits left right rel_op imm) = left"
    unfolding Condition_left_def defs by (simp add: d v w u)
  show "Condition_right (Condition_new bits left right rel_op imm) = right"
    unfolding Condition_right_def defs by (simp add: d v w u)
  show "Condition_rel_op (Condition_new bits left right rel_op imm) = rel_op"
    unfolding Condition_rel_op_def defs by (simp add: d v w u) (cases rel_op; simp add: RelOp_of_def)
  show "Condition_imm (Condition_new bits left right rel_op imm) = imm"
    unfolding Condition_imm_def defs by (simp add: d v w)
qed

text \<open>What the constructor of a condition asserts of its arguments, and what the condition means.\<close>

definition valid_condition :: "Register \<Rightarrow> Register \<Rightarrow> RelationOperator \<Rightarrow> u16 \<Rightarrow> bool" where
  "valid_condition left right rel_op imm \<longleftrightarrow>
     left \<le> IMM \<and> left \<noteq> AT \<and> right \<le> IMM \<and> right \<noteq> AT
     \<and> \<not> (left \<in> {ZR, IMM} \<and> right \<in> {ZR, IMM}) \<and> (imm \<noteq> 0 \<longleftrightarrow> left = IMM \<or> right = IMM)
     \<and> Condition_IsValidImm (sint imm) \<and> (rel_op \<in> {UGT, UGE, ULT, ULE} \<longrightarrow> left \<noteq> IMM \<and> right \<noteq> IMM)"

fun rel_holds :: "RelationOperator \<Rightarrow> u32 \<Rightarrow> u32 \<Rightarrow> bool" where
  "rel_holds AL x y = True" | "rel_holds NV x y = False"
| "rel_holds EQ x y = (x = y)" | "rel_holds NE x y = (x \<noteq> y)"
| "rel_holds GT x y = (sint x > sint y)" | "rel_holds GE x y = (sint x \<ge> sint y)"
| "rel_holds LT x y = (sint x < sint y)" | "rel_holds LE x y = (sint x \<le> sint y)"
| "rel_holds UGT x y = (x > y)" | "rel_holds UGE x y = (x \<ge> y)"
| "rel_holds ULT x y = (x < y)" | "rel_holds ULE x y = (x \<le> y)"

definition operand :: "simulator \<Rightarrow> u16 \<Rightarrow> Register \<Rightarrow> u32" where
  "operand s imm r = (if r = IMM then scast imm else get_register s r)"

lemma sint_scast_imm:
  fixes imm :: u16
  shows "sint (scast imm :: u32) = sint imm"
    and "Condition_IsValidImm (sint imm) \<Longrightarrow> sint (ucast (scast imm + 1 :: u32) :: u16) = sint imm + 1"
    and "(scast (ucast (scast imm :: u32) :: u16) :: u32) = scast imm"
proof -
  have r: "- 32768 \<le> sint imm" "sint imm \<le> 32767" using sint_range_size [of imm] by (simp_all add: word_size)
  have up: "sint (scast w :: u32) = sint w" for w :: u16
    unfolding scast_eq sint_sbintrunc'
    by (rule signed_take_bit_int_eq_self) (use sint_range_size [of w] in \<open>simp_all add: word_size\<close>)
  show e: "sint (scast imm :: u32) = sint imm" by (rule up)
  show "(scast (ucast (scast imm :: u32) :: u16) :: u32) = scast imm"
    by (rule sext_imm16) (use r in \<open>simp add: e IsInt_def\<close>)
  assume v: "Condition_IsValidImm (sint imm)"
  have "sint (scast imm + 1 :: u32) = signed_take_bit 31 (sint imm + 1)" by (simp add: sint_word_add e)
  also have "\<dots> = sint imm + 1" using r by (intro signed_take_bit_int_eq_self) auto
  finally have s1: "sint (scast imm + 1 :: u32) = sint imm + 1" .
  have "(scast (ucast (scast imm + 1 :: u32) :: u16) :: u32) = scast imm + 1"
    by (rule sext_imm16) (use v in \<open>simp add: s1 IsInt_def Condition_IsValidImm_def\<close>)
  then show "sint (ucast (scast imm + 1 :: u32) :: u16) = sint imm + 1" using up s1 by metis
qed


lemma branches_after_addiu_AT:
  assumes "branches_iff emit {AT} R"
    and "\<And>s s1. get_register s1 AT = scast imm \<Longrightarrow> unchanged_but {AT} s s1 \<Longrightarrow> R s1 = P s"
  shows "branches_iff (\<lambda>a. emit (asm_addiu a AT ZR (scast (imm :: u16)))) {AT} P"
proof -
  have "computes (\<lambda>a. asm_addiu a AT ZR (scast imm)) {AT} (\<lambda>s s'. get_register s' AT = scast imm)"
    using computes_imm(3) [of AT ZR "scast imm"] by (simp add: sint_scast_imm(3))
  from branches_after [OF this assms(1) _ assms(2)] show ?thesis by simp
qed

lemma BranchOnCondition_eq_branches:
  assumes "valid_condition left right rel_op imm"
  shows "branches_iff (\<lambda>a. BranchOnCondition_eq a left right (scast imm) eq) {AT}
    (\<lambda>s. (operand s imm left = operand s imm right) = eq)"
proof -
  have r: "left \<le> 32" "right \<le> 32" "left \<noteq> AT" "right \<noteq> AT" "\<not> (left = IMM \<and> right = IMM)"
    using assms by (auto simp: valid_condition_def)
  consider "left = IMM" "right < 32" | "left < 32" "right = IMM" | "left < 32" "right < 32" using r by linarith
  then show ?thesis
  proof cases
    case 1
    have "branches_iff (\<lambda>a. asm_beq (asm_addiu a AT ZR (scast imm)) AT right) {AT} (\<lambda>s. operand s imm left = operand s imm right)"
      by (rule branches_after_addiu_AT, rule asm_branches(1)) (use 1 r in \<open>simp_all add: operand_def unchanged_but_def\<close>)
    moreover have "branches_iff (\<lambda>a. asm_bne (asm_addiu a AT ZR (scast imm)) AT right) {AT} (\<lambda>s. operand s imm left \<noteq> operand s imm right)"
      by (rule branches_after_addiu_AT, rule asm_branches(2)) (use 1 r in \<open>simp_all add: operand_def unchanged_but_def\<close>)
    ultimately show ?thesis using 1 by (cases eq) (simp_all add: BranchOnCondition_eq_def [abs_def])
  next
    case 2
    have "branches_iff (\<lambda>a. asm_beq (asm_addiu a AT ZR (scast imm)) left AT) {AT} (\<lambda>s. operand s imm left = operand s imm right)"
      by (rule branches_after_addiu_AT, rule asm_branches(1)) (use 2 r in \<open>simp_all add: operand_def unchanged_but_def\<close>)
    moreover have "branches_iff (\<lambda>a. asm_bne (asm_addiu a AT ZR (scast imm)) left AT) {AT} (\<lambda>s. operand s imm left \<noteq> operand s imm right)"
      by (rule branches_after_addiu_AT, rule asm_branches(2)) (use 2 r in \<open>simp_all add: operand_def unchanged_but_def\<close>)
    ultimately show ?thesis using 2 by (cases eq) (simp_all add: BranchOnCondition_eq_def [abs_def])
  next
    case 3
    then show ?thesis
      using asm_branches [of left right "{AT}"] by (cases eq) (simp_all add: BranchOnCondition_eq_def [abs_def] operand_def)
  qed
qed


lemma compare_AT_branches:
  assumes "r < 32" "Condition_IsValidImm (sint (imm :: u16))"
  shows "branches_iff (\<lambda>a. asm_bne (asm_slti a AT r (scast imm)) AT ZR) {AT} (\<lambda>s. sint (get_register s r) < sint imm)"
    and "branches_iff (\<lambda>a. asm_beq (asm_slti a AT r (scast imm)) AT ZR) {AT} (\<lambda>s. sint imm \<le> sint (get_register s r))"
    and "branches_iff (\<lambda>a. asm_bne (asm_slti a AT r (scast imm + 1)) AT ZR) {AT} (\<lambda>s. sint (get_register s r) \<le> sint imm)"
    and "branches_iff (\<lambda>a. asm_beq (asm_slti a AT r (scast imm + 1)) AT ZR) {AT} (\<lambda>s. sint imm < sint (get_register s r))"
  using flag_branches [OF _ computes_imm(1) [of AT r "scast imm"]] flag_branches [OF _ computes_imm(1) [of AT r "scast imm + 1"]] assms
  by (simp_all add: sint_scast_imm not_less not_le add1_zle_eq zless_add1_eq)

lemma compare_regs_AT_branches:
  assumes "r < 32" "q < 32"
  shows "branches_iff (\<lambda>a. asm_bne (asm_slt a AT r q) AT ZR) {AT} (\<lambda>s. sint (get_register s r) < sint (get_register s q))"
    and "branches_iff (\<lambda>a. asm_beq (asm_slt a AT r q) AT ZR) {AT} (\<lambda>s. sint (get_register s q) \<le> sint (get_register s r))"
    and "branches_iff (\<lambda>a. asm_bne (asm_sltu a AT r q) AT ZR) {AT} (\<lambda>s. get_register s r < get_register s q)"
    and "branches_iff (\<lambda>a. asm_beq (asm_sltu a AT r q) AT ZR) {AT} (\<lambda>s. get_register s q \<le> get_register s r)"
  using flag_branches [OF _ computes_regs(1) [of AT r q]] flag_branches [OF _ computes_regs(2) [of AT r q]] assms
  by (simp_all add: not_less)

lemma BranchOnCondition_branches:
  assumes "valid_condition left right rel_op imm"
  shows "branches_iff (\<lambda>a. BranchOnCondition a (Condition_new bits left right rel_op imm)) {AT}
    (\<lambda>s. rel_holds rel_op (operand s imm left) (operand s imm right))"
proof -
  note defs = BranchOnCondition_def [abs_def] Condition_fields
  have i: "Condition_IsValidImm (sint imm)" using assms by (simp add: valid_condition_def)
  note eq = BranchOnCondition_eq_branches [OF assms]
  note zero = asm_branches_zero [where C = "{AT}"] and b = asm_b_branches [where C = "{AT}"]
  note cmp = compare_AT_branches [OF _ i] compare_regs_AT_branches zero asm_branches_ZR [where C = "{AT}"]
  have never: "branches_iff (\<lambda>a l. Inr (a, l)) {AT} (\<lambda>s. False)" by (rule never_branches)
  have un: "rel_op \<in> {UGT, UGE, ULT, ULE} \<Longrightarrow> left \<noteq> IMM \<and> right \<noteq> IMM" using assms by (simp add: valid_condition_def)
  consider "left = ZR" "right < 32" "right \<noteq> ZR" | "right = ZR" "left < 32" "left \<noteq> ZR" | "left = IMM" "right < 32" "right \<noteq> ZR"
    | "right = IMM" "left < 32" "left \<noteq> ZR" | "left < 32" "right < 32" "left \<noteq> ZR" "right \<noteq> ZR"
    using assms by (fastforce simp: valid_condition_def)
  then show ?thesis
  proof cases
    case 1
    then show ?thesis by (cases rel_op) (use eq [of True] eq [of False] never b in \<open>simp_all add: defs cmp operand_def word_gt_0 del: One_nat_def\<close>)
  next
    case 2
    then show ?thesis by (cases rel_op) (use eq [of True] eq [of False] never b in \<open>simp_all add: defs cmp operand_def word_gt_0 del: One_nat_def\<close>)
  next
    case 3
    then show ?thesis by (cases rel_op) (use eq [of True] eq [of False] never b un in \<open>simp_all add: defs cmp operand_def sint_scast_imm del: One_nat_def\<close>)
  next
    case 4
    then show ?thesis by (cases rel_op) (use eq [of True] eq [of False] never b un in \<open>simp_all add: defs cmp operand_def sint_scast_imm del: One_nat_def\<close>)
  next
    case 5
    then show ?thesis by (cases rel_op) (use eq [of True] eq [of False] never b in \<open>simp_all add: defs cmp operand_def del: One_nat_def\<close>)
  qed
qed

text \<open>C9: Branching on a condition, when far branches are off. For every relation operator and every pair of operands that a condition can
  hold (registers, the zero register, an immediate), the emitted code jumps to the label exactly when the relation holds between
  the operand values, and otherwise continues behind the emitted code. Only the register \<open>AT\<close> changes. This holds outside of a delay slot,
  whenever emitting succeeds and the label is bound, at a multiple of 4, or is unbound, the branches to it being linked, and is bound successfully
  later, far branches still being off and the emitted code still in place.\<close>

theorem BranchOnCondition_correct:
  assumes "valid_condition left right rel_op imm"
  shows "jumps_iff (\<lambda>a. BranchOnCondition a (Condition_new bits left right rel_op imm)) {AT}
    (\<lambda>s. rel_holds rel_op (operand s imm left) (operand s imm right))"
  by (rule branches_jumps, rule BranchOnCondition_branches [OF assms])

theorem BranchOnCondition_correct_witness:
  "\<exists>a' s'. BranchOnCondition (Assembler_new False) (Condition_new 0 8 IMM LT 5) (Label_BindTo 0) = Inr (a', Label_BindTo 0)
     \<and> runs idle_host (machine (\<lambda>r. 4) 0x10000 (buffer a')) s' \<and> sim_pc s' = 0x10000"
proof -
  let ?a = "Assembler_new False"
  have v: "valid_condition 8 IMM LT 5" by (simp add: valid_condition_def Condition_IsValidImm_def)
  obtain a' where a': "BranchOnCondition ?a (Condition_new 0 8 IMM LT 5) (Label_BindTo 0) = Inr (a', Label_BindTo 0)" "length (buffer a') = 3"
    by (simp add: BranchOnCondition_def Condition_fields near_emit)
  have "\<exists>s'. runs idle_host (machine (\<lambda>r. 4) 0x10000 (buffer a')) s' \<and> sim_pc s' = 0x10000"
    using jumps_boundD [OF BranchOnCondition_correct [OF v] a'(1) _ _ _ starts_at_machine, of idle_host "\<lambda>r. 4"] a'(2)
    by (fastforce simp: operand_def)
  with a'(1) show ?thesis by blast
qed

section \<open>The filters of the write barrier\<close>

definition IsHeapObject :: "u32 \<Rightarrow> bool" where
  "IsHeapObject value \<longleftrightarrow> value AND 1 = kHeapObjectTag"

definition IsNewObject :: "u32 \<Rightarrow> bool" where
  "IsNewObject addr \<longleftrightarrow> addr AND kNewObjectAlignmentOffset = kNewObjectAlignmentOffset"

definition IsOldObject :: "u32 \<Rightarrow> bool" where
  "IsOldObject addr \<longleftrightarrow> addr AND kNewObjectAlignmentOffset = 0"

lemma bit_4: "bit (4 :: u32) n \<longleftrightarrow> n = 2"
  using bit_exp_iff [where 'a = u32, of 2 n] by auto

lemma and_4: "(w :: u32) AND 4 = (if bit w 2 then 4 else 0)"
proof (rule bit_word_eqI)
  fix n assume "n < LENGTH(32)"
  show "bit (w AND 4) n = bit (if bit w 2 then 4 else 0 :: u32) n"
    unfolding bit_and_iff bit_4 if_distrib [of bit] if_distribR by auto
qed

lemma and_1: "(w :: u32) AND 1 = (if bit w 0 then 1 else 0)"
  by (simp add: and_one_eq even_iff_mod_2_eq_zero bit_0 flip: mod_2_eq_odd)

lemma StoreIntoObjectFilter_branches:
  assumes "object < 32" "value < 32" "object \<notin> {TMP, CMPRES1}" "value \<notin> {TMP, CMPRES1}"
  shows "branches_iff (\<lambda>a. StoreIntoObjectFilter a object value) {TMP, CMPRES1}
      (\<lambda>s. \<not> (IsHeapObject (get_register s value) \<and> IsNewObject (get_register s value) \<and> IsOldObject (get_register s object)))
    \<and> branches_iff (\<lambda>a. StoreIntoObjectFilterNoSmi a object value) {TMP, CMPRES1}
      (\<lambda>s. \<not> (IsNewObject (get_register s value) \<and> IsOldObject (get_register s object)))"
proof -
  have n1: "computes (\<lambda>a. asm_and (asm_nor a TMP ZR object) TMP value TMP) ({TMP} \<union> {TMP})
      (\<lambda>s s'. get_register s' TMP = get_register s value AND NOT (get_register s object))"
    by (rule computes_comp [OF computes_regs(7) computes_regs(4)]) (use assms in \<open>auto simp: unchanged_but_def\<close>)
  have n2: "computes (\<lambda>a. asm_andi (asm_and (asm_nor a TMP ZR object) TMP value TMP) CMPRES1 TMP kNewObjectAlignmentOffset)
      ({TMP} \<union> {TMP} \<union> {CMPRES1}) (\<lambda>s s'. get_register s' CMPRES1 = get_register s value AND NOT (get_register s object) AND 4)"
    by (rule computes_comp [OF n1 computes_imm(4)]) (use assms in \<open>auto simp: and.assoc\<close>)
  have no_smi: "branches_iff (\<lambda>a. StoreIntoObjectFilterNoSmi a object value) {TMP, CMPRES1}
      (\<lambda>s. \<not> (IsNewObject (get_register s value) \<and> IsOldObject (get_register s object)))"
    unfolding StoreIntoObjectFilterNoSmi_def [abs_def] Let_def
    by (rule branches_after [OF n2 asm_branches_ZR(1) [where C = "{}"]])
      (auto simp: IsNewObject_def IsOldObject_def and_4 bit_simps and.left_commute)
  have log2: "kObjectAlignmentLog2 - 1 = 2" by (simp)
  have f1: "computes (\<lambda>a. asm_and (asm_sll a TMP value 2) TMP value TMP) ({TMP} \<union> {TMP})
      (\<lambda>s s'. get_register s' TMP = get_register s value AND push_bit 2 (get_register s value))"
    by (rule computes_comp [OF computes_shift(1) computes_regs(4)]) (use assms in \<open>auto simp: unchanged_but_def\<close>)
  have f2: "computes (\<lambda>a. asm_nor (asm_and (asm_sll a TMP value 2) TMP value TMP) CMPRES1 ZR object) ({TMP} \<union> {TMP} \<union> {CMPRES1})
      (\<lambda>s s'. get_register s' TMP = get_register s value AND push_bit 2 (get_register s value)
         \<and> get_register s' CMPRES1 = NOT (get_register s object))"
    by (rule computes_comp [OF f1 computes_regs(7)]) (use assms in \<open>auto simp: unchanged_but_def\<close>)
  have f3: "computes (\<lambda>a. asm_and (asm_nor (asm_and (asm_sll a TMP value 2) TMP value TMP) CMPRES1 ZR object) TMP TMP CMPRES1)
      ({TMP} \<union> {TMP} \<union> {CMPRES1} \<union> {TMP})
      (\<lambda>s s'. get_register s' TMP = (get_register s value AND push_bit 2 (get_register s value)) AND NOT (get_register s object))"
    by (rule computes_comp [OF f2 computes_regs(4)]) auto
  have f4: "computes (\<lambda>a. asm_andi (asm_and (asm_nor (asm_and (asm_sll a TMP value 2) TMP value TMP) CMPRES1 ZR object) TMP TMP CMPRES1)
      CMPRES1 TMP kNewObjectAlignmentOffset) ({TMP} \<union> {TMP} \<union> {CMPRES1} \<union> {TMP} \<union> {CMPRES1})
      (\<lambda>s s'. get_register s' CMPRES1 = ((get_register s value AND push_bit 2 (get_register s value)) AND NOT (get_register s object)) AND 4)"
    by (rule computes_comp [OF f3 computes_imm(4)]) (use assms in \<open>auto simp:\<close>)
  have full: "branches_iff (\<lambda>a. StoreIntoObjectFilter a object value) {TMP, CMPRES1}
      (\<lambda>s. \<not> (IsHeapObject (get_register s value) \<and> IsNewObject (get_register s value) \<and> IsOldObject (get_register s object)))"
    unfolding StoreIntoObjectFilter_def [abs_def] Let_def log2
    by (rule branches_after [OF f4 asm_branches_ZR(1) [where C = "{}"]])
      (auto simp: IsHeapObject_def kHeapObjectTag_def IsNewObject_def IsOldObject_def and_4 and_1 bit_simps)
  show ?thesis using full no_smi by (rule conjI)
qed

text \<open>C10: The filters of the write barrier, when far branches are off. They skip the update of the store buffer, by jumping to the label, unless
  the stored value is a heap object in new space and the object stored into is in old space; the filter without the test for small
  integers does so for values known to be heap objects. Only the temporaries \<open>TMP\<close> and \<open>CMPRES1\<close> change, and neither holds the
  object or the value. This holds outside of a delay slot, whenever emitting succeeds and the label is, as where the barrier uses the filters,
  unbound, the branches to it being linked, and is bound successfully later, far branches still being off and the code of the filter still in
  place, or is bound already, at a multiple of 4.\<close>

theorem StoreIntoObjectFilter_correct:
  assumes "object < 32" "value < 32" "object \<notin> {TMP, CMPRES1}" "value \<notin> {TMP, CMPRES1}"
  shows "jumps_iff (\<lambda>a. StoreIntoObjectFilter a object value) {TMP, CMPRES1}
      (\<lambda>s. \<not> (IsHeapObject (get_register s value) \<and> IsNewObject (get_register s value) \<and> IsOldObject (get_register s object)))
    \<and> jumps_iff (\<lambda>a. StoreIntoObjectFilterNoSmi a object value) {TMP, CMPRES1}
      (\<lambda>s. \<not> (IsNewObject (get_register s value) \<and> IsOldObject (get_register s object)))"
  using StoreIntoObjectFilter_branches [OF assms] branches_jumps by blast

theorem StoreIntoObjectFilter_correct_witness:
  "\<exists>a' l' b' s' t'. StoreIntoObjectFilter (Assembler_new False) 8 9 0 = Inr (a', l')
     \<and> Bind (Emit a' kNopInstruction) l' = Some (Inr (b', Label_BindTo 32))
     \<and> runs idle_host (machine (\<lambda>r. if r = 8 then 0x20001 else 0x30005) 0x10000 (buffer b')) s' \<and> sim_pc s' = 0x1001c
     \<and> runs idle_host (machine (\<lambda>r. if r = 8 then 0x20005 else 0x30005) 0x10000 (buffer b')) t' \<and> sim_pc t' = 0x10020"
proof -
  let ?a = "Assembler_new False" and ?r = "\<lambda>r :: nat. if r = 8 then 0x20001 else 0x30005 :: u32"
    and ?q = "\<lambda>r :: nat. if r = 8 then 0x20005 else 0x30005 :: u32"
  obtain a' l' where a': "StoreIntoObjectFilter ?a 8 9 0 = Inr (a', l')" "length (buffer a') = 7" "\<not> use_far_branches a'"
    by (simp add: StoreIntoObjectFilter_def near_emit)
      (simp add: EmitBranchDelayNop_def EmitIType_def EmitRType_def Emit_def)
  have j: "jumps_iff (\<lambda>a. StoreIntoObjectFilter a 8 9) {TMP, CMPRES1}
      (\<lambda>s. \<not> (IsHeapObject (get_register s 9) \<and> IsNewObject (get_register s 9) \<and> IsOldObject (get_register s 8)))"
    using StoreIntoObjectFilter_correct [of 8 9] by simp
  obtain ps where "linked (buffer (Emit a' kNopInstruction)) l' ps"
    using jumps_newE [OF j a'(1)] linked_append [of "buffer a'" l' _ "[kNopInstruction]"] by auto
  then obtain b' where b': "Bind (Emit a' kNopInstruction) l' = Some (Inr (b', Label_BindTo 32))" "length (buffer b') = 8"
    using Bind_short [of "Emit a' kNopInstruction" l' ps] a'(2,3) by (auto simp: CodeSize_def)
  note run = jumps_newD [OF j a'(1) _ _ _ b'(1) starts_at_machine, of "[kNopInstruction]" idle_host]
  have "\<exists>s'. runs idle_host (machine ?r 0x10000 (buffer b')) s' \<and> sim_pc s' = 0x1001c"
    using run [of ?r] a'(2,3) b'(2) by (fastforce simp: IsHeapObject_def IsNewObject_def IsOldObject_def kHeapObjectTag_def CodeSize_def)
  moreover have "\<exists>s'. runs idle_host (machine ?q 0x10000 (buffer b')) s' \<and> sim_pc s' = 0x10020"
    using run [of ?q] a'(2,3) b'(2) Position_BindTo [of 32]
    by (fastforce simp: IsHeapObject_def IsNewObject_def IsOldObject_def kHeapObjectTag_def CodeSize_def)
  ultimately show ?thesis using a'(1) b'(1) by blast
qed

end
