(* ===== verification/Mips_Labels.thy ===== *)
theory Mips_Labels
  imports Mips_Branch
begin

text \<open>
  Code with any number of labels. Whatever is emitted without far branches, the branches to every unbound label form a
  chain, and binding the label ends with every branch of the chain pointing to the bound position.
\<close>

section \<open>Emitting code without far branches\<close>

lemma FpuBranch_high:
  "FpuBranch_word kind imm = push_bit 16 (push_bit 10 COP1 OR push_bit 5 COP1_BC OR (if kind then 1 else 0)) OR ucast imm"
  by (cases kind) (simp_all add: FpuBranch_word_def flip: or.assoc)

lemma EmitFpuBranch_near: "emits_near (\<lambda>a. EmitFpuBranch a kind) (FpuBranch_word kind)"
  by (auto simp: emits_near_def EmitFpuBranch_def EncodeBranchOffset_eq ucast_patched near_dest_def Let_def
      intro!: patched_word FpuBranch_high)

text \<open>
  The assemblers that the operations can build, with the labels \<open>L\<close>, which are numbered, and the positions \<open>C\<close> of the
  branches to each of the unbound ones. An operation appends an instruction, the nop of a branch's delay slot, or a branch to one of the labels,
  removes the nop to fill the delay slot, or binds a label.
\<close>

definition add_link :: "(nat \<Rightarrow> Label) \<Rightarrow> (nat \<Rightarrow> int list) \<Rightarrow> nat \<Rightarrow> int \<Rightarrow> nat \<Rightarrow> int list" where
  "add_link L C i p = (if Label_IsBound (L i) then C else C(i := p # C i))"

inductive emits :: "assembler \<Rightarrow> (nat \<Rightarrow> Label) \<Rightarrow> (nat \<Rightarrow> int list) \<Rightarrow> bool" where
  start: "\<not> use_far_branches a \<Longrightarrow> emits a (\<lambda>i. 0) (\<lambda>i. [])"
| instr: "emits a L C \<Longrightarrow> emits (Emit a w) L C"
| nop: "emits a L C \<Longrightarrow> emits (EmitBranchDelayNop a) L C"
| slot: "emits a L C \<Longrightarrow> delay_slot_available a \<Longrightarrow> emits (asm_delay_slot a) L C"
| branch: "emits a L C \<Longrightarrow> EmitBranch a b rs rt (L i) = Inr (a', l') \<Longrightarrow> emits a' (L(i := l')) (add_link L C i (CodeSize a))"
| regimm: "emits a L C \<Longrightarrow> EmitRegImmBranch a c rs (L i) = Inr (a', l') \<Longrightarrow> emits a' (L(i := l')) (add_link L C i (CodeSize a))"
| fpu: "emits a L C \<Longrightarrow> EmitFpuBranch a kind (L i) = Inr (a', l') \<Longrightarrow> emits a' (L(i := l')) (add_link L C i (CodeSize a))"
| bind: "emits a L C \<Longrightarrow> \<not> Label_IsBound (L i) \<Longrightarrow> Bind a (L i) = Some (Inr (a', l')) \<Longrightarrow> emits a' (L(i := l')) (C(i := []))"

definition labels_ok :: "assembler \<Rightarrow> (nat \<Rightarrow> Label) \<Rightarrow> (nat \<Rightarrow> int list) \<Rightarrow> bool" where
  "labels_ok a L C \<longleftrightarrow> \<not> use_far_branches a
     \<and> (\<forall>i. if Label_IsBound (L i) then C i = [] else linked (buffer a) (L i) (C i))
     \<and> (\<forall>i j. i \<noteq> j \<longrightarrow> set (C i) \<inter> set (C j) = {})
     \<and> (delay_slot_available a \<longrightarrow> (\<forall>i. \<forall>p \<in> set (C i). p + 8 \<le> CodeSize a))"

lemma labels_ok_positions:
  assumes "labels_ok a L C" "p \<in> set (C i)"
  shows "p + 4 \<le> CodeSize a"
proof -
  have "if Label_IsBound (L i) then C i = [] else linked (buffer a) (L i) (C i)" using assms(1) by (simp add: labels_ok_def)
  then show ?thesis using assms(2) linked_positions [of "buffer a" "L i" "C i" p] by (auto simp: CodeSize_def split: if_splits)
qed

lemma Emit_state [simp]:
  "use_far_branches (Emit a w) = use_far_branches a" "delay_slot_available (Emit a w) = False"
  "use_far_branches (EmitBranchDelayNop a) = use_far_branches a"
  by (simp_all add: Emit_def EmitBranchDelayNop_def)

lemma labels_ok_Emit: "labels_ok a L C \<Longrightarrow> labels_ok (Emit a w) L C"
  by (auto simp: labels_ok_def linked_append split: if_splits)

lemma labels_ok_nop:
  assumes "labels_ok a L C"
  shows "labels_ok (EmitBranchDelayNop a) L C"
proof -
  have "p + 8 \<le> CodeSize (EmitBranchDelayNop a)" if "p \<in> set (C i)" for p i
    using labels_ok_positions [OF assms that] by (simp add: CodeSize_def)
  then show ?thesis using assms by (auto simp: labels_ok_def linked_append split: if_splits)
qed

lemma labels_ok_slot:
  assumes "labels_ok a L C" "delay_slot_available a"
  shows "labels_ok (asm_delay_slot a) L C"
proof -
  have "linked (butlast (buffer a)) (L i) (C i)" if "\<not> Label_IsBound (L i)" for i
    by (rule linked_butlast) (use assms that in \<open>auto simp: labels_ok_def CodeSize_def\<close>)
  then show ?thesis using assms by (auto simp: labels_ok_def asm_delay_slot_def)
qed

lemma labels_ok_branch:
  assumes "labels_ok a L C" "emits_near emit word" "emit a (L i) = Inr (a', l')"
  shows "labels_ok a' (L(i := l')) (add_link L C i (CodeSize a))"
proof -
  have near: "\<not> use_far_branches a" using assms(1) by (simp add: labels_ok_def)
  note d = emits_nearD [OF assms(2) near assms(3)]
  have ok: "labels_ok a' L C" unfolding d(3) by (rule labels_ok_Emit [OF assms(1)])
  show ?thesis
  proof (cases "Label_IsBound (L i)")
    case True
    then show ?thesis using ok d(2) by (simp add: add_link_def)
  next
    case False
    then have "linked (buffer a) (L i) (C i)" using assms(1) by (simp add: labels_ok_def)
    then have "linked (buffer a') l' (CodeSize a # C i)"
      using linked_Emit [of a "L i" "C i" _ "word 0"] d False by (simp add: near_dest_def del: linked.simps)
    moreover have "CodeSize a \<notin> set (C j)" for j using labels_ok_positions [OF assms(1), of "CodeSize a" j] by auto
    moreover have "\<not> delay_slot_available a'" "\<not> Label_IsBound l'" using d(2,3) False by (auto simp: Label_IsBound_def Label_LinkTo_def CodeSize_def)
    ultimately show ?thesis using ok False by (auto simp: labels_ok_def add_link_def simp del: linked.simps)
  qed
qed

lemma labels_ok_bind:
  assumes "labels_ok a L C" "\<not> Label_IsBound (L i)" "Bind a (L i) = Some (Inr (a', l'))"
  shows "labels_ok a' (L(i := l')) (C(i := []))"
proof -
  have a: "\<not> use_far_branches a" "linked (buffer a) (L i) (C i)" using assms(1,2) by (simp_all add: labels_ok_def)
  note b = Bind_near_Inr [OF a assms(3)]
  have "linked (buffer a') (L j) (C j)" if "j \<noteq> i" "\<not> Label_IsBound (L j)" for j
    by (rule resolved_linked [OF b(1)]) (use assms(1) that in \<open>auto simp: labels_ok_def\<close>)
  moreover have "Label_IsBound l'" using b(2) by (simp add: Label_IsBound_def Label_BindTo_def CodeSize_def)
  ultimately show ?thesis using assms(1) a(1) b(3,4) by (auto simp: labels_ok_def)
qed

lemma emits_ok: "emits a L C \<Longrightarrow> labels_ok a L C"
proof (induction rule: emits.induct)
  case (start a)
  then show ?case by (simp add: labels_ok_def Label_IsBound_def)
qed (rule labels_ok_Emit labels_ok_nop labels_ok_slot labels_ok_bind labels_ok_branch [OF _ EmitBranch_near]
    labels_ok_branch [OF _ EmitRegImmBranch_near] labels_ok_branch [OF _ EmitFpuBranch_near]; assumption)+

section \<open>Binding\<close>

text \<open>C12: Binding an unbound label, when far branches are off. Take any code built by emitting instructions, nops for delay slots and
  branches to any number of labels, by filling delay slots, and by binding other labels. Then binding the label ends. When the distance to every
  branch to it fits into 18 bits, every branch to the label gets the offset to the end of the code, which is where the simulator then jumps to, and keeps its
  other bits; all other code is unchanged and the label is bound there. Otherwise the result is the error that restarts the
  compilation with far branches.\<close>

theorem Bind_resolves_forward_branches:
  assumes "emits a L C" "\<not> Label_IsBound (L k)"
  shows "if \<forall>p \<in> set (C k). CanEncodeBranchOffset (CodeSize a - (p + 4))
    then \<exists>a'. Bind a (L k) = Some (Inr (a', Label_BindTo (CodeSize a))) \<and> length (buffer a') = length (buffer a)
      \<and> (\<forall>i < length (buffer a). if 4 * int i \<in> set (C k)
           then 4 * int i + 4 + DecodeBranchOffset (buffer a' ! i) = CodeSize a
             \<and> push_bit 2 (SImmField (buffer a' ! i)) = word_of_int (CodeSize a - (4 * int i + 4))
             \<and> drop_bit 16 (buffer a' ! i) = drop_bit 16 (buffer a ! i)
           else buffer a' ! i = buffer a ! i)
    else Bind a (L k) = Some (Inl branch_offset_error)"
proof -
  have near: "\<not> use_far_branches a" and chain: "linked (buffer a) (L k) (C k)" using emits_ok [OF assms(1)] assms(2) by (auto simp: labels_ok_def)
  note loop = Bind_loop_near [OF near chain, of "CodeSize a"]
  show ?thesis
  proof (cases "\<forall>p \<in> set (C k). CanEncodeBranchOffset (CodeSize a - (p + 4))")
    case True
    then obtain code where code: "Bind_loop a (CodeSize a) (L k) = Some (Inr (a\<lparr>buffer := code\<rparr>))" "resolved (CodeSize a) (C k) (buffer a) code"
      using loop by auto
    have at: "4 * int i + 4 + DecodeBranchOffset (code ! i) = CodeSize a
        \<and> push_bit 2 (SImmField (code ! i)) = word_of_int (CodeSize a - (4 * int i + 4)) \<and> drop_bit 16 (code ! i) = drop_bit 16 (buffer a ! i)"
      if "i < length (buffer a)" "4 * int i \<in> set (C k)" for i
    proof -
      let ?d = "CodeSize a - (4 * int i + 4)"
      have e: "code ! i = patched ?d (buffer a ! i)" using code(2) that by (simp add: resolved_def)
      have "DecodeBranchOffset (code ! i) = ?d" unfolding e
        by (rule DecodeBranchOffset_patched) (use True that in \<open>auto simp: CodeSize_def\<close>)
      moreover have "drop_bit 16 (code ! i) = drop_bit 16 (buffer a ! i)"
        unfolding e patched_def mask16 by (rule bit_word_eqI) (auto simp: bit_simps dest: bit_imp_le_length)
      ultimately show ?thesis unfolding SImmField_offset by simp
    qed
    show ?thesis
      using True code at by (auto simp: Bind_def resolved_def intro!: exI [of _ "a\<lparr>buffer := code, delay_slot_available := False\<rparr>"])
  next
    case False
    have "Bind_loop a (CodeSize a) (L k) = Some (Inl branch_offset_error)" using loop unfolding if_not_P [OF False] .
    then show ?thesis unfolding if_not_P [OF False] by (simp add: Bind_def)
  qed
qed

theorem Bind_resolves_forward_branches_witness:
  "\<exists>a'. Bind (Emit (asm_delay_slot (EmitBranchDelayNop (Emit (Assembler_new False) (IType_word BEQ 8 9 0)))) 5) 4 = Some (Inr (a', Label_BindTo 8))
     \<and> DecodeBranchOffset (buffer a' ! 0) = 4"
proof -
  let ?b = "Emit (Assembler_new False) (IType_word BEQ 8 9 0)"
  let ?a = "Emit (asm_delay_slot (EmitBranchDelayNop ?b)) 5" and ?L = "(\<lambda>i. 0)(1 := 4 :: Label)" and ?C = "(\<lambda>i. [])(1 := [0 :: int])"
  have b: "EmitBranch (Assembler_new False) BEQ 8 9 0 = Inr (?b, 4)"
    by (simp add: EmitBranch_def EmitIType_def Label_IsBound_def Label_LinkTo_def EncodeBranchOffset_def CanEncodeBranchOffset_def
        IsInt_def CodeSize_def Assembler_new_def)
  have link: "add_link (\<lambda>i. 0) (\<lambda>i. []) 1 (CodeSize (Assembler_new False)) = ?C"
    by (simp add: add_link_def Label_IsBound_def CodeSize_def Assembler_new_def)
  have "emits ?b ?L ?C" using emits.branch [OF emits.start b, of 1] unfolding link by simp
  then have e: "emits ?a ?L ?C" by (rule emits.instr [OF emits.slot [OF emits.nop]]) (simp add: EmitBranchDelayNop_def)
  show ?thesis using Bind_resolves_forward_branches [OF e, of 1]
    by (fastforce simp: CodeSize_def Assembler_new_def asm_delay_slot_def CanEncodeBranchOffset_def IsInt_def Label_IsBound_def)
qed

end
