(* ===== verification/Mips_Far.thy ===== *)
theory Mips_Far
  imports Mips_Labels
begin

text \<open>
  Far branches: a branch over an absolute jump, whose target the fixups compute when the code is
  installed in memory.
\<close>

section \<open>The code of a far branch\<close>

lemma decode_jr [mips_decode]:
  assumes "rs < 32" "load32 (memory s) (sim_pc s + 4) = kNopInstruction" "\<not> delay_slot s"
  shows "InstructionDecode h (ExecuteDelaySlot h) s at (RType_word 0 rs 0 0 0 8) =
    Inr (s\<lparr>icount := icount s + 1, sim_pc := get_register s rs\<rparr>)"
  using assms
  by (simp add: InstructionDecode_def DecodeSpecial_def RType_fields Let_def sim_JR_def ExecuteDelaySlot_nop)

definition far_code :: "u32 \<Rightarrow> u32 \<Rightarrow> u32 list" where
  "far_code w dest =
     [w, kNopInstruction, IType_word LUI R0 T9 (ucast (drop_bit 16 dest)), IType_word ORI T9 T9 (ucast dest),
      RType_word SPECIAL T9 R0 R0 0 JR, kNopInstruction]"

lemma halves: "push_bit 16 (ucast (ucast (drop_bit 16 v) :: u16) :: u32) OR ucast (ucast v :: u16) = v"
  by (rule bit_word_eqI) (auto simp: bit_simps)

lemma ucast_signed_drop: "(ucast (signed_drop_bit 16 d) :: u16) = ucast (drop_bit 16 d)" for d :: u32
  by (rule bit_word_eqI) (auto simp: bit_simps)

lemma decode_nop [mips_decode]: "InstructionDecode h slot s at kNopInstruction = Inr (s\<lparr>sim_pc := sim_pc s + 4\<rparr>)"
  by (simp add: kNop_word mips_decode set_register_def)

lemma far_code_runs:
  assumes step: "\<And>s at. \<lbrakk>load32 (memory s) (sim_pc s + 4) = kNopInstruction; \<not> delay_slot s\<rbrakk> \<Longrightarrow>
      InstructionDecode h (ExecuteDelaySlot h) s at w =
        Inr (s\<lparr>icount := icount s + 1, sim_pc := (if P s then sim_pc s + 16 else sim_pc s + 4) + 4\<rparr>)"
    and ic: "\<And>s n. P (s\<lparr>icount := n\<rparr>) = P s"
    and s: "\<not> delay_slot s" "code_at (memory s) (sim_pc s) (far_code w dest)"
  shows "\<exists>s'. runs h s s' \<and> unchanged_but {T9} s s' \<and> sim_pc s' = (if P s then sim_pc s + 24 else dest)"
proof (cases "P s")
  case True
  show ?thesis
    by (rule runs_computed [where n = 2])
      (use s True in \<open>simp add: far_code_def fetch step ic mips_decode unchanged_but_def\<close>)
next
  case False
  show ?thesis
    by (rule runs_computed [where n = 4])
      (use s False in \<open>simp add: far_code_def fetch step ic mips_decode unchanged_but_def halves\<close>)
qed


section \<open>Installing the code\<close>

lemma EncodeLoadImmediate_IType: "EncodeLoadImmediate dest (IType_word op rs rt imm) = IType_word op rs rt (ucast dest)"
proof -
  have "bit (EncodeLoadImmediate dest (IType_word op rs rt imm)) n = bit (IType_word op rs rt (ucast dest)) n" if "n < 32" for n
    using that unfolding EncodeLoadImmediate_def IType_word_def mask16
    by (cases "n < 16") (auto simp: bit_simps dest: bit_imp_le_length)
  then show ?thesis by (intro bit_word_eqI) simp
qed

lemma DecodeLoadImmediate_IType:
  "DecodeLoadImmediate (IType_word op rs rt low) (IType_word op' rs' rt' high) = push_bit 16 (ucast high) OR ucast low"
  unfolding DecodeLoadImmediate_def IType_word_def mask16
  by (rule bit_word_eqI) (auto simp: bit_simps dest: bit_imp_le_length)

lemma PatchFarJump_length [simp]: "length (PatchFarJump_Process start region p) = length region"
  by (simp add: PatchFarJump_Process_def Let_def)

lemma PatchFarJump_append:
  assumes "0 \<le> p" "p + 8 \<le> 4 * int (length b)"
  shows "PatchFarJump_Process start (b @ x) p = PatchFarJump_Process start b p @ x"
proof -
  have "int (nat (p div 4)) = p div 4" "4 * (p div 4) \<le> p" using assms(1) by simp_all
  then have "nat (p div 4) + 1 < length b" using assms(2) by linarith
  then show ?thesis by (simp add: PatchFarJump_Process_def Let_def nth_append list_update_append)
qed

lemma ProcessFixups_length [simp]: "length (ProcessFixups start ps region) = length region"
  unfolding ProcessFixups_def by (induction ps arbitrary: region) auto

lemma ProcessFixups_append:
  assumes "\<forall>p \<in> set ps. 0 \<le> p \<and> p + 8 \<le> 4 * int (length b)"
  shows "ProcessFixups start ps (b @ x) = ProcessFixups start ps b @ x"
  using assms unfolding ProcessFixups_def
  by (induction ps arbitrary: b) (simp_all add: PatchFarJump_append)

text \<open>The fixups of an assembler lie in the code emitted before.\<close>

definition fixups_ok :: "assembler \<Rightarrow> bool" where
  "fixups_ok a \<longleftrightarrow> (\<forall>p \<in> set (fixups a). 0 \<le> p \<and> p + 8 \<le> CodeSize a)"

lemma Emit_fixups [simp]:
  "fixups (Emit a w) = fixups a" "fixups (EmitIType a op rs rt imm) = fixups a"
  "fixups (EmitRType a op rs rt rd sa f) = fixups a" "fixups (EmitRegImmType a op rs c imm) = fixups a"
  "fixups (EmitBranchDelayNop a) = fixups a"
  by (simp_all add: Emit_def EmitIType_def EmitRType_def EmitRegImmType_def EmitBranchDelayNop_def)

lemma EmitFixup_simps [simp]: "buffer (EmitFixup a) = buffer a" "fixups (EmitFixup a) = CodeSize a # fixups a"
  by (simp_all add: EmitFixup_def)

lemma EmitFarJump_eq:
  "buffer (EmitFarJump a off False) = buffer a @
     [IType_word LUI R0 T9 (ucast (drop_bit 16 off)), IType_word ORI T9 T9 (ucast off), RType_word SPECIAL T9 R0 R0 0 JR]"
  "fixups (EmitFarJump a off False) = CodeSize a # fixups a"
proof -
  have m: "(0xffff :: u32) = mask 16" by (simp add: mask_eq_exp_minus_1)
  have l: "(ucast (off AND 0xffff) :: u16) = ucast off"
    unfolding m by (rule bit_word_eqI) (auto simp: bit_simps simp del: mask_numeral)
  show "buffer (EmitFarJump a off False) = buffer a @
     [IType_word LUI R0 T9 (ucast (drop_bit 16 off)), IType_word ORI T9 T9 (ucast off), RType_word SPECIAL T9 R0 R0 0 JR]"
    by (simp add: EmitFarJump_def Let_def asm_defs ucast_signed_drop l)
  show "fixups (EmitFarJump a off False) = CodeSize a # fixups a"
    by (simp add: EmitFarJump_def Let_def asm_defs)
qed

lemma PatchFarJump_far:
  "PatchFarJump_Process start (b @ far_code w off) (4 * int (length b) + 8) = b @ far_code w (start + off)"
proof -
  have i: "nat ((4 * int (length b) + 8) div 4) = length b + Suc (Suc 0)" by simp
  have lo: "(ucast (d AND kBranchOffsetMask) :: u16) = ucast d" for d :: u32
    unfolding mask16 by (rule bit_word_eqI) (auto simp: bit_simps)
  show ?thesis
    unfolding PatchFarJump_Process_def i Let_def
    by (simp add: far_code_def nth_append IType_fields DecodeLoadImmediate_IType EncodeLoadImmediate_IType halves ucast_signed_drop lo
        list_update_append)
qed

lemma Finalize_far:
  assumes "fixups_ok a" "buffer a' = buffer a @ far_code w off" "fixups a' = (CodeSize a + 8) # fixups a"
  shows "FinalizeInstructions a' start = FinalizeInstructions a start @ far_code w (start + off)"
proof -
  have "FinalizeInstructions a' start = ProcessFixups start (fixups a) (buffer a @ far_code w (start + off))"
    using assms(2,3) PatchFarJump_far [of start "buffer a" w off]
    by (simp add: FinalizeInstructions_def ProcessFixups_def CodeSize_def)
  also have "\<dots> = FinalizeInstructions a start @ far_code w (start + off)"
    unfolding FinalizeInstructions_def
    by (rule ProcessFixups_append) (use assms(1) in \<open>simp add: fixups_ok_def CodeSize_def\<close>)
  finally show ?thesis .
qed


section \<open>Far branches to bound labels\<close>

lemma installed_far_runs:
  assumes "\<And>s at. \<lbrakk>load32 (memory s) (sim_pc s + 4) = kNopInstruction; \<not> delay_slot s\<rbrakk> \<Longrightarrow>
      InstructionDecode h (ExecuteDelaySlot h) s at w =
        Inr (s\<lparr>icount := icount s + 1, sim_pc := (if P s then sim_pc s + 16 else sim_pc s + 4) + 4\<rparr>)"
    and "\<And>s n. P (s\<lparr>icount := n\<rparr>) = P s"
    and a': "fixups_ok a" "buffer a' = buffer a @ far_code w off" "fixups a' = (CodeSize a + 8) # fixups a"
    and s: "\<not> delay_slot s" "sim_pc s = start + word_of_int (CodeSize a)"
      "code_at (memory s) start (FinalizeInstructions a' start)"
  shows "\<exists>s'. runs h s s' \<and> unchanged_but {T9} s s' \<and>
    sim_pc s' = (if P s then start + word_of_int (CodeSize a') else start + off)"
proof -
  have len: "length (FinalizeInstructions a start) = length (buffer a)" by (simp add: FinalizeInstructions_def)
  have "code_at (memory s) (sim_pc s) (far_code w (start + off))"
    using s(2,3) unfolding Finalize_far [OF a'] by (simp add: len CodeSize_def)
  from far_code_runs [OF assms(1,2) s(1) this]
  obtain s' where s': "runs h s s'" "unchanged_but {T9} s s'" "sim_pc s' = (if P s then sim_pc s + 24 else start + off)"
    by auto
  have "CodeSize a' = CodeSize a + 24" using a'(2) by (simp add: CodeSize_def far_code_def)
  then show ?thesis using s' s(2) by (intro exI [of _ s']) (simp add: algebra_simps)
qed

lemma OppositeBranchOpcode_taken:
  assumes "op \<in> {BEQ, BNE, BGTZ, BLEZ}"
  obtains b where "OppositeBranchOpcode op = Some b" "b \<in> {BEQ, BNE, BGTZ, BLEZ}"
    "\<And>s rs rt. branch_taken b s rs rt \<longleftrightarrow> \<not> branch_taken op s rs rt"
  using assms by (auto simp: OppositeBranchOpcode_def branch_taken_def not_less not_le)

lemma far_branch_runs:
  assumes op: "op \<in> {BEQ, BNE, BGTZ, BLEZ}" "rs < 32" "rt < 32"
    and far: "use_far_branches a" "Label_IsBound l" "\<not> CanEncodeBranchOffset (Label_Position l - (CodeSize a + 4))"
    and a': "fixups_ok a" "then_nop (EmitBranch a op rs rt l) = Inr (a', l')"
    and s: "\<not> delay_slot s" "sim_pc s = start + word_of_int (CodeSize a)"
      "code_at (memory s) start (FinalizeInstructions a' start)"
  shows "\<exists>s'. runs h s s' \<and> unchanged_but {T9} s s' \<and>
    sim_pc s' = (if branch_taken op s rs rt then start + word_of_int (Label_Position l) else start + word_of_int (CodeSize a'))"
proof -
  obtain b where b: "OppositeBranchOpcode op = Some b" "b \<in> {BEQ, BNE, BGTZ, BLEZ}"
    "\<And>s rs rt. branch_taken b s rs rt \<longleftrightarrow> \<not> branch_taken op s rs rt"
    using OppositeBranchOpcode_taken [OF op(1)] by blast
  have e: "a' = EmitBranchDelayNop (EmitFarBranch a b rs rt (word_of_int (Label_Position l)))"
    using a'(2) far b(1) by (auto simp: EmitBranch_def then_nop_def)
  have code: "buffer a' = buffer a @ far_code (IType_word b rs rt 4) (word_of_int (Label_Position l))"
    "fixups a' = (CodeSize a + 8) # fixups a"
    unfolding e by (simp_all add: EmitFarBranch_def EmitFarJump_eq far_code_def asm_defs CodeSize_def kNop_word)
  show ?thesis
    using installed_far_runs [OF _ _ a'(1) code s, where P = "\<lambda>s. branch_taken b s rs rt" and h = h] b op
    by (cases "branch_taken op s rs rt") (simp_all add: decode_branch)
qed

lemma far_regimm_runs:
  assumes op: "op \<in> {BGEZ, BLTZ}" "rs < 32"
    and far: "use_far_branches a" "Label_IsBound l" "\<not> CanEncodeBranchOffset (Label_Position l - (CodeSize a + 4))"
    and a': "fixups_ok a" "then_nop (EmitRegImmBranch a op rs l) = Inr (a', l')"
    and s: "\<not> delay_slot s" "sim_pc s = start + word_of_int (CodeSize a)"
      "code_at (memory s) start (FinalizeInstructions a' start)"
  shows "\<exists>s'. runs h s s' \<and> unchanged_but {T9} s s' \<and>
    sim_pc s' = (if (0 \<le> sint (get_register s rs)) = (op = BGEZ) then start + word_of_int (Label_Position l) else start + word_of_int (CodeSize a'))"
proof -
  let ?b = "if op = BGEZ then BLTZ else BGEZ"
  have b: "OppositeBranchNoLink op = Some ?b" using op(1) by (auto simp: OppositeBranchNoLink_def)
  have e: "a' = EmitBranchDelayNop (EmitFarRegImmBranch a ?b rs (word_of_int (Label_Position l)))"
    using a'(2) far b by (auto simp: EmitRegImmBranch_def then_nop_def)
  have code: "buffer a' = buffer a @ far_code (IType_word REGIMM rs (unat ?b) 4) (word_of_int (Label_Position l))"
    "fixups a' = (CodeSize a + 8) # fixups a"
    unfolding e by (simp_all add: EmitFarRegImmBranch_def EmitFarJump_eq far_code_def asm_defs CodeSize_def kNop_word EmitRegImm_Emit)
  show ?thesis
    using installed_far_runs [OF _ _ a'(1) code s, where P = "\<lambda>s. (0 \<le> sint (get_register s rs)) \<noteq> (op = BGEZ)" and h = h] op
    by (cases "(0 \<le> sint (get_register s rs)) = (op = BGEZ)") (auto simp: decode_regimm not_less)
qed

text \<open>C13: The far branches to a bound label for the opcodes BEQ, BNE, BGTZ and BLEZ and for the REGIMM branches BGEZ and BLTZ, in the code installed at any
  address, when far branches are on, the offset cannot be encoded and the fixups recorded so far lie in the code: the branch reaches the label exactly when its
  condition holds and otherwise continues behind the branch. The target is computed by the fixup from the address of the
  code. Only \<open>T9\<close> changes.\<close>

theorem far_branch_correct:
  assumes far: "use_far_branches a" "Label_IsBound l" "\<not> CanEncodeBranchOffset (Label_Position l - (CodeSize a + 4))" "fixups_ok a"
    and s: "\<not> delay_slot s" "sim_pc s = start + word_of_int (CodeSize a)"
  shows "(\<forall>op rs rt a' l'. op \<in> {BEQ, BNE, BGTZ, BLEZ} \<and> rs < 32 \<and> rt < 32 \<and> then_nop (EmitBranch a op rs rt l) = Inr (a', l')
        \<and> code_at (memory s) start (FinalizeInstructions a' start) \<longrightarrow>
      (\<exists>s'. runs h s s' \<and> unchanged_but {T9} s s' \<and>
        sim_pc s' = start + word_of_int (if branch_taken op s rs rt then Label_Position l else CodeSize a')))
    \<and> (\<forall>op rs a' l'. op \<in> {BGEZ, BLTZ} \<and> rs < 32 \<and> then_nop (EmitRegImmBranch a op rs l) = Inr (a', l')
        \<and> code_at (memory s) start (FinalizeInstructions a' start) \<longrightarrow>
      (\<exists>s'. runs h s s' \<and> unchanged_but {T9} s s' \<and>
        sim_pc s' = start + word_of_int (if (0 \<le> sint (get_register s rs)) = (op = BGEZ) then Label_Position l else CodeSize a')))"
proof (intro conjI allI impI; elim conjE)
  fix op rs rt a' l'
  assume "op \<in> {BEQ, BNE, BGTZ, BLEZ}" "rs < 32" "rt < 32" "then_nop (EmitBranch a op rs rt l) = Inr (a', l')"
    "code_at (memory s) start (FinalizeInstructions a' start)"
  from far_branch_runs [OF this(1-3) far this(4) s this(5), of h]
  show "\<exists>s'. runs h s s' \<and> unchanged_but {T9} s s' \<and> sim_pc s' = start + word_of_int (if branch_taken op s rs rt then Label_Position l else CodeSize a')"
    by (simp add: if_distrib)
next
  fix op rs a' l'
  assume "op \<in> {BGEZ, BLTZ}" "rs < 32" "then_nop (EmitRegImmBranch a op rs l) = Inr (a', l')"
    "code_at (memory s) start (FinalizeInstructions a' start)"
  from far_regimm_runs [OF this(1,2) far this(3) s this(4), of h]
  show "\<exists>s'. runs h s s' \<and> unchanged_but {T9} s s' \<and>
      sim_pc s' = start + word_of_int (if (0 \<le> sint (get_register s rs)) = (op = BGEZ) then Label_Position l else CodeSize a')"
    by (simp add: if_distrib)
qed

definition far_assembler :: assembler where
  "far_assembler = (Assembler_new True)\<lparr>buffer := replicate 40000 kNopInstruction\<rparr>"

lemma far_assembler_simps [simp]:
  "use_far_branches far_assembler" "fixups_ok far_assembler" "CodeSize far_assembler = 160000"
  "length (buffer far_assembler) = 40000"
  "\<not> CanEncodeBranchOffset (- 160004)"
  by (simp_all add: far_assembler_def Assembler_new_def fixups_ok_def CodeSize_def Label_IsBound_def Label_BindTo_def
      Label_Position_def CanEncodeBranchOffset_def IsInt_def)

lemma code_at_far_machine:
  assumes "length (buffer a') = 40006"
  shows "code_at (memory ((machine regs 0x10000 (FinalizeInstructions a' 0x10000))\<lparr>sim_pc := p\<rparr>)) 0x10000 (FinalizeInstructions a' 0x10000)"
  using code_at_machine [of "0x10000" "FinalizeInstructions a' 0x10000" regs] assms
  by (simp add: IsIllegalAddress_def FinalizeInstructions_def)

theorem far_branch_correct_witness:
  "\<exists>a' s'. then_nop (EmitBranch far_assembler BEQ 8 9 (Label_BindTo 0)) = Inr (a', Label_BindTo 0)
     \<and> runs idle_host ((machine (\<lambda>r. 5) 0x10000 (FinalizeInstructions a' 0x10000))\<lparr>sim_pc := 0x10000 + 160000\<rparr>) s'
     \<and> sim_pc s' = 0x10000"
proof -
  let ?a = "EmitBranchDelayNop (EmitFarBranch far_assembler BNE 8 9 0)"
  let ?s = "(machine (\<lambda>r. 5) 0x10000 (FinalizeInstructions ?a 0x10000))\<lparr>sim_pc := 0x10000 + 160000\<rparr>"
  have e: "then_nop (EmitBranch far_assembler BEQ 8 9 (Label_BindTo 0)) = Inr (?a, Label_BindTo 0)"
    by (simp add: EmitBranch_def then_nop_def OppositeBranchOpcode_def)
  have len: "length (buffer ?a) = 40006" by (simp add: EmitFarBranch_def EmitFarJump_eq asm_defs)
  have "\<exists>s'. runs idle_host ?s s' \<and> sim_pc s' = 0x10000"
    using far_branch_correct [of far_assembler "Label_BindTo 0" ?s "0x10000" idle_host, THEN conjunct1, rule_format, of BEQ 8 9 ?a "Label_BindTo 0"]
      code_at_far_machine [OF len] e by (fastforce simp: branch_taken_def)
  with e show ?thesis by blast
qed

section \<open>Branches on floating point conditions\<close>

lemma FpuBranch_IType: "FpuBranch_word kind imm = IType_word COP1 8 (if kind then 1 else 0) imm"
  by (simp add: FpuBranch_word_def IType_word_def)

lemma FpuBranch_fields:
  "OpcodeField (FpuBranch_word kind imm) = COP1" "\<not> HasFormat (FpuBranch_word kind imm)"
  "Cop1SubField (FpuBranch_word kind imm) = COP1_BC" "Bits (FpuBranch_word kind imm) 18 3 = 0"
  "Bit (FpuBranch_word kind imm) 16 = (if kind then 1 else 0)" "SImmField (FpuBranch_word kind imm) = scast imm"
proof -
  have k: "(if kind then 1 else 0 :: nat) < 32" by simp
  note b = bit_IType_word [of COP1 8 "if kind then 1 else 0" _ imm, simplified]
  have w: "bit (FpuBranch_word kind imm) 16 = kind" "\<not> bit (FpuBranch_word kind imm) 25"
    unfolding FpuBranch_IType by (simp_all add: b bit_of_nat_iff_bit)
  show "OpcodeField (FpuBranch_word kind imm) = COP1" "SImmField (FpuBranch_word kind imm) = scast imm"
    unfolding FpuBranch_IType by (simp_all add: IType_fields)
  show "\<not> HasFormat (FpuBranch_word kind imm)" by (simp add: HasFormat_def Bit_eq w)
  show "Bit (FpuBranch_word kind imm) 16 = (if kind then 1 else 0)" by (simp add: Bit_eq w)
  show "Cop1SubField (FpuBranch_word kind imm) = COP1_BC"
    unfolding Cop1SubField_def FpuBranch_IType by (rule Bits_word) (simp_all add: b)
  show "Bits (FpuBranch_word kind imm) 18 3 = 0"
    unfolding FpuBranch_IType by (rule Bits_word) (simp_all add: b bit_of_nat_iff_bit bit_1_iff)
qed

lemma decode_fpu_branch:
  assumes "load32 (memory s) (sim_pc s + 4) = kNopInstruction" "\<not> delay_slot s"
  shows "InstructionDecode h (ExecuteDelaySlot h) s at (FpuBranch_word kind imm) =
    Inr (s\<lparr>icount := icount s + 1,
           sim_pc := (if test_fcsr_bit s 23 = kind then sim_pc s + push_bit 2 (scast imm) else sim_pc s + 4) + 4\<rparr>)"
  using assms by (auto simp: InstructionDecode_def DecodeCop1_def FpuBranch_fields Let_def DoBranch_nop
      get_fcsr_condition_bit_def)


lemma fcsr_icount [simp]: "test_fcsr_bit (s\<lparr>icount := n\<rparr>) c = test_fcsr_bit s c"
  by (simp add: test_fcsr_bit_def)

lemma near_bc1_branches: "branches_iff (\<lambda>a l. then_nop (EmitFpuBranch a kind l)) C (\<lambda>s. test_fcsr_bit s 23 = kind)"
  by (rule near_branches_iff [OF EmitFpuBranch_near]) (simp_all add: decode_fpu_branch)

lemma far_fpu_branch_runs:
  assumes far: "use_far_branches a" "Label_IsBound l" "\<not> CanEncodeBranchOffset (Label_Position l - (CodeSize a + 4))"
    and a': "fixups_ok a" "then_nop (EmitFpuBranch a kind l) = Inr (a', l')"
    and s: "\<not> delay_slot s" "sim_pc s = start + word_of_int (CodeSize a)"
      "code_at (memory s) start (FinalizeInstructions a' start)"
  shows "\<exists>s'. runs h s s' \<and> unchanged_but {T9} s s' \<and>
    sim_pc s' = (if test_fcsr_bit s 23 = kind then start + word_of_int (CodeSize a') else start + word_of_int (Label_Position l))"
proof -
  have e: "a' = EmitBranchDelayNop (EmitFarFpuBranch a kind (word_of_int (Label_Position l)))"
    using a'(2) far by (auto simp: EmitFpuBranch_def then_nop_def)
  have w: "push_bit 26 COP1 OR push_bit 21 COP1_BC OR (if kind then push_bit 16 1 else 0) OR 4 = FpuBranch_word kind 4"
    by (simp add: FpuBranch_word_def)
  have code: "buffer a' = buffer a @ far_code (FpuBranch_word kind 4) (word_of_int (Label_Position l))"
    "fixups a' = (CodeSize a + 8) # fixups a"
    unfolding e EmitFarFpuBranch_def Let_def w
    by (simp_all add: EmitFarJump_eq far_code_def asm_defs CodeSize_def kNop_word)
  show ?thesis
    using installed_far_runs [OF _ _ a'(1) code s, where P = "\<lambda>s. test_fcsr_bit s 23 = kind" and h = h]
    by (cases "test_fcsr_bit s 23 = kind") (simp_all add: decode_fpu_branch)
qed

text \<open>C18: A far branch on a floating point condition to a bound label is inverted: with far branches on, an offset that cannot be encoded and the fixups recorded
  so far lying in the code, \<open>EmitFpuBranch\<close> passes the condition on unflipped to the branch that skips the jump, so the code installed at any address
  reaches the label exactly when the condition does not have the requested value; it changes only \<open>T9\<close>. With far branches off, the branch to a
  bound label, at a multiple of 4, reaches it exactly when the condition has that value, and changes no register.\<close>

theorem far_fpu_branch_inverted:
  assumes l: "Label_IsBound l" and emit: "then_nop (EmitFpuBranch a kind l) = Inr (a', l')"
    and s: "\<not> delay_slot s" "sim_pc s = start + word_of_int (CodeSize a)"
  shows "(use_far_branches a \<and> \<not> CanEncodeBranchOffset (Label_Position l - (CodeSize a + 4)) \<and> fixups_ok a
        \<and> code_at (memory s) start (FinalizeInstructions a' start) \<longrightarrow>
      (\<exists>s'. runs h s s' \<and> unchanged_but {T9} s s' \<and>
        sim_pc s' = start + word_of_int (if test_fcsr_bit s 23 = kind then CodeSize a' else Label_Position l)))
    \<and> (\<not> use_far_branches a \<and> 4 dvd l \<and> code_at (memory s) start (buffer a') \<longrightarrow>
      (\<exists>s'. runs h s s' \<and> unchanged_but {} s s' \<and>
        sim_pc s' = start + word_of_int (if test_fcsr_bit s 23 = kind then Label_Position l else CodeSize a')))"
proof (intro conjI impI; elim conjE)
  assume "use_far_branches a" "\<not> CanEncodeBranchOffset (Label_Position l - (CodeSize a + 4))" "fixups_ok a"
    "code_at (memory s) start (FinalizeInstructions a' start)"
  from far_fpu_branch_runs [OF this(1) l this(2,3) emit s this(4), of h]
  show "\<exists>s'. runs h s s' \<and> unchanged_but {T9} s s' \<and>
      sim_pc s' = start + word_of_int (if test_fcsr_bit s 23 = kind then CodeSize a' else Label_Position l)"
    by (simp add: if_distrib)
next
  assume near: "\<not> use_far_branches a" "4 dvd l" "code_at (memory s) start (buffer a')"
  show "\<exists>s'. runs h s s' \<and> unchanged_but {} s s' \<and>
      sim_pc s' = start + word_of_int (if test_fcsr_bit s 23 = kind then Label_Position l else CodeSize a')"
    by (rule branches_bound(2) [OF near_bc1_branches emit near(1) l near(2)]) (use near s in \<open>simp add: starts_at_def\<close>)
qed

theorem far_fpu_branch_inverted_witness:
  "\<exists>a' s'. then_nop (EmitFpuBranch far_assembler True (Label_BindTo 0)) = Inr (a', Label_BindTo 0)
     \<and> runs idle_host ((machine (\<lambda>r. 5) 0x10000 (FinalizeInstructions a' 0x10000))\<lparr>sim_pc := 0x10000 + 160000\<rparr>) s'
     \<and> sim_pc s' = 0x10000"
proof -
  let ?a = "EmitBranchDelayNop (EmitFarFpuBranch far_assembler True 0)"
  let ?s = "(machine (\<lambda>r. 5) 0x10000 (FinalizeInstructions ?a 0x10000))\<lparr>sim_pc := 0x10000 + 160000\<rparr>"
  have e: "then_nop (EmitFpuBranch far_assembler True (Label_BindTo 0)) = Inr (?a, Label_BindTo 0)"
    by (simp add: EmitFpuBranch_def then_nop_def)
  have len: "length (buffer ?a) = 40006" by (simp add: EmitFarFpuBranch_def EmitFarJump_eq asm_defs)
  have "\<exists>s'. runs idle_host ?s s' \<and> sim_pc s' = 0x10000"
    using far_fpu_branch_inverted [of "Label_BindTo 0" far_assembler True ?a "Label_BindTo 0" ?s "0x10000" idle_host]
      code_at_far_machine [OF len] e by (fastforce simp: test_fcsr_bit_def machine_def)
  with e show ?thesis by blast
qed

end
