(* ===== verification/Mips_Exclusive.thy ===== *)
theory Mips_Exclusive
  imports Mips_Exec
begin

text \<open>
  The monitor of exclusive accesses of the MIPS simulator (\<^verbatim>\<open>vm/simulator_mips.cc\<close>), shared by
  all threads and protected by a lock: load linked and store conditional, and the compare and exchange of the
  runtime. The operations of the threads are interleaved at the granularity of the lock.
\<close>

section \<open>State and operations\<close>

type_synonym thread = nat

record AddressTag =
  tag_thread :: "thread option"
  tag_addr :: u32

abbreviation (input) kNumAddressTags :: nat where
  "kNumAddressTags \<equiv> 16"

record exclusive =
  exclusive_access_state :: "AddressTag list"
  next_address_tag :: nat

definition exclusive_init :: exclusive where
  "exclusive_init =
     \<lparr>exclusive_access_state = replicate kNumAddressTags \<lparr>tag_thread = None, tag_addr = 0\<rparr>, next_address_tag = 0\<rparr>"

fun find_tag :: "AddressTag list \<Rightarrow> thread \<Rightarrow> nat" where
  "find_tag [] t = 0"
| "find_tag (e # es) t = (if tag_thread e = Some t then 0 else Suc (find_tag es t))"

definition SetExclusiveAccess :: "thread \<Rightarrow> exclusive \<Rightarrow> u32 \<Rightarrow> exclusive" where
  "SetExclusiveAccess thread x addr =
     (let i = find_tag (exclusive_access_state x) thread;
          (i, x) =
            (if i = kNumAddressTags then
               (let j = next_address_tag x
                in (j, x\<lparr>next_address_tag := (if j + 1 = kNumAddressTags then 0 else j + 1),
                         exclusive_access_state := (exclusive_access_state x)
                           [j := (exclusive_access_state x ! j)\<lparr>tag_thread := Some thread\<rparr>]\<rparr>))
             else (i, x))
      in x\<lparr>exclusive_access_state := (exclusive_access_state x)[i := (exclusive_access_state x ! i)\<lparr>tag_addr := addr\<rparr>]\<rparr>)"

text \<open>The loop over the tags of \<open>HasExclusiveAccessAndOpen\<close>: the result so far and the tags.\<close>

fun open_tags :: "thread \<Rightarrow> u32 \<Rightarrow> bool \<Rightarrow> AddressTag list \<Rightarrow> bool \<times> AddressTag list" where
  "open_tags thread addr result [] = (result, [])"
| "open_tags thread addr result (e # es) =
     (if tag_thread e = Some thread then
        (let (r, es) = open_tags thread addr (if tag_addr e = addr then True else result) es in (r, e\<lparr>tag_addr := 0\<rparr> # es))
      else if tag_addr e = addr then
        (let (r, es) = open_tags thread addr result es in (r, e\<lparr>tag_addr := 0\<rparr> # es))
      else
        (let (r, es) = open_tags thread addr result es in (r, e # es)))"

definition HasExclusiveAccessAndOpen :: "thread \<Rightarrow> exclusive \<Rightarrow> u32 \<Rightarrow> bool \<times> exclusive" where
  "HasExclusiveAccessAndOpen thread x addr =
     (let (result, tags) = open_tags thread addr False (exclusive_access_state x)
      in (result, x\<lparr>exclusive_access_state := tags\<rparr>))"

definition ClearExclusive :: "thread \<Rightarrow> exclusive \<Rightarrow> exclusive" where
  "ClearExclusive thread x = SetExclusiveAccess thread x 0"

definition ReadExclusiveW :: "thread \<Rightarrow> exclusive \<Rightarrow> simulator \<Rightarrow> u32 \<Rightarrow> sim_stop + u32 \<times> exclusive" where
  "ReadExclusiveW thread x s addr = map_sum id (\<lambda>v. (v, SetExclusiveAccess thread x addr)) (ReadW s addr)"

definition WriteExclusiveW :: "thread \<Rightarrow> exclusive \<Rightarrow> simulator \<Rightarrow> u32 \<Rightarrow> u32 \<Rightarrow> sim_stop + u32 \<times> exclusive \<times> simulator" where
  "WriteExclusiveW thread x s addr value =
     (case HasExclusiveAccessAndOpen thread x addr of
        (write_allowed, x) \<Rightarrow>
          if write_allowed then map_sum id (\<lambda>s. (0, x, s)) (WriteW s addr value) else Inr (1, x, s))"

definition CompareExchange :: "thread \<Rightarrow> exclusive \<Rightarrow> simulator \<Rightarrow> u32 \<Rightarrow> u32 \<Rightarrow> u32 \<Rightarrow> u32 \<times> exclusive \<times> simulator" where
  "CompareExchange thread x s address compare_value new_value =
     (let value = load32 (memory s) address
      in if value = compare_value then
           (value, snd (HasExclusiveAccessAndOpen thread x address), s\<lparr>memory := store32 (memory s) address new_value\<rparr>)
         else (value, SetExclusiveAccess thread x address, s))"

section \<open>Tags\<close>

definition exclusive_inv :: "exclusive \<Rightarrow> bool" where
  "exclusive_inv x \<longleftrightarrow>
     length (exclusive_access_state x) = kNumAddressTags \<and> next_address_tag x < kNumAddressTags
     \<and> (\<forall>i < kNumAddressTags. \<forall>j < kNumAddressTags. \<forall>t. tag_thread (exclusive_access_state x ! i) = Some t
          \<and> tag_thread (exclusive_access_state x ! j) = Some t \<longrightarrow> i = j)"

definition reserved :: "exclusive \<Rightarrow> thread \<Rightarrow> u32 \<Rightarrow> bool" where
  "reserved x t addr \<longleftrightarrow> (\<exists>e \<in> set (exclusive_access_state x). tag_thread e = Some t \<and> tag_addr e = addr)"

lemma find_tag_le: "find_tag es t \<le> length es"
  by (induction es) auto

lemma find_tag_less: "find_tag es t < length es \<longleftrightarrow> (\<exists>e \<in> set es. tag_thread e = Some t)"
  by (induction es) auto

lemma find_tag_nth: "find_tag es t < length es \<Longrightarrow> tag_thread (es ! find_tag es t) = Some t"
  by (induction es) auto

lemma open_tags_eq:
  "open_tags t addr r es =
     (r \<or> (\<exists>e \<in> set es. tag_thread e = Some t \<and> tag_addr e = addr),
      map (\<lambda>e. if tag_thread e = Some t \<or> tag_addr e = addr then e\<lparr>tag_addr := 0\<rparr> else e) es)"
  by (induction es arbitrary: r) auto

lemma HasExclusive_eq:
  "HasExclusiveAccessAndOpen t x addr =
     (reserved x t addr,
      x\<lparr>exclusive_access_state :=
        map (\<lambda>e. if tag_thread e = Some t \<or> tag_addr e = addr then e\<lparr>tag_addr := 0\<rparr> else e) (exclusive_access_state x)\<rparr>)"
  by (simp add: HasExclusiveAccessAndOpen_def open_tags_eq reserved_def)


lemma tag_addr_update: "e\<lparr>tag_addr := a\<rparr> = \<lparr>tag_thread = tag_thread e, tag_addr = a\<rparr>" for e :: AddressTag
  by simp

lemma SetExclusive_cases:
  assumes "exclusive_inv x"
  obtains i where "i < kNumAddressTags" "tag_thread (exclusive_access_state x ! i) = Some t \<or>
      (\<forall>e \<in> set (exclusive_access_state x). tag_thread e \<noteq> Some t)"
    "exclusive_access_state (SetExclusiveAccess t x a) = (exclusive_access_state x)[i := \<lparr>tag_thread = Some t, tag_addr = a\<rparr>]"
    "next_address_tag (SetExclusiveAccess t x a) < kNumAddressTags"
proof (cases "find_tag (exclusive_access_state x) t < length (exclusive_access_state x)")
  case True
  then have f: "find_tag (exclusive_access_state x) t < kNumAddressTags" using assms by (simp add: exclusive_inv_def)
  show ?thesis
  proof (rule that [OF f])
    show "tag_thread (exclusive_access_state x ! find_tag (exclusive_access_state x) t) = Some t \<or>
        (\<forall>e \<in> set (exclusive_access_state x). tag_thread e \<noteq> Some t)"
      using find_tag_nth [OF True] by simp
    show "exclusive_access_state (SetExclusiveAccess t x a) =
        (exclusive_access_state x)[find_tag (exclusive_access_state x) t := \<lparr>tag_thread = Some t, tag_addr = a\<rparr>]"
      using f find_tag_nth [OF True] by (simp add: SetExclusiveAccess_def Let_def tag_addr_update)
    show "next_address_tag (SetExclusiveAccess t x a) < kNumAddressTags"
      using f assms by (simp add: SetExclusiveAccess_def Let_def exclusive_inv_def)
  qed
next
  case False
  then have f: "find_tag (exclusive_access_state x) t = kNumAddressTags"
    using assms find_tag_le [of "exclusive_access_state x" t] by (simp add: exclusive_inv_def)
  have n: "next_address_tag x < kNumAddressTags" "length (exclusive_access_state x) = kNumAddressTags"
    using assms by (simp_all add: exclusive_inv_def)
  show ?thesis
  proof (rule that [OF n(1)])
    show "tag_thread (exclusive_access_state x ! next_address_tag x) = Some t \<or>
        (\<forall>e \<in> set (exclusive_access_state x). tag_thread e \<noteq> Some t)"
      using False find_tag_less by blast
    show "exclusive_access_state (SetExclusiveAccess t x a) =
        (exclusive_access_state x)[next_address_tag x := \<lparr>tag_thread = Some t, tag_addr = a\<rparr>]"
      using f n by (simp add: SetExclusiveAccess_def Let_def tag_addr_update)
    show "next_address_tag (SetExclusiveAccess t x a) < kNumAddressTags"
      using f n(1) by (auto simp: SetExclusiveAccess_def Let_def)
  qed
qed

lemma exclusive_inv_Set: "exclusive_inv x \<Longrightarrow> exclusive_inv (SetExclusiveAccess t x a)"
proof -
  assume inv: "exclusive_inv x"
  obtain i where i: "i < kNumAddressTags" "tag_thread (exclusive_access_state x ! i) = Some t \<or>
      (\<forall>e \<in> set (exclusive_access_state x). tag_thread e \<noteq> Some t)"
    "exclusive_access_state (SetExclusiveAccess t x a) = (exclusive_access_state x)[i := \<lparr>tag_thread = Some t, tag_addr = a\<rparr>]"
    "next_address_tag (SetExclusiveAccess t x a) < kNumAddressTags"
    using SetExclusive_cases [OF inv] by blast
  have len: "length (exclusive_access_state x) = kNumAddressTags" using inv by (simp add: exclusive_inv_def)
  have other: "tag_thread (exclusive_access_state x ! j) \<noteq> Some t" if "j < kNumAddressTags" "j \<noteq> i" for j
    using i(1,2) inv that len by (auto simp: exclusive_inv_def)
  show ?thesis
    unfolding exclusive_inv_def i(3)
  proof (intro conjI allI impI)
    fix j k u
    assume jk: "j < kNumAddressTags" "k < kNumAddressTags"
      "tag_thread ((exclusive_access_state x)[i := \<lparr>tag_thread = Some t, tag_addr = a\<rparr>] ! j) = Some u
       \<and> tag_thread ((exclusive_access_state x)[i := \<lparr>tag_thread = Some t, tag_addr = a\<rparr>] ! k) = Some u"
    show "j = k"
      using jk inv other len by (cases "j = i"; cases "k = i") (auto simp: exclusive_inv_def)
  qed (use len i(4) in simp_all)
qed

lemma reserved_Set:
  assumes "exclusive_inv x"
  shows "reserved (SetExclusiveAccess t x a) t b \<longleftrightarrow> b = a"
    and "u \<noteq> t \<Longrightarrow> reserved (SetExclusiveAccess t x a) u b \<Longrightarrow> reserved x u b"
proof -
  obtain i where i: "i < kNumAddressTags" "tag_thread (exclusive_access_state x ! i) = Some t \<or>
      (\<forall>e \<in> set (exclusive_access_state x). tag_thread e \<noteq> Some t)"
    "exclusive_access_state (SetExclusiveAccess t x a) = (exclusive_access_state x)[i := \<lparr>tag_thread = Some t, tag_addr = a\<rparr>]"
    using SetExclusive_cases [OF assms] by blast
  have len: "length (exclusive_access_state x) = kNumAddressTags" using assms by (simp add: exclusive_inv_def)
  have other: "tag_thread (exclusive_access_state x ! j) \<noteq> Some t" if "j < kNumAddressTags" "j \<noteq> i" for j
    using i(1,2) assms that len by (auto simp: exclusive_inv_def)
  show "reserved (SetExclusiveAccess t x a) t b \<longleftrightarrow> b = a"
  proof
    assume "reserved (SetExclusiveAccess t x a) t b"
    then obtain j where "j < kNumAddressTags"
      "tag_thread ((exclusive_access_state x)[i := \<lparr>tag_thread = Some t, tag_addr = a\<rparr>] ! j) = Some t"
      "tag_addr ((exclusive_access_state x)[i := \<lparr>tag_thread = Some t, tag_addr = a\<rparr>] ! j) = b"
      unfolding reserved_def i(3) using len by (auto simp: in_set_conv_nth)
    then show "b = a" using other [of j] len by (cases "j = i") auto
  next
    have "\<lparr>tag_thread = Some t, tag_addr = a\<rparr> \<in> set ((exclusive_access_state x)[i := \<lparr>tag_thread = Some t, tag_addr = a\<rparr>])"
      using i(1) len by (simp add: set_update_memI)
    then show "reserved (SetExclusiveAccess t x a) t b" if "b = a"
      using that unfolding reserved_def i(3) by force
  qed
  show "reserved x u b" if "u \<noteq> t" "reserved (SetExclusiveAccess t x a) u b"
    using that set_update_subset_insert [of "exclusive_access_state x" i "\<lparr>tag_thread = Some t, tag_addr = a\<rparr>"]
    unfolding reserved_def i(3) by fastforce
qed

lemma exclusive_inv_Has: "exclusive_inv x \<Longrightarrow> exclusive_inv (snd (HasExclusiveAccessAndOpen t x a))"
  by (simp add: HasExclusive_eq exclusive_inv_def)

lemma reserved_Has:
  assumes "b \<noteq> 0" "reserved (snd (HasExclusiveAccessAndOpen t x a)) u b"
  shows "u \<noteq> t" "b \<noteq> a" "reserved x u b"
  using assms by (auto simp: HasExclusive_eq reserved_def split: if_splits)


section \<open>Interleavings\<close>

text \<open>An operation of some thread, with the value stored and, for a compare and exchange, the value expected.\<close>

datatype xop = LL thread u32 | SC thread u32 u32 | CAS thread u32 u32 u32 | CLREX thread

fun xop_thread :: "xop \<Rightarrow> thread" where
  "xop_thread (LL t a) = t" | "xop_thread (SC t a v) = t" | "xop_thread (CAS t a c v) = t" | "xop_thread (CLREX t) = t"

text \<open>The runs of the monitor and the memory it guards, with the history of operations, latest first. The
  flag of an operation says whether it wrote the memory.\<close>

inductive monitor :: "(xop \<times> bool) list \<Rightarrow> exclusive \<Rightarrow> simulator \<Rightarrow> bool" where
  init: "monitor [] exclusive_init s"
| ll: "monitor evs x s \<Longrightarrow> a \<noteq> 0 \<Longrightarrow> ReadExclusiveW t x s a = Inr (v, x') \<Longrightarrow> monitor ((LL t a, False) # evs) x' s"
| sc: "monitor evs x s \<Longrightarrow> a \<noteq> 0 \<Longrightarrow> WriteExclusiveW t x s a v = Inr (r, x', s') \<Longrightarrow>
    monitor ((SC t a v, r = 0) # evs) x' s'"
| cas: "monitor evs x s \<Longrightarrow> a \<noteq> 0 \<Longrightarrow> CompareExchange t x s a c v = (old, x', s') \<Longrightarrow>
    monitor ((CAS t a c v, old = c) # evs) x' s'"
| clrex: "monitor evs x s \<Longrightarrow> monitor ((CLREX t, False) # evs) (ClearExclusive t x) s"

text \<open>The history since the thread \<open>t\<close> last linked to the address \<open>a\<close> has no write to \<open>a\<close>, and no other
  operation of \<open>t\<close>. A compare and exchange that fails links, too.\<close>

fun links :: "xop \<Rightarrow> bool \<Rightarrow> thread \<Rightarrow> u32 \<Rightarrow> bool" where
  "links (LL t a) w u b \<longleftrightarrow> u = t \<and> b = a"
| "links (CAS t a c v) w u b \<longleftrightarrow> u = t \<and> b = a \<and> \<not> w"
| "links _ w u b \<longleftrightarrow> False"

fun writes_at :: "xop \<Rightarrow> u32 \<Rightarrow> bool" where
  "writes_at (SC t a v) b \<longleftrightarrow> a = b"
| "writes_at (CAS t a c v) b \<longleftrightarrow> a = b"
| "writes_at _ b \<longleftrightarrow> False"

fun undisturbed :: "thread \<Rightarrow> u32 \<Rightarrow> (xop \<times> bool) list \<Rightarrow> bool" where
  "undisturbed t a [] \<longleftrightarrow> False"
| "undisturbed t a ((e, w) # evs) \<longleftrightarrow>
     links e w t a \<or> xop_thread e \<noteq> t \<and> \<not> (w \<and> writes_at e a) \<and> undisturbed t a evs"

lemma exclusive_inv_init: "exclusive_inv exclusive_init"
  by (simp add: exclusive_inv_def exclusive_init_def)

lemma monitor_inv: "monitor evs x s \<Longrightarrow> exclusive_inv x"
proof (induction rule: monitor.induct)
  case (sc evs x s a t v r x' s')
  then show ?case
    using exclusive_inv_Has [OF sc.IH, of t a]
    by (auto simp: WriteExclusiveW_def WriteW_def split: prod.splits if_splits)
next
  case (cas evs x s a t c v old x' s')
  then show ?case
    using exclusive_inv_Has [OF cas.IH, of t a] exclusive_inv_Set [OF cas.IH, of t a]
    by (auto simp: CompareExchange_def Let_def split: if_splits)
qed (auto simp: exclusive_inv_init ReadExclusiveW_def ReadW_def ClearExclusive_def intro!: exclusive_inv_Set split: if_splits)

lemma WriteExclusiveW_result:
  assumes "WriteExclusiveW t x s a v = Inr (r, x', s')"
  shows "x' = snd (HasExclusiveAccessAndOpen t x a)" "r = 0 \<longleftrightarrow> reserved x t a"
    "s' = (if reserved x t a then s\<lparr>memory := store32 (memory s) a v\<rparr> else s)"
  using assms by (auto simp: WriteExclusiveW_def WriteW_def HasExclusive_eq split: if_splits)

lemma reserved_undisturbed:
  "monitor evs x s \<Longrightarrow> b \<noteq> 0 \<Longrightarrow> reserved x u b \<Longrightarrow> undisturbed u b evs"
proof (induction arbitrary: u b rule: monitor.induct)
  case (init s)
  then show ?case by (simp add: reserved_def exclusive_init_def)
next
  case (ll evs x s a t v x')
  have "x' = SetExclusiveAccess t x a" using ll.hyps by (simp add: ReadExclusiveW_def ReadW_def split: if_splits)
  then show ?case using ll reserved_Set [OF monitor_inv [OF ll.hyps(1)], where t = t and a = a] by (cases "u = t") auto
next
  case (sc evs x s a t v r x' s')
  note e = WriteExclusiveW_result [OF sc.hyps(3)]
  show ?case using reserved_Has [OF sc.prems(1), of t x a u] sc e by auto
next
  case (cas evs x s a t c v old x' s')
  show ?case
  proof (cases "old = c")
    case True
    then have "x' = snd (HasExclusiveAccessAndOpen t x a)" using cas.hyps(3) by (auto simp: CompareExchange_def Let_def split: if_splits)
    then show ?thesis using reserved_Has [OF cas.prems(1), of t x a u] cas by auto
  next
    case False
    then have "x' = SetExclusiveAccess t x a" using cas.hyps(3) by (auto simp: CompareExchange_def Let_def split: if_splits)
    then show ?thesis using False cas reserved_Set [OF monitor_inv [OF cas.hyps(1)], where t = t and a = a] by (cases "u = t") auto
  qed
next
  case (clrex evs x s t)
  then show ?case using reserved_Set [OF monitor_inv [OF clrex.hyps(1)], where t = t and a = 0] by (cases "u = t") (auto simp: ClearExclusive_def)
qed

text \<open>A run in which two threads link to the same address and the first stores.\<close>

definition two_links :: exclusive where
  "two_links = SetExclusiveAccess 2 (SetExclusiveAccess 1 exclusive_init 0x20000) 0x20000"

abbreviation "idle_machine \<equiv> machine (\<lambda>r. 0) 0x10000 []"

lemma two_links_monitor: "monitor [(LL 2 0x20000, False), (LL 1 0x20000, False)] two_links idle_machine"
proof -
  have r: "ReadExclusiveW t x idle_machine 0x20000 = Inr (load32 (memory idle_machine) 0x20000, SetExclusiveAccess t x 0x20000)" for t x
    by (simp add: ReadExclusiveW_def ReadW_def)
  show ?thesis unfolding two_links_def
    by (rule monitor.ll [OF monitor.ll [OF monitor.init _ r] _ r]) simp_all
qed

lemma two_links_store:
  "WriteExclusiveW 2 two_links idle_machine 0x20000 7 = Inr (0, snd (HasExclusiveAccessAndOpen 2 two_links 0x20000),
     idle_machine\<lparr>memory := store32 (memory idle_machine) 0x20000 7\<rparr>)"
proof -
  have "exclusive_inv (SetExclusiveAccess 1 exclusive_init 0x20000)" by (rule exclusive_inv_Set [OF exclusive_inv_init])
  then have "reserved two_links 2 0x20000" unfolding two_links_def by (simp add: reserved_Set)
  then show ?thesis by (simp add: WriteExclusiveW_def HasExclusive_eq WriteW_def)
qed

text \<open>C14: Store conditional is atomic with its load linked. In every interleaving of the operations of any
  number of threads, when a store conditional of a thread succeeds, the thread linked to that address before, and
  since then no thread has written the address through the monitor and the thread itself has done nothing
  else with it. Each thread has at most one address tag throughout.\<close>

theorem store_conditional_atomic:
  assumes "monitor evs x s" "a \<noteq> 0" "WriteExclusiveW t x s a v = Inr (0, x', s')"
  shows "undisturbed t a evs \<and> memory s' = store32 (memory s) a v \<and> exclusive_inv x'"
  using reserved_undisturbed [OF assms(1,2)] WriteExclusiveW_result [OF assms(3)] exclusive_inv_Has [OF monitor_inv [OF assms(1)]]
  by auto

theorem store_conditional_atomic_witness:
  "undisturbed 2 0x20000 [(LL 2 0x20000, False), (LL 1 0x20000, False)]
     \<and> (\<exists>x' s'. WriteExclusiveW 2 two_links idle_machine 0x20000 7 = Inr (0, x', s') \<and> load32 (memory s') 0x20000 = 7)"
  using store_conditional_atomic [OF two_links_monitor _ two_links_store] two_links_store by simp

text \<open>C19: A successful store conditional leaves no reservation of its address with any thread: the next store
  conditional to that address, by whichever thread, fails and writes nothing, so that of several threads linked to
  an address at most one stores to it.\<close>

theorem store_opens_address:
  assumes "monitor evs x s" "a \<noteq> 0" "WriteExclusiveW t x s a v = Inr (0, x', s')" "WriteExclusiveW u x' s' a v' = Inr (r, x'', s'')"
  shows "r = 1 \<and> memory s'' = memory s'"
proof -
  have "\<not> reserved x' u a"
    using reserved_Has(2) [OF assms(2), of t x a u] WriteExclusiveW_result(1) [OF assms(3)] by auto
  then show ?thesis using assms(4) by (auto simp: WriteExclusiveW_def HasExclusive_eq)
qed

theorem store_opens_address_witness:
  "\<exists>x' s' x'' s''. WriteExclusiveW 2 two_links idle_machine 0x20000 7 = Inr (0, x', s')
     \<and> WriteExclusiveW 1 x' s' 0x20000 8 = Inr (1, x'', s'') \<and> load32 (memory s'') 0x20000 = 7"
proof -
  let ?x = "snd (HasExclusiveAccessAndOpen 2 two_links 0x20000)"
  let ?s = "idle_machine\<lparr>memory := store32 (memory idle_machine) 0x20000 7\<rparr>"
  obtain r x'' s'' where w: "WriteExclusiveW 1 ?x ?s 0x20000 8 = Inr (r, x'', s'')"
    by (cases "WriteExclusiveW 1 ?x ?s 0x20000 8"; cases "reserved ?x 1 0x20000")
      (auto simp: WriteExclusiveW_def HasExclusive_eq WriteW_def)
  have "r = 1 \<and> memory s'' = memory ?s" by (rule store_opens_address [OF two_links_monitor _ two_links_store w]) simp
  then show ?thesis using two_links_store w by auto
qed

end
