(* ===== verification/Mips_Arith.thy ===== *)
theory Mips_Arith
  imports Mips_Correct
begin

text \<open>
  The arithmetic instructions of the simulator with results that do not fit into a register, and the
  loops that count leading bits.
\<close>

section \<open>Multiplication and division\<close>

definition hi_lo :: "simulator \<Rightarrow> 64 word" where
  "hi_lo s = LowHighTo64Bits_w (lo_reg s) (hi_reg s)"

lemma LowHigh_halves: "LowHighTo64Bits_w (Low32Bits_w v) (High32Bits_w v) = v"
  unfolding LowHighTo64Bits_w_def Low32Bits_w_def High32Bits_w_def
  by (rule bit_word_eqI) (auto simp: bit_simps)

lemma sint_mult_64:
  fixes x y :: u32
  shows "sint ((scast x :: 64 word) * scast y) = sint x * sint y"
proof -
  have up: "sint (scast w :: 64 word) = sint w" for w :: u32
    unfolding scast_eq sint_sbintrunc'
    by (rule signed_take_bit_int_eq_self) (use sint_bounds [of w] in simp_all)
  have "\<bar>sint x * sint y\<bar> \<le> 2147483648 * 2147483648"
    unfolding abs_mult using sint_bounds [of x] sint_bounds [of y] by (intro mult_mono) auto
  then have "- (2 ^ 63) \<le> sint x * sint y" "sint x * sint y < 2 ^ 63" by auto
  then have "signed_take_bit 63 (sint x * sint y) = sint x * sint y"
    by (intro signed_take_bit_int_eq_self) auto
  then show ?thesis by (simp add: sint_word_mult up)
qed

lemma uint_mult_64:
  fixes x y :: u32
  shows "uint ((ucast x :: 64 word) * ucast y) = uint x * uint y"
proof -
  have "uint x < 2 ^ 32" "uint y < 2 ^ 32" by (simp_all add: uint_lt2p [where 'a = 32, simplified])
  then have "uint x * uint y < 2 ^ 32 * 2 ^ 32" by (intro mult_strict_mono) auto
  then have "uint x * uint y mod 2 ^ 64 = uint x * uint y" by (intro mod_pos_pos_trivial) auto
  moreover have "uint (ucast w :: 64 word) = uint w" for w :: u32 by (simp add: uint_up_ucast is_up)
  ultimately show ?thesis by (simp add: uint_word_ariths)
qed

lemma sdiv_smod_fit:
  fixes x y :: u32
  assumes "y \<noteq> 0" "\<not> (x = 0x80000000 \<and> y = 0xffffffff)"
  shows "sint (word_of_int (sint x sdiv sint y) :: u32) = sint x sdiv sint y"
    and "sint (word_of_int (sint x smod sint y) :: u32) = sint x smod sint y"
proof -
  let ?q = "sint x sdiv sint y" and ?r = "sint x smod sint y"
  have y: "sint y \<noteq> 0" using assms(1) by (metis signed_0 signed_word_eqI)
  have q: "\<bar>?q\<bar> \<le> \<bar>sint x\<bar>" using sdiv_int_range [of "sint x" "sint y"] by auto
  have r: "\<bar>?r\<bar> < \<bar>sint y\<bar>" using smod_int_range [OF y, of "sint x"] by auto
  have "?q \<noteq> 2147483648"
  proof
    assume e: "?q = 2147483648"
    then have x: "sint x = - 2147483648" using q sint_bounds [of x] by linarith
    have "sint y * 2147483648 + ?r = - 2147483648"
      using mult_sdiv_smod_eq [of "sint y" "sint x", unfolded e] x by linarith
    moreover have "\<bar>?r\<bar> < 2147483648" using r sint_bounds [of y] by linarith
    ultimately have "sint y = sint (- 1 :: u32)" by simp
    moreover have "sint x = sint (0x80000000 :: u32)" using x by simp
    ultimately have "y = - 1" "x = 0x80000000" by (metis signed_word_eqI)+
    then show False using assms(2) by simp
  qed
  then have "- 2147483648 \<le> ?q" "?q \<le> 2147483647" using q sint_bounds [of x] by linarith+
  then show "sint (word_of_int ?q :: u32) = ?q"
    unfolding sint_sbintrunc' by (intro signed_take_bit_int_eq_self) simp_all
  have "- 2147483648 \<le> ?r" "?r \<le> 2147483647" using r sint_bounds [of y] by linarith+
  then show "sint (word_of_int ?r :: u32) = ?r"
    unfolding sint_sbintrunc' by (intro signed_take_bit_int_eq_self) simp_all
qed


text \<open>C20: Multiplication and division leave exact results in \<open>HI\<close> and \<open>LO\<close>: the signed and the unsigned
  64-bit product; and for a divisor other than zero a quotient and a remainder that add up to the dividend,
  with the remainder smaller than the divisor and of the sign of the dividend, also for the one signed division
  that overflows, where the quotient wraps around.\<close>

theorem mult_div_exact:
  assumes "x = get_register s (RsField instr)" "y = get_register s (RtField instr)"
  shows "sint (hi_lo (sim_MULT s instr)) = sint x * sint y \<and> uint (hi_lo (sim_MULTU s instr)) = uint x * uint y
    \<and> (y \<noteq> 0 \<longrightarrow>
        lo_reg (sim_DIV s instr) * y + hi_reg (sim_DIV s instr) = x
      \<and> \<bar>sint (hi_reg (sim_DIV s instr))\<bar> < \<bar>sint y\<bar>
      \<and> (sint (hi_reg (sim_DIV s instr)) \<noteq> 0 \<longrightarrow> sgn (sint (hi_reg (sim_DIV s instr))) = sgn (sint x))
      \<and> (\<not> (x = 0x80000000 \<and> y = 0xffffffff) \<longrightarrow>
           sint (lo_reg (sim_DIV s instr)) * sint y + sint (hi_reg (sim_DIV s instr)) = sint x)
      \<and> uint (lo_reg (sim_DIVU s instr)) * uint y + uint (hi_reg (sim_DIVU s instr)) = uint x
      \<and> hi_reg (sim_DIVU s instr) < y)"
proof -
  have mult: "sint (hi_lo (sim_MULT s instr)) = sint x * sint y" "uint (hi_lo (sim_MULTU s instr)) = uint x * uint y"
    by (simp_all add: sim_MULT_def sim_MULTU_def Let_def hi_lo_def LowHigh_halves sint_mult_64 uint_mult_64 assms)
  show ?thesis
  proof (intro conjI impI mult)
    assume y: "y \<noteq> 0"
    then have y': "0 < uint y" "sint y \<noteq> 0" by (metis order_le_neq_trans uint_0_iff unsigned_greater_eq, metis signed_0 signed_word_eqI)
    show "uint (lo_reg (sim_DIVU s instr)) * uint y + uint (hi_reg (sim_DIVU s instr)) = uint x"
      "hi_reg (sim_DIVU s instr) < y"
      using y y'(1) by (simp_all add: sim_DIVU_def Let_def assms uint_div uint_mod word_less_def)
    have r: "\<bar>sint x smod sint y\<bar> < \<bar>sint y\<bar>" using smod_int_range [OF y'(2), of "sint x"] by auto
    let ?ov = "x = 0x80000000 \<and> y = 0xffffffff"
    have lo: "lo_reg (sim_DIV s instr) = (if ?ov then 0x80000000 else word_of_int (sint x sdiv sint y))"
      and hi: "hi_reg (sim_DIV s instr) = (if ?ov then 0 else word_of_int (sint x smod sint y))"
      using y by (simp_all add: sim_DIV_def Let_def assms)
    have hi': "sint (hi_reg (sim_DIV s instr)) = (if ?ov then 0 else sint x smod sint y)"
      unfolding hi using sdiv_smod_fit(2) [OF y, of x] by simp
    have lo': "\<not> ?ov \<Longrightarrow> sint (lo_reg (sim_DIV s instr)) = sint x sdiv sint y"
      unfolding lo using sdiv_smod_fit(1) [OF y, of x] by simp
    show "\<bar>sint (hi_reg (sim_DIV s instr))\<bar> < \<bar>sint y\<bar>" unfolding hi' using r y'(2) by simp
    show "sgn (sint (hi_reg (sim_DIV s instr))) = sgn (sint x)" if "sint (hi_reg (sim_DIV s instr)) \<noteq> 0"
      using that y'(2) unfolding hi'
      by (auto simp: smod_int_alt_def sgn_mult sgn_1_pos order_le_less split: if_splits
          intro!: order_le_neq_trans [OF pos_mod_sign])
    show eq: "sint (lo_reg (sim_DIV s instr)) * sint y + sint (hi_reg (sim_DIV s instr)) = sint x" if "\<not> ?ov"
      unfolding hi' lo' [OF that] using that sdiv_mult_smod_eq [of "sint x" "sint y"] by simp
    show "lo_reg (sim_DIV s instr) * y + hi_reg (sim_DIV s instr) = x"
    proof (cases ?ov)
      case False
      have "lo_reg (sim_DIV s instr) * y + hi_reg (sim_DIV s instr)
          = word_of_int (sint (lo_reg (sim_DIV s instr)) * sint y + sint (hi_reg (sim_DIV s instr)))"
        by (simp flip: wi_hom_syms)
      then show ?thesis using eq [OF False] by simp
    qed (simp add: lo hi)
  qed
qed

theorem mult_div_exact_witness:
  "lo_reg (sim_DIV (machine (\<lambda>r. if r = 4 then - 7 else 2) 0 []) (RType_word SPECIAL 4 5 0 0 DIV)) = - 3
    \<and> hi_reg (sim_DIV (machine (\<lambda>r. if r = 4 then - 7 else 2) 0 []) (RType_word SPECIAL 4 5 0 0 DIV)) = - 1
    \<and> \<bar>sint (hi_reg (sim_DIV (machine (\<lambda>r. if r = 4 then - 7 else 2) 0 []) (RType_word SPECIAL 4 5 0 0 DIV)))\<bar> < 2"
  using mult_div_exact [of "- 7" "machine (\<lambda>r. if r = 4 then - 7 else 2) 0 []" "RType_word SPECIAL 4 5 0 0 DIV" 2]
  by (simp add: RType_fields sim_DIV_def Let_def)


section \<open>Counting leading bits\<close>

definition leading :: "bool \<Rightarrow> u32 \<Rightarrow> nat" where
  "leading b v = length (takeWhile (\<lambda>i. bit v (31 - i) = b) [0..<32])"

lemma sint_push_bit_neg: "sint (push_bit k v :: u32) < 0 \<longleftrightarrow> k < 32 \<and> bit v (31 - k)"
  using bit_last_iff [of "push_bit k v"] by (auto simp: bit_simps)

lemma CLO_loop_leading:
  "32 - k \<le> fuel \<Longrightarrow> CLO_loop fuel (push_bit k v) c = c + of_nat (length (takeWhile (\<lambda>i. bit v (31 - i)) [k..<32]))"
proof (induction fuel arbitrary: k c)
  case (Suc fuel)
  have "push_bit 1 (push_bit k v) = push_bit (Suc k) v" by (simp only: push_bit_push_bit add.commute [of 1] Suc_eq_plus1)
  then show ?case using Suc by (cases "k < 32") (auto simp: sint_push_bit_neg upt_conv_Cons simp del: push_bit_Suc push_bit_of_Suc_0)
qed simp

lemma CLZ_loop_leading:
  "32 - k \<le> fuel \<Longrightarrow> push_bit k v \<noteq> 0 \<Longrightarrow>
   CLZ_loop fuel (push_bit k v) c = c + of_nat (length (takeWhile (\<lambda>i. \<not> bit v (31 - i)) [k..<32]))"
proof (induction fuel arbitrary: k c)
  case (Suc fuel)
  obtain n where n: "n < 32" "bit (push_bit k v) n" 
    using Suc.prems(2) by (auto dest: bit_imp_le_length simp: bit_eq_iff [of "push_bit k v" 0])
  have k: "k < 32" using n by (simp add: bit_simps)
  have shift: "push_bit 1 (push_bit k v) = push_bit (Suc k) v"
    by (simp only: push_bit_push_bit add.commute [of 1] Suc_eq_plus1)
  have pos: "sint (push_bit k v) > 0 \<longleftrightarrow> \<not> bit v (31 - k)"
    using sint_push_bit_neg [of k v] k Suc.prems(2) by (metis linorder_neqE not_less_iff_gr_or_eq signed_0 signed_word_eqI)
  have step: "push_bit (Suc k) v \<noteq> 0" if b: "\<not> bit v (31 - k)"
  proof
    assume "push_bit (Suc k) v = 0"
    then have "\<not> bit (push_bit (Suc k) v) (Suc n)" by simp
    moreover have "n \<noteq> 31" using b n by (auto simp: bit_simps)
    ultimately show False using n by (auto simp: bit_simps simp del: push_bit_Suc)
  qed
  show ?case using Suc.IH [of "Suc k"] Suc.prems step k
    by (auto simp: pos upt_conv_Cons shift simp del: push_bit_Suc)
qed simp

text \<open>C21: The loops of \<open>CLO\<close> and \<open>CLZ\<close> end, after at most 32 iterations whatever their
  operand, and leave the number of leading ones and of leading zeros of the operand in the destination.\<close>

theorem leading_count_loops:
  assumes "rd \<noteq> 0" "RdField instr = rd" "v = get_register s (RsField instr)" "32 \<le> fuel"
  shows "get_register (sim_CLO s instr) rd = of_nat (leading True v) \<and> CLO_loop fuel v 0 = CLO_loop 32 v 0
    \<and> get_register (sim_CLZ s instr) rd = of_nat (leading False v) \<and> (v \<noteq> 0 \<longrightarrow> CLZ_loop fuel v 0 = CLZ_loop 32 v 0)"
proof -
  have o: "CLO_loop f v 0 = of_nat (leading True v)" if "32 \<le> f" for f
    using CLO_loop_leading [of 0 f v 0] that by (simp add: leading_def)
  have z: "CLZ_loop f v 0 = of_nat (leading False v)" if "32 \<le> f" "v \<noteq> 0" for f
    using CLZ_loop_leading [of 0 f v 0] that by (simp add: leading_def)
  have "leading False 0 = 32" by (simp add: leading_def takeWhile_eq_all_conv [THEN iffD2])
  then show ?thesis using assms o z by (auto simp: sim_CLO_def sim_CLZ_def Let_def)
qed

theorem leading_count_loops_witness:
  "leading False 0x00ff0000 = 8 \<and> get_register (sim_CLZ (machine (\<lambda>r. 0x00ff0000) 0 []) (RType_word SPECIAL2 4 2 2 0 CLZ)) 2 = 8
    \<and> CLZ_loop 100 0x00ff0000 0 = CLZ_loop 32 0x00ff0000 0"
proof -
  have l: "leading False 0x00ff0000 = 8" by code_simp
  show ?thesis
    using leading_count_loops [of 2 "RType_word SPECIAL2 4 2 2 0 CLZ" "0x00ff0000" "machine (\<lambda>r. 0x00ff0000) 0 []" 100] l
    by (simp add: RType_fields)
qed

end
