(* ===== verification/Range_Analysis.thy ===== *)
theory Range_Analysis
  imports Dart_Utils "HOL-Library.Monad_Syntax" "HOL-Library.Signed_Division"
begin

text \<open>
  The integer ranges of the optimising compiler, from \<^verbatim>\<open>vm/flow_graph_range_analysis.h\<close> and
  \<^verbatim>\<open>vm/flow_graph_range_analysis.cc\<close>: boundaries that are constants, infinities or a definition of the flow graph plus an
  offset, the ranges of the binary operations, and the decision whether an operation can overflow. A definition
  of the flow graph is a number; what the analysis reads of it is collected in a record. The bounds of a symbolic boundary
  follow the ranges of definitions and return only when these are not cyclic, so they are partial functions. Signed
  arithmetic wraps around and shift counts are taken modulo 64, as the 64-bit build computes them.
\<close>

section \<open>Boundaries\<close>

datatype RangeBoundary = kUnknown | kNegativeInfinity | kPositiveInfinity | kSymbol nat int | kConstant int

datatype RangeSize = kRangeBoundarySmi | kRangeBoundaryInt32 | kRangeBoundaryInt64

record Range =
  range_min :: RangeBoundary
  range_max :: RangeBoundary

record Definitions =
  defn_range :: "nat \<Rightarrow> Range option"
  defn_smi :: "nat \<Rightarrow> int option"
  defn_array_length :: "nat \<Rightarrow> bool"

fun IsInfinity :: "RangeBoundary \<Rightarrow> bool" where
  "IsInfinity kNegativeInfinity = True"
| "IsInfinity kPositiveInfinity = True"
| "IsInfinity _ = False"

fun ConstantValue :: "RangeBoundary \<Rightarrow> int" where
  "ConstantValue (kConstant v) = v"
| "ConstantValue _ = 0"

definition FromDefinition :: "Definitions \<Rightarrow> nat \<Rightarrow> int \<Rightarrow> RangeBoundary" where
  "FromDefinition fl defn offs =
     (case defn_smi fl defn of Some v \<Rightarrow> kConstant (int64 (v + offs)) | None \<Rightarrow> kSymbol defn offs)"

fun MinConstant :: "RangeSize \<Rightarrow> RangeBoundary" where
  "MinConstant kRangeBoundarySmi = kConstant kSmiMin"
| "MinConstant kRangeBoundaryInt32 = kConstant kMinInt32"
| "MinConstant kRangeBoundaryInt64 = kConstant kMinInt64"

fun MaxConstant :: "RangeSize \<Rightarrow> RangeBoundary" where
  "MaxConstant kRangeBoundarySmi = kConstant kSmiMax"
| "MaxConstant kRangeBoundaryInt32 = kConstant kMaxInt32"
| "MaxConstant kRangeBoundaryInt64 = kConstant kMaxInt64"

fun Boundary_Clamp :: "RangeSize \<Rightarrow> RangeBoundary \<Rightarrow> RangeBoundary" where
  "Boundary_Clamp range_size kNegativeInfinity = MinConstant range_size"
| "Boundary_Clamp range_size kPositiveInfinity = MaxConstant range_size"
| "Boundary_Clamp range_size (kConstant v) =
     (if v \<le> ConstantValue (MinConstant range_size) then MinConstant range_size
      else if v \<ge> ConstantValue (MaxConstant range_size) then MaxConstant range_size
      else kConstant v)"
| "Boundary_Clamp range_size b = b"

definition Overflowed :: "RangeSize \<Rightarrow> RangeBoundary \<Rightarrow> bool" where
  "Overflowed range_size b \<longleftrightarrow> b \<noteq> Boundary_Clamp range_size b"

definition Boundary_Add :: "RangeBoundary \<Rightarrow> RangeBoundary \<Rightarrow> RangeBoundary \<Rightarrow> RangeBoundary" where
  "Boundary_Add a b overflow =
     (if IsInfinity a \<or> IsInfinity b then overflow
      else if WillAddOverflow (ConstantValue a) (ConstantValue b) then overflow
      else kConstant (ConstantValue a + ConstantValue b))"

definition Boundary_Sub :: "RangeBoundary \<Rightarrow> RangeBoundary \<Rightarrow> RangeBoundary \<Rightarrow> RangeBoundary" where
  "Boundary_Sub a b overflow =
     (if IsInfinity a \<or> IsInfinity b then overflow
      else if WillSubOverflow (ConstantValue a) (ConstantValue b) then overflow
      else kConstant (ConstantValue a - ConstantValue b))"

fun SymbolicAdd :: "Definitions \<Rightarrow> RangeBoundary \<Rightarrow> RangeBoundary \<Rightarrow> RangeBoundary option" where
  "SymbolicAdd fl (kSymbol d offs) (kConstant c) =
     (if WillAddOverflow offs c then None else Some (FromDefinition fl d (offs + c)))"
| "SymbolicAdd fl (kConstant c) (kSymbol d offs) =
     (if WillAddOverflow offs c then None else Some (FromDefinition fl d (offs + c)))"
| "SymbolicAdd fl a b = None"

fun SymbolicSub :: "Definitions \<Rightarrow> RangeBoundary \<Rightarrow> RangeBoundary \<Rightarrow> RangeBoundary option" where
  "SymbolicSub fl (kSymbol d offs) (kConstant c) =
     (if WillSubOverflow offs c then None else Some (FromDefinition fl d (offs - c)))"
| "SymbolicSub fl a b = None"

definition Boundary_Shl :: "RangeBoundary \<Rightarrow> int \<Rightarrow> RangeBoundary \<Rightarrow> RangeBoundary" where
  "Boundary_Shl value_boundary shift_count overflow =
     (let limit = 64 - shift_count;
          value = ConstantValue value_boundary
      in if value = 0 \<or> shift_count = 0 \<or> (limit > 0 \<and> IsInt (nat limit) value)
         then kConstant (int64 (push_bit (nat (shift_count mod 64)) value))
         else overflow)"

definition Boundary_Shr :: "RangeBoundary \<Rightarrow> int \<Rightarrow> RangeBoundary" where
  "Boundary_Shr value_boundary shift_count =
     kConstant (drop_bit (nat (shift_count mod 64)) (ConstantValue value_boundary))"

partial_function (option) LowerBound :: "Definitions \<Rightarrow> RangeBoundary \<Rightarrow> RangeBoundary option" where
  "LowerBound fl b =
     (case b of
        kNegativeInfinity \<Rightarrow> Some kNegativeInfinity
      | kPositiveInfinity \<Rightarrow> Some kNegativeInfinity
      | kConstant v \<Rightarrow> Some (kConstant v)
      | kSymbol d offs \<Rightarrow>
          (case defn_range fl d of
             None \<Rightarrow> Some (Boundary_Add (MinConstant kRangeBoundarySmi) (kConstant offs) kNegativeInfinity)
           | Some r \<Rightarrow> do {
               l \<leftarrow> LowerBound fl (range_min r);
               Some (Boundary_Add (Boundary_Clamp kRangeBoundarySmi l) (kConstant offs) kNegativeInfinity) })
      | kUnknown \<Rightarrow> None)"

partial_function (option) UpperBound :: "Definitions \<Rightarrow> RangeBoundary \<Rightarrow> RangeBoundary option" where
  "UpperBound fl b =
     (case b of
        kNegativeInfinity \<Rightarrow> Some kPositiveInfinity
      | kPositiveInfinity \<Rightarrow> Some kPositiveInfinity
      | kConstant v \<Rightarrow> Some (kConstant v)
      | kSymbol d offs \<Rightarrow>
          (case defn_range fl d of
             None \<Rightarrow> Some (Boundary_Add (MaxConstant kRangeBoundarySmi) (kConstant offs) kPositiveInfinity)
           | Some r \<Rightarrow> do {
               u \<leftarrow> UpperBound fl (range_max r);
               Some (Boundary_Add (Boundary_Clamp kRangeBoundarySmi u) (kConstant offs) kPositiveInfinity) })
      | kUnknown \<Rightarrow> None)"

section \<open>Ranges\<close>

definition ConstantMin :: "Definitions \<Rightarrow> Range \<Rightarrow> RangeSize \<Rightarrow> int option" where
  "ConstantMin fl rng range_size = do {
     l \<leftarrow> LowerBound fl (range_min rng);
     Some (ConstantValue (Boundary_Clamp range_size l)) }"

definition ConstantMax :: "Definitions \<Rightarrow> Range \<Rightarrow> RangeSize \<Rightarrow> int option" where
  "ConstantMax fl rng range_size = do {
     u \<leftarrow> UpperBound fl (range_max rng);
     Some (ConstantValue (Boundary_Clamp range_size u)) }"

definition OnlyLessThanOrEqualTo :: "Definitions \<Rightarrow> Range \<Rightarrow> int \<Rightarrow> bool option" where
  "OnlyLessThanOrEqualTo fl rng val = do {
     upper_bound \<leftarrow> UpperBound fl (range_max rng);
     Some (upper_bound \<noteq> kPositiveInfinity \<and> ConstantValue upper_bound \<le> val) }"

definition OnlyGreaterThanOrEqualTo :: "Definitions \<Rightarrow> Range \<Rightarrow> int \<Rightarrow> bool option" where
  "OnlyGreaterThanOrEqualTo fl rng val = do {
     lower_bound \<leftarrow> LowerBound fl (range_min rng);
     Some (lower_bound \<noteq> kNegativeInfinity \<and> ConstantValue lower_bound \<ge> val) }"

definition Fits :: "Definitions \<Rightarrow> Range \<Rightarrow> RangeSize \<Rightarrow> bool option" where
  "Fits fl rng range_size = do {
     l \<leftarrow> LowerBound fl (range_min rng);
     u \<leftarrow> UpperBound fl (range_max rng);
     Some (\<not> Overflowed range_size l \<and> \<not> Overflowed range_size u) }"

definition Range_Clamp :: "RangeSize \<Rightarrow> Range \<Rightarrow> Range" where
  "Range_Clamp range_size rng =
     \<lparr>range_min = Boundary_Clamp range_size (range_min rng), range_max = Boundary_Clamp range_size (range_max rng)\<rparr>"

definition Range_Shl :: "Definitions \<Rightarrow> Range \<Rightarrow> Range \<Rightarrow> Range option" where
  "Range_Shl fl left right = do {
     left_max \<leftarrow> ConstantMax fl left kRangeBoundaryInt64;
     left_min \<leftarrow> ConstantMin fl left kRangeBoundaryInt64;
     right_max' \<leftarrow> ConstantMax fl right kRangeBoundaryInt64;
     right_min' \<leftarrow> ConstantMin fl right kRangeBoundaryInt64;
     let right_max = Maximum right_max' 0;
         right_min = Maximum right_min' 0
     in Some \<lparr>range_min = Boundary_Shl (kConstant left_min) (if left_min > 0 then right_min else right_max)
                 (if left_min > 0 then kPositiveInfinity else kNegativeInfinity),
              range_max = Boundary_Shl (kConstant left_max) (if left_max > 0 then right_max else right_min)
                 (if left_max > 0 then kPositiveInfinity else kNegativeInfinity)\<rparr> }"

definition Range_Shr :: "Definitions \<Rightarrow> Range \<Rightarrow> Range \<Rightarrow> Range option" where
  "Range_Shr fl left right = do {
     left_max \<leftarrow> ConstantMax fl left kRangeBoundaryInt64;
     left_min \<leftarrow> ConstantMin fl left kRangeBoundaryInt64;
     right_max' \<leftarrow> ConstantMax fl right kRangeBoundaryInt64;
     right_min' \<leftarrow> ConstantMin fl right kRangeBoundaryInt64;
     let right_max = Maximum right_max' 0;
         right_min = Maximum right_min' 0
     in Some \<lparr>range_min = Boundary_Shr (kConstant left_min) (if left_min > 0 then right_max else right_min),
              range_max = Boundary_Shr (kConstant left_max) (if left_max > 0 then right_min else right_max)\<rparr> }"

definition BitSize :: "Definitions \<Rightarrow> Range \<Rightarrow> int option" where
  "BitSize fl rng = do {
     mn \<leftarrow> ConstantMin fl rng kRangeBoundaryInt64;
     mx \<leftarrow> ConstantMax fl rng kRangeBoundaryInt64;
     Some (Maximum (BitLength mn) (BitLength mx)) }"

definition BitwiseOp :: "Definitions \<Rightarrow> Range \<Rightarrow> Range \<Rightarrow> Range option" where
  "BitwiseOp fl left_range right_range = do {
     left_bits \<leftarrow> BitSize fl left_range;
     right_bits \<leftarrow> BitSize fl right_range;
     left_positive \<leftarrow> OnlyGreaterThanOrEqualTo fl left_range 0;
     right_positive \<leftarrow> OnlyGreaterThanOrEqualTo fl right_range 0;
     let bitsize = nat (Maximum left_bits right_bits)
     in Some \<lparr>range_min = kConstant (if left_positive \<and> right_positive then 0 else int64 (push_bit bitsize (- 1))),
              range_max = kConstant (int64 (push_bit bitsize 1 - 1))\<rparr> }"

definition Range_And :: "Definitions \<Rightarrow> Range \<Rightarrow> Range \<Rightarrow> Range option" where
  "Range_And fl left_range right_range = do {
     right_min \<leftarrow> ConstantMin fl right_range kRangeBoundaryInt64;
     if right_min \<ge> 0 then do {
       right_max \<leftarrow> ConstantMax fl right_range kRangeBoundaryInt64;
       Some \<lparr>range_min = kConstant 0, range_max = kConstant right_max\<rparr> }
     else do {
       left_min \<leftarrow> ConstantMin fl left_range kRangeBoundaryInt64;
       if left_min \<ge> 0 then do {
         left_max \<leftarrow> ConstantMax fl left_range kRangeBoundaryInt64;
         Some \<lparr>range_min = kConstant 0, range_max = kConstant left_max\<rparr> }
       else BitwiseOp fl left_range right_range } }"

definition Range_Add :: "Definitions \<Rightarrow> Range \<Rightarrow> Range \<Rightarrow> nat \<Rightarrow> Range option" where
  "Range_Add fl left_range right_range left_defn =
     (let left_min = (if defn_array_length fl left_defn then FromDefinition fl left_defn 0 else range_min left_range);
          left_max = (if defn_array_length fl left_defn then FromDefinition fl left_defn 0 else range_max left_range)
      in do {
        result_min \<leftarrow> (case SymbolicAdd fl left_min (range_min right_range) of
            Some b \<Rightarrow> Some b
          | None \<Rightarrow> do {
              l \<leftarrow> LowerBound fl (range_min left_range);
              r \<leftarrow> LowerBound fl (range_min right_range);
              Some (Boundary_Add l r kNegativeInfinity) });
        result_max \<leftarrow> (case SymbolicAdd fl left_max (range_max right_range) of
            Some b \<Rightarrow> Some b
          | None \<Rightarrow> do {
              r \<leftarrow> UpperBound fl (range_max right_range);
              l \<leftarrow> UpperBound fl (range_max left_range);
              Some (Boundary_Add r l kPositiveInfinity) });
        Some \<lparr>range_min = result_min, range_max = result_max\<rparr> })"

definition Range_Sub :: "Definitions \<Rightarrow> Range \<Rightarrow> Range \<Rightarrow> nat \<Rightarrow> Range option" where
  "Range_Sub fl left_range right_range left_defn =
     (let left_min = (if defn_array_length fl left_defn then FromDefinition fl left_defn 0 else range_min left_range);
          left_max = (if defn_array_length fl left_defn then FromDefinition fl left_defn 0 else range_max left_range)
      in do {
        result_min \<leftarrow> (case SymbolicSub fl left_min (range_max right_range) of
            Some b \<Rightarrow> Some b
          | None \<Rightarrow> do {
              l \<leftarrow> LowerBound fl (range_min left_range);
              r \<leftarrow> UpperBound fl (range_max right_range);
              Some (Boundary_Sub l r kNegativeInfinity) });
        result_max \<leftarrow> (case SymbolicSub fl left_max (range_min right_range) of
            Some b \<Rightarrow> Some b
          | None \<Rightarrow> do {
              l \<leftarrow> UpperBound fl (range_max left_range);
              r \<leftarrow> LowerBound fl (range_min right_range);
              Some (Boundary_Sub l r kPositiveInfinity) });
        Some \<lparr>range_min = result_min, range_max = result_max\<rparr> })"

definition OnlyPositiveOrZero :: "Definitions \<Rightarrow> Range \<Rightarrow> Range \<Rightarrow> bool option" where
  "OnlyPositiveOrZero fl a b = do {
     p \<leftarrow> OnlyGreaterThanOrEqualTo fl a 0;
     q \<leftarrow> OnlyGreaterThanOrEqualTo fl b 0;
     Some (p \<and> q) }"

definition OnlyNegativeOrZero :: "Definitions \<Rightarrow> Range \<Rightarrow> Range \<Rightarrow> bool option" where
  "OnlyNegativeOrZero fl a b = do {
     p \<leftarrow> OnlyLessThanOrEqualTo fl a 0;
     q \<leftarrow> OnlyLessThanOrEqualTo fl b 0;
     Some (p \<and> q) }"

definition ConstantAbsMax :: "Definitions \<Rightarrow> Range \<Rightarrow> int option" where
  "ConstantAbsMax fl rng = do {
     mn \<leftarrow> ConstantMin fl rng kRangeBoundaryInt64;
     mx \<leftarrow> ConstantMax fl rng kRangeBoundaryInt64;
     Some (Maximum (Abs64 mn) (Abs64 mx)) }"

definition ConstantAbsMin :: "Definitions \<Rightarrow> Range \<Rightarrow> int option" where
  "ConstantAbsMin fl rng = do {
     mn \<leftarrow> ConstantMin fl rng kRangeBoundaryInt64;
     mx \<leftarrow> ConstantMax fl rng kRangeBoundaryInt64;
     Some (Minimum (Abs64 mn) (Abs64 mx)) }"

definition Range_Mul :: "Definitions \<Rightarrow> Range \<Rightarrow> Range \<Rightarrow> Range option" where
  "Range_Mul fl left_range right_range = do {
     left_max \<leftarrow> ConstantAbsMax fl left_range;
     right_max \<leftarrow> ConstantAbsMax fl right_range;
     positive \<leftarrow> OnlyPositiveOrZero fl left_range right_range;
     negative \<leftarrow> OnlyNegativeOrZero fl left_range right_range;
     if left_max \<le> - kSmiMin \<and> right_max \<le> - kSmiMin \<and> (left_max = 0 \<or> right_max \<le> kMaxInt64 sdiv left_max) then
       let mul_max = int64 (left_max * right_max)
       in if positive \<or> negative then do {
            left_min \<leftarrow> ConstantAbsMin fl left_range;
            right_min \<leftarrow> ConstantAbsMin fl right_range;
            Some \<lparr>range_min = kConstant (int64 (left_min * right_min)), range_max = kConstant mul_max\<rparr> }
          else Some \<lparr>range_min = kConstant (int64 (- mul_max)), range_max = kConstant mul_max\<rparr>
     else if positive \<or> negative then Some \<lparr>range_min = kConstant 0, range_max = kPositiveInfinity\<rparr>
     else Some \<lparr>range_min = kNegativeInfinity, range_max = kPositiveInfinity\<rparr> }"

datatype Token = kADD | kSUB | kMUL | kSHL | kSHR | kBIT_AND | kBIT_XOR | kBIT_OR | kOtherToken

fun BinaryOp :: "Definitions \<Rightarrow> Token \<Rightarrow> Range \<Rightarrow> Range \<Rightarrow> nat \<Rightarrow> Range option" where
  "BinaryOp fl kADD left_range right_range left_defn = Range_Add fl left_range right_range left_defn"
| "BinaryOp fl kSUB left_range right_range left_defn = Range_Sub fl left_range right_range left_defn"
| "BinaryOp fl kMUL left_range right_range left_defn = Range_Mul fl left_range right_range"
| "BinaryOp fl kSHL left_range right_range left_defn = Range_Shl fl left_range right_range"
| "BinaryOp fl kSHR left_range right_range left_defn = Range_Shr fl left_range right_range"
| "BinaryOp fl kBIT_AND left_range right_range left_defn = Range_And fl left_range right_range"
| "BinaryOp fl kBIT_XOR left_range right_range left_defn = BitwiseOp fl left_range right_range"
| "BinaryOp fl kBIT_OR left_range right_range left_defn = BitwiseOp fl left_range right_range"
| "BinaryOp fl kOtherToken left_range right_range left_defn =
     Some \<lparr>range_min = kNegativeInfinity, range_max = kPositiveInfinity\<rparr>"

text \<open>The range of a binary operation from those of its operands, and whether it can overflow; \<open>rng\<close> and \<open>can_overflow\<close> are
  what the instruction had before.\<close>

fun IsUnknown :: "Range option \<Rightarrow> bool" where
  "IsUnknown None = True"
| "IsUnknown (Some other) = (range_min other = kUnknown)"

fun InferRangeHelper :: "Definitions \<Rightarrow> Token \<Rightarrow> nat \<Rightarrow> RangeSize \<Rightarrow> bool \<Rightarrow> Range option \<Rightarrow> Range option \<Rightarrow> Range \<times> bool
    \<Rightarrow> (Range \<times> bool) option" where
  "InferRangeHelper fl op_kind left_defn range_size is_truncating left_range right_range (rng, can_overflow) =
     (if IsUnknown left_range \<or> IsUnknown right_range then Some (rng, can_overflow)
      else do {
        rng \<leftarrow> BinaryOp fl op_kind (the left_range) (the right_range) left_defn;
        can_overflow \<leftarrow> (if \<not> is_truncating then do { fits \<leftarrow> Fits fl rng range_size; Some (\<not> fits) } else Some can_overflow);
        Some (Range_Clamp range_size rng, can_overflow) })"

end
