(* ===== verification/Range_Sound.thy ===== *)
theory Range_Sound
  imports Range_Analysis
begin

text \<open>
  Soundness of the range analysis: for every assignment of values to the definitions that agrees with their ranges,
  the range computed for an operation contains its result, and an operation said not to overflow does not.
\<close>

section \<open>What ranges mean\<close>

text \<open>The value \<open>x\<close> respects a boundary as a lower or as an upper bound. An infinity on the wrong side, which the ranges of shifts use, says that
  the value is not a 64-bit integer.\<close>

fun at_least :: "(nat \<Rightarrow> int) \<Rightarrow> RangeBoundary \<Rightarrow> int \<Rightarrow> bool" where
  "at_least val kUnknown x \<longleftrightarrow> True"
| "at_least val kNegativeInfinity x \<longleftrightarrow> True"
| "at_least val kPositiveInfinity x \<longleftrightarrow> kMaxInt64 < x"
| "at_least val (kSymbol d offs) x \<longleftrightarrow> val d + offs \<le> x"
| "at_least val (kConstant c) x \<longleftrightarrow> c \<le> x"

fun at_most :: "(nat \<Rightarrow> int) \<Rightarrow> RangeBoundary \<Rightarrow> int \<Rightarrow> bool" where
  "at_most val kUnknown x \<longleftrightarrow> True"
| "at_most val kPositiveInfinity x \<longleftrightarrow> True"
| "at_most val kNegativeInfinity x \<longleftrightarrow> x < kMinInt64"
| "at_most val (kSymbol d offs) x \<longleftrightarrow> x \<le> val d + offs"
| "at_most val (kConstant c) x \<longleftrightarrow> x \<le> c"

definition in_range :: "(nat \<Rightarrow> int) \<Rightarrow> Range \<Rightarrow> int \<Rightarrow> bool" where
  "in_range val r x \<longleftrightarrow> at_least val (range_min r) x \<and> at_most val (range_max r) x"

fun wf_boundary :: "Definitions \<Rightarrow> RangeBoundary \<Rightarrow> bool" where
  "wf_boundary fl kUnknown \<longleftrightarrow> False"
| "wf_boundary fl (kConstant c) \<longleftrightarrow> is_int64 c"
| "wf_boundary fl (kSymbol d offs) \<longleftrightarrow> is_int64 offs \<and> defn_smi fl d = None"
| "wf_boundary fl b \<longleftrightarrow> True"

definition wf_range :: "Definitions \<Rightarrow> Range \<Rightarrow> bool" where
  "wf_range fl r \<longleftrightarrow> wf_boundary fl (range_min r) \<and> wf_boundary fl (range_max r)"

fun refers :: "RangeBoundary \<Rightarrow> nat \<Rightarrow> bool" where
  "refers (kSymbol d offs) e \<longleftrightarrow> d = e"
| "refers b e \<longleftrightarrow> False"

text \<open>A flow graph that ran: the definitions have small integers as values, which lie in their ranges, no range refers to
  its own definition through others, and an array length is not a constant.\<close>

definition flow_ok :: "Definitions \<Rightarrow> (nat \<Rightarrow> int) \<Rightarrow> (nat \<Rightarrow> nat) \<Rightarrow> bool" where
  "flow_ok fl val rank \<longleftrightarrow> (\<forall>d. kSmiMin \<le> val d \<and> val d \<le> kSmiMax \<and> (defn_array_length fl d \<longrightarrow> defn_smi fl d = None))
     \<and> (\<forall>d r. defn_range fl d = Some r \<longrightarrow> wf_range fl r \<and> in_range val r (val d)
          \<and> (\<forall>e. refers (range_min r) e \<or> refers (range_max r) e \<longrightarrow> rank e < rank d))"

lemma flow_okD:
  assumes "flow_ok fl val rank"
  shows "kSmiMin \<le> val d" "val d \<le> kSmiMax" "defn_array_length fl d \<Longrightarrow> defn_smi fl d = None"
    "defn_range fl d = Some r \<Longrightarrow> wf_range fl r" "defn_range fl d = Some r \<Longrightarrow> in_range val r (val d)"
    "defn_range fl d = Some r \<Longrightarrow> refers (range_min r) e \<Longrightarrow> rank e < rank d"
    "defn_range fl d = Some r \<Longrightarrow> refers (range_max r) e \<Longrightarrow> rank e < rank d"
  using assms by (auto simp: flow_ok_def)

section \<open>Bounds of boundaries\<close>

fun finite_or :: "RangeBoundary \<Rightarrow> RangeBoundary \<Rightarrow> bool" where
  "finite_or e (kConstant c) \<longleftrightarrow> is_int64 c"
| "finite_or e b \<longleftrightarrow> b = e"

lemma Boundary_Add_cases:
  assumes "is_int64 a" "is_int64 b"
  shows "Boundary_Add (kConstant a) (kConstant b) ov = (if is_int64 (a + b) then kConstant (a + b) else ov)"
  using assms by (simp add: Boundary_Add_def WillAddOverflow_iff)

lemma Boundary_Sub_cases:
  assumes "is_int64 a" "is_int64 b"
  shows "Boundary_Sub (kConstant a) (kConstant b) ov = (if is_int64 (a - b) then kConstant (a - b) else ov)"
  using assms by (simp add: Boundary_Sub_def WillSubOverflow_iff)

lemma smi_int64: "is_int64 kSmiMin" "is_int64 kSmiMax"
  by (simp_all add: is_int64_def limits)

lemma clamp_smi_lower:
  assumes "finite_or kNegativeInfinity l" "at_least val l x" "kSmiMin \<le> x" "x \<le> kSmiMax"
  shows "\<exists>c. Boundary_Clamp kRangeBoundarySmi l = kConstant c \<and> is_int64 c \<and> c \<le> x"
  using assms smi_int64 by (cases l) auto

lemma clamp_smi_upper:
  assumes "finite_or kPositiveInfinity u" "at_most val u x" "kSmiMin \<le> x" "x \<le> kSmiMax"
  shows "\<exists>c. Boundary_Clamp kRangeBoundarySmi u = kConstant c \<and> is_int64 c \<and> x \<le> c"
  using assms smi_int64 by (cases u) auto

lemmas bound_simps = LowerBound.simps [of _ kNegativeInfinity] LowerBound.simps [of _ kPositiveInfinity] LowerBound.simps [of _ "kConstant c" for c]
  UpperBound.simps [of _ kNegativeInfinity] UpperBound.simps [of _ kPositiveInfinity] UpperBound.simps [of _ "kConstant c" for c]

lemma LowerBound_sound:
  assumes "flow_ok fl val rank" "wf_boundary fl b"
  shows "\<exists>l. LowerBound fl b = Some l \<and> finite_or kNegativeInfinity l \<and> (\<forall>x. at_least val b x \<longrightarrow> at_least val l x)"
  using assms(2)
proof (induction "case b of kSymbol d offs \<Rightarrow> Suc (rank d) | _ \<Rightarrow> 0" arbitrary: b rule: less_induct)
  case less
  show ?case
  proof (cases b)
    case (kSymbol d offs)
    have o: "is_int64 offs" using less.prems kSymbol by simp
    note v = flow_okD(1,2) [OF assms(1), of d]
    obtain c where c: "is_int64 c" "c \<le> val d" "LowerBound fl b = Some (Boundary_Add (kConstant c) (kConstant offs) kNegativeInfinity)"
    proof (cases "defn_range fl d")
      case None
      then show ?thesis using that [of kSmiMin] v smi_int64 kSymbol by (simp add: LowerBound.simps [of fl "kSymbol d offs"])
    next
      case (Some r)
      have "(case range_min r of kSymbol d' offs \<Rightarrow> Suc (rank d') | _ \<Rightarrow> 0) < (case b of kSymbol d offs \<Rightarrow> Suc (rank d) | _ \<Rightarrow> 0)"
        using flow_okD(6) [OF assms(1) Some] kSymbol by (cases "range_min r") auto
      then obtain l where l: "LowerBound fl (range_min r) = Some l" "finite_or kNegativeInfinity l" "\<And>x. at_least val (range_min r) x \<Longrightarrow> at_least val l x"
        using less.hyps [of "range_min r"] flow_okD(4) [OF assms(1) Some] by (auto simp: wf_range_def split: RangeBoundary.splits)
      have "at_least val l (val d)" using l(3) flow_okD(5) [OF assms(1) Some] by (simp add: in_range_def)
      from clamp_smi_lower [OF l(2) this v] obtain c where "Boundary_Clamp kRangeBoundarySmi l = kConstant c" "is_int64 c" "c \<le> val d" by blast
      then show ?thesis using that [of c] l(1) Some kSymbol by (simp add: LowerBound.simps [of fl "kSymbol d offs"])
    qed
    then show ?thesis using Boundary_Add_cases [OF c(1) o] kSymbol by auto
  qed (use less.prems in \<open>auto simp: bound_simps\<close>)
qed

lemma UpperBound_sound:
  assumes "flow_ok fl val rank" "wf_boundary fl b"
  shows "\<exists>u. UpperBound fl b = Some u \<and> finite_or kPositiveInfinity u \<and> (\<forall>x. at_most val b x \<longrightarrow> at_most val u x)"
  using assms(2)
proof (induction "case b of kSymbol d offs \<Rightarrow> Suc (rank d) | _ \<Rightarrow> 0" arbitrary: b rule: less_induct)
  case less
  show ?case
  proof (cases b)
    case (kSymbol d offs)
    have o: "is_int64 offs" using less.prems kSymbol by simp
    note v = flow_okD(1,2) [OF assms(1), of d]
    obtain c where c: "is_int64 c" "val d \<le> c" "UpperBound fl b = Some (Boundary_Add (kConstant c) (kConstant offs) kPositiveInfinity)"
    proof (cases "defn_range fl d")
      case None
      then show ?thesis using that [of kSmiMax] v smi_int64 kSymbol by (simp add: UpperBound.simps [of fl "kSymbol d offs"])
    next
      case (Some r)
      have "(case range_max r of kSymbol d' offs \<Rightarrow> Suc (rank d') | _ \<Rightarrow> 0) < (case b of kSymbol d offs \<Rightarrow> Suc (rank d) | _ \<Rightarrow> 0)"
        using flow_okD(7) [OF assms(1) Some] kSymbol by (cases "range_max r") auto
      then obtain u where u: "UpperBound fl (range_max r) = Some u" "finite_or kPositiveInfinity u" "\<And>x. at_most val (range_max r) x \<Longrightarrow> at_most val u x"
        using less.hyps [of "range_max r"] flow_okD(4) [OF assms(1) Some] by (auto simp: wf_range_def split: RangeBoundary.splits)
      have "at_most val u (val d)" using u(3) flow_okD(5) [OF assms(1) Some] by (simp add: in_range_def)
      from clamp_smi_upper [OF u(2) this v] obtain c where "Boundary_Clamp kRangeBoundarySmi u = kConstant c" "is_int64 c" "val d \<le> c" by blast
      then show ?thesis using that [of c] u(1) Some kSymbol by (simp add: UpperBound.simps [of fl "kSymbol d offs"])
    qed
    then show ?thesis using Boundary_Add_cases [OF c(1) o] kSymbol by auto
  qed (use less.prems in \<open>auto simp: bound_simps\<close>)
qed

section \<open>The ranges of operations\<close>

fun value_of :: "Token \<Rightarrow> int \<Rightarrow> int \<Rightarrow> int option" where
  "value_of kADD x y = Some (x + y)"
| "value_of kSUB x y = Some (x - y)"
| "value_of kMUL x y = Some (x * y)"
| "value_of kSHL x y = (if 0 \<le> y then Some (x * 2 ^ nat y) else None)"
| "value_of kSHR x y = (if 0 \<le> y then Some (x div 2 ^ nat y) else None)"
| "value_of kBIT_AND x y = Some (and x y)"
| "value_of kBIT_XOR x y = Some (xor x y)"
| "value_of kBIT_OR x y = Some (or x y)"
| "value_of kOtherToken x y = None"

text \<open>Where the operations on ranges are right: the absolute value of the least 64-bit integer and shifts by 64 or more are not.\<close>

fun op_ok :: "Definitions \<Rightarrow> Token \<Rightarrow> Range \<Rightarrow> Range \<Rightarrow> bool" where
  "op_ok fl kMUL left_range right_range \<longleftrightarrow>
     ConstantMin fl left_range kRangeBoundaryInt64 \<noteq> Some kMinInt64 \<and> ConstantMin fl right_range kRangeBoundaryInt64 \<noteq> Some kMinInt64"
| "op_ok fl kSHR left_range right_range \<longleftrightarrow>
     (case ConstantMax fl right_range kRangeBoundaryInt64 of None \<Rightarrow> False | Some m \<Rightarrow> m < 64)"
| "op_ok fl op_kind left_range right_range \<longleftrightarrow> True"

definition sound_result :: "Definitions \<Rightarrow> (nat \<Rightarrow> int) \<Rightarrow> Range option \<Rightarrow> int \<Rightarrow> bool" where
  "sound_result fl val res z \<longleftrightarrow> (\<exists>rng. res = Some rng \<and> wf_range fl rng \<and> in_range val rng z)"

text \<open>What the operations read of a range: 64-bit bounds, and whether it is known to lie on one side of zero.\<close>

definition read_as :: "Definitions \<Rightarrow> Range \<Rightarrow> int \<Rightarrow> int \<Rightarrow> bool \<Rightarrow> bool \<Rightarrow> bool" where
  "read_as fl rng lo hi pos neg \<longleftrightarrow> ConstantMin fl rng kRangeBoundaryInt64 = Some lo \<and> ConstantMax fl rng kRangeBoundaryInt64 = Some hi
     \<and> OnlyGreaterThanOrEqualTo fl rng 0 = Some pos \<and> OnlyLessThanOrEqualTo fl rng 0 = Some neg
     \<and> is_int64 lo \<and> is_int64 hi \<and> (pos \<longrightarrow> 0 \<le> lo) \<and> (neg \<longrightarrow> hi \<le> 0)"

lemma int64_bounds: "is_int64 c \<longleftrightarrow> kMinInt64 \<le> c \<and> c \<le> kMaxInt64"
  by (auto simp: is_int64_def limits)

lemma clamp_int64_lower:
  assumes "finite_or kNegativeInfinity l"
  shows "is_int64 (ConstantValue (Boundary_Clamp kRangeBoundaryInt64 l))"
    "at_least val l x \<Longrightarrow> is_int64 x \<Longrightarrow> ConstantValue (Boundary_Clamp kRangeBoundaryInt64 l) \<le> x"
    "l \<noteq> kNegativeInfinity \<Longrightarrow> ConstantValue (Boundary_Clamp kRangeBoundaryInt64 l) = ConstantValue l"
  using assms by (cases l; auto simp: int64_bounds limits)+

lemma clamp_int64_upper:
  assumes "finite_or kPositiveInfinity u"
  shows "is_int64 (ConstantValue (Boundary_Clamp kRangeBoundaryInt64 u))"
    "at_most val u x \<Longrightarrow> is_int64 x \<Longrightarrow> x \<le> ConstantValue (Boundary_Clamp kRangeBoundaryInt64 u)"
    "u \<noteq> kPositiveInfinity \<Longrightarrow> ConstantValue (Boundary_Clamp kRangeBoundaryInt64 u) = ConstantValue u"
  using assms by (cases u; auto simp: int64_bounds limits)+

lemma read_asE:
  assumes "flow_ok fl val rank" "wf_range fl rng" "in_range val rng x" "is_int64 x"
  obtains lo hi pos neg where "read_as fl rng lo hi pos neg" "lo \<le> x" "x \<le> hi"
proof -
  obtain l where l: "LowerBound fl (range_min rng) = Some l" "finite_or kNegativeInfinity l" "at_least val l x"
    using LowerBound_sound [OF assms(1), of "range_min rng"] assms by (auto simp: wf_range_def in_range_def)
  obtain u where u: "UpperBound fl (range_max rng) = Some u" "finite_or kPositiveInfinity u" "at_most val u x"
    using UpperBound_sound [OF assms(1), of "range_max rng"] assms by (auto simp: wf_range_def in_range_def)
  show ?thesis
  proof (rule that)
    show "read_as fl rng (ConstantValue (Boundary_Clamp kRangeBoundaryInt64 l)) (ConstantValue (Boundary_Clamp kRangeBoundaryInt64 u))
        (l \<noteq> kNegativeInfinity \<and> ConstantValue l \<ge> 0) (u \<noteq> kPositiveInfinity \<and> ConstantValue u \<le> 0)"
      using l u clamp_int64_lower(1,3) [OF l(2)] clamp_int64_upper(1,3) [OF u(2)]
      by (simp add: read_as_def ConstantMin_def ConstantMax_def OnlyGreaterThanOrEqualTo_def OnlyLessThanOrEqualTo_def)
  qed (use l u assms(4) clamp_int64_lower(2) [OF l(2)] clamp_int64_upper(2) [OF u(2)] in auto)
qed

lemma sound_constants:
  assumes "is_int64 a" "is_int64 b" "a \<le> z" "z \<le> b"
  shows "sound_result fl val (Some \<lparr>range_min = kConstant a, range_max = kConstant b\<rparr>) z"
  using assms by (simp add: sound_result_def wf_range_def in_range_def)

subsection \<open>Sums and differences\<close>

lemma SymbolicAdd_sound:
  assumes "SymbolicAdd fl a b = Some c" "wf_boundary fl a" "wf_boundary fl b"
  shows "wf_boundary fl c \<and> (at_least val a x \<longrightarrow> at_least val b y \<longrightarrow> at_least val c (x + y))
    \<and> (at_most val a x \<longrightarrow> at_most val b y \<longrightarrow> at_most val c (x + y))"
  using assms by (cases "(fl, a, b)" rule: SymbolicAdd.cases) (auto simp: FromDefinition_def WillAddOverflow_iff split: if_splits)

lemma SymbolicSub_sound:
  assumes "SymbolicSub fl a b = Some c" "wf_boundary fl a" "wf_boundary fl b"
  shows "wf_boundary fl c \<and> (at_least val a x \<longrightarrow> at_most val b y \<longrightarrow> at_least val c (x - y))
    \<and> (at_most val a x \<longrightarrow> at_least val b y \<longrightarrow> at_most val c (x - y))"
  using assms by (cases "(fl, a, b)" rule: SymbolicSub.cases) (auto simp: FromDefinition_def WillSubOverflow_iff split: if_splits)

lemma Boundary_Add_sound:
  shows "finite_or kNegativeInfinity l \<Longrightarrow> finite_or kNegativeInfinity m \<Longrightarrow> at_least val l x \<Longrightarrow> at_least val m y \<Longrightarrow>
      wf_boundary fl (Boundary_Add l m kNegativeInfinity) \<and> at_least val (Boundary_Add l m kNegativeInfinity) (x + y)"
    and "finite_or kPositiveInfinity l \<Longrightarrow> finite_or kPositiveInfinity m \<Longrightarrow> at_most val l x \<Longrightarrow> at_most val m y \<Longrightarrow>
      wf_boundary fl (Boundary_Add m l kPositiveInfinity) \<and> at_most val (Boundary_Add m l kPositiveInfinity) (x + y)"
  by (cases l; cases m; auto simp: Boundary_Add_cases; simp add: Boundary_Add_def)+

lemma Boundary_Sub_sound:
  shows "finite_or kNegativeInfinity l \<Longrightarrow> finite_or kPositiveInfinity u \<Longrightarrow> at_least val l x \<Longrightarrow> at_most val u y \<Longrightarrow>
      wf_boundary fl (Boundary_Sub l u kNegativeInfinity) \<and> at_least val (Boundary_Sub l u kNegativeInfinity) (x - y)"
    and "finite_or kPositiveInfinity u \<Longrightarrow> finite_or kNegativeInfinity l \<Longrightarrow> at_most val u x \<Longrightarrow> at_least val l y \<Longrightarrow>
      wf_boundary fl (Boundary_Sub u l kPositiveInfinity) \<and> at_most val (Boundary_Sub u l kPositiveInfinity) (x - y)"
  by (cases l; cases u; auto simp: Boundary_Sub_cases; simp add: Boundary_Sub_def)+

text \<open>The left operand may be replaced by the length it is: the boundary of the range or the definition itself.\<close>

lemma left_boundary_sound:
  assumes "flow_ok fl val rank" "wf_range fl rng" "in_range val rng x" "defn_array_length fl d \<longrightarrow> x = val d"
  shows "wf_boundary fl (if defn_array_length fl d then FromDefinition fl d 0 else range_min rng)"
    "at_least val (if defn_array_length fl d then FromDefinition fl d 0 else range_min rng) x"
    "wf_boundary fl (if defn_array_length fl d then FromDefinition fl d 0 else range_max rng)"
    "at_most val (if defn_array_length fl d then FromDefinition fl d 0 else range_max rng) x"
  using assms flow_okD(3) [OF assms(1), of d] by (auto simp: FromDefinition_def wf_range_def in_range_def is_int64_def limits)

lemma boundsE:
  assumes "flow_ok fl val rank" "wf_range fl rng" "in_range val rng x"
  obtains l u where "LowerBound fl (range_min rng) = Some l" "finite_or kNegativeInfinity l" "at_least val l x"
    "UpperBound fl (range_max rng) = Some u" "finite_or kPositiveInfinity u" "at_most val u x"
  using LowerBound_sound [OF assms(1), of "range_min rng"] UpperBound_sound [OF assms(1), of "range_max rng"] assms
  by (auto simp: wf_range_def in_range_def)

lemma Range_Add_sound:
  assumes "flow_ok fl val rank" "wf_range fl a" "in_range val a x" "wf_range fl b" "in_range val b y"
    "defn_array_length fl d \<longrightarrow> x = val d"
  shows "sound_result fl val (Range_Add fl a b d) (x + y)"
proof -
  obtain l u where a: "LowerBound fl (range_min a) = Some l" "finite_or kNegativeInfinity l" "at_least val l x"
    "UpperBound fl (range_max a) = Some u" "finite_or kPositiveInfinity u" "at_most val u x" by (rule boundsE [OF assms(1-3)])
  obtain m v where b: "LowerBound fl (range_min b) = Some m" "finite_or kNegativeInfinity m" "at_least val m y"
    "UpperBound fl (range_max b) = Some v" "finite_or kPositiveInfinity v" "at_most val v y" by (rule boundsE [OF assms(1,4,5)])
  have b': "wf_boundary fl (range_min b)" "at_least val (range_min b) y" "wf_boundary fl (range_max b)" "at_most val (range_max b) y"
    using assms(4,5) by (auto simp: wf_range_def in_range_def)
  note a' = left_boundary_sound [OF assms(1-3,6)]
  show ?thesis unfolding Range_Add_def Let_def sound_result_def wf_range_def in_range_def
    using SymbolicAdd_sound [OF _ a'(1) b'(1)] SymbolicAdd_sound [OF _ a'(3) b'(3)] a' b'
      Boundary_Add_sound(1) [OF a(2) b(2) a(3) b(3)] Boundary_Add_sound(2) [OF a(5) b(5) a(6) b(6)]
    by (auto simp: a(1,4) b(1,4) simp del: if_splits split: option.splits)
qed

lemma Range_Sub_sound:
  assumes "flow_ok fl val rank" "wf_range fl a" "in_range val a x" "wf_range fl b" "in_range val b y"
    "defn_array_length fl d \<longrightarrow> x = val d"
  shows "sound_result fl val (Range_Sub fl a b d) (x - y)"
proof -
  obtain l u where a: "LowerBound fl (range_min a) = Some l" "finite_or kNegativeInfinity l" "at_least val l x"
    "UpperBound fl (range_max a) = Some u" "finite_or kPositiveInfinity u" "at_most val u x" by (rule boundsE [OF assms(1-3)])
  obtain m v where b: "LowerBound fl (range_min b) = Some m" "finite_or kNegativeInfinity m" "at_least val m y"
    "UpperBound fl (range_max b) = Some v" "finite_or kPositiveInfinity v" "at_most val v y" by (rule boundsE [OF assms(1,4,5)])
  have b': "wf_boundary fl (range_min b)" "at_least val (range_min b) y" "wf_boundary fl (range_max b)" "at_most val (range_max b) y"
    using assms(4,5) by (auto simp: wf_range_def in_range_def)
  note a' = left_boundary_sound [OF assms(1-3,6)]
  show ?thesis unfolding Range_Sub_def Let_def sound_result_def wf_range_def in_range_def
    using SymbolicSub_sound [OF _ a'(1) b'(3)] SymbolicSub_sound [OF _ a'(3) b'(1)] a' b'
      Boundary_Sub_sound(1) [OF a(2) b(5) a(3) b(6)] Boundary_Sub_sound(2) [OF a(5) b(2) a(6) b(3)]
    by (auto simp: a(1,4) b(1,4) split: option.splits)
qed

subsection \<open>Products\<close>

lemma Abs64_eq: "is_int64 c \<Longrightarrow> c \<noteq> kMinInt64 \<Longrightarrow> Abs64 c = \<bar>c\<bar>"
  by (auto simp: Abs64_def is_int64_def limits)

lemma sdiv_guard:
  assumes "0 \<le> a" "0 \<le> (b::int)" "0 \<le> c" "a = 0 \<or> b \<le> c sdiv a"
  shows "a * b \<le> c"
proof (cases "a = 0")
  case False
  then have "b \<le> c div a" using assms by (simp add: signed_divide_int_def sgn_if split: if_splits)
  then have "a * b \<le> a * (c div a)" using assms(1) by (rule mult_left_mono)
  also have "\<dots> \<le> c" using assms mult_div_mod_eq [of a c] pos_mod_sign [of a c] False by linarith
  finally show ?thesis .
qed (use assms in simp)

lemma abs_between: "lo \<le> x \<Longrightarrow> x \<le> hi \<Longrightarrow> \<bar>x\<bar> \<le> max \<bar>lo\<bar> \<bar>hi::int\<bar>"
  by linarith

lemma nonneg_int64: "0 \<le> m \<Longrightarrow> m \<le> P \<Longrightarrow> P \<le> kMaxInt64 \<Longrightarrow> is_int64 P \<and> is_int64 (- P) \<and> is_int64 m"
  by (auto simp: is_int64_def limits)

lemma Range_Mul_sound:
  assumes a: "read_as fl a lo hi p n" "lo \<le> x" "x \<le> hi" and b: "read_as fl b lo' hi' p' n'" "lo' \<le> y" "y \<le> hi'"
    and "lo \<noteq> kMinInt64" "lo' \<noteq> kMinInt64"
  shows "sound_result fl val (Range_Mul fl a b) (x * y)"
proof -
  define A B where "A = max \<bar>lo\<bar> \<bar>hi\<bar>" and "B = max \<bar>lo'\<bar> \<bar>hi'\<bar>"
  have hi: "is_int64 hi" "hi \<noteq> kMinInt64" "is_int64 hi'" "hi' \<noteq> kMinInt64" "is_int64 lo" "is_int64 lo'"
    using assms by (auto simp: read_as_def is_int64_def)
  have max: "ConstantAbsMax fl a = Some A" "ConstantAbsMax fl b = Some B"
    using a(1) b(1) assms(7,8) hi by (auto simp: read_as_def ConstantAbsMax_def Maximum_def Abs64_eq A_def B_def)
  have mn: "ConstantAbsMin fl a = Some (min \<bar>lo\<bar> \<bar>hi\<bar>)" "ConstantAbsMin fl b = Some (min \<bar>lo'\<bar> \<bar>hi'\<bar>)"
    using a(1) b(1) assms(7,8) hi by (auto simp: read_as_def ConstantAbsMin_def Minimum_def Abs64_eq)
  have sg: "OnlyPositiveOrZero fl a b = Some (p \<and> p')" "OnlyNegativeOrZero fl a b = Some (n \<and> n')"
    using a(1) b(1) by (auto simp: read_as_def OnlyPositiveOrZero_def OnlyNegativeOrZero_def)
  have xy: "\<bar>x\<bar> \<le> A" "\<bar>y\<bar> \<le> B" using a b abs_between by (auto simp: A_def B_def)
  then have prod: "\<bar>x * y\<bar> \<le> A * B" by (simp add: abs_mult mult_mono)
  have low: "min \<bar>lo\<bar> \<bar>hi\<bar> * min \<bar>lo'\<bar> \<bar>hi'\<bar> \<le> x * y \<and> 0 \<le> x * y" if "p \<and> p' \<or> n \<and> n'"
  proof -
    have "x * y = \<bar>x\<bar> * \<bar>y\<bar> \<and> min \<bar>lo\<bar> \<bar>hi\<bar> \<le> \<bar>x\<bar> \<and> min \<bar>lo'\<bar> \<bar>hi'\<bar> \<le> \<bar>y\<bar>"
      using that a b by (auto simp: read_as_def)
    then show ?thesis by (auto intro!: mult_mono)
  qed
  show ?thesis
  proof (cases "A \<le> - kSmiMin \<and> B \<le> - kSmiMin \<and> (A = 0 \<or> B \<le> kMaxInt64 sdiv A)")
    case True
    have le: "A * B \<le> kMaxInt64" using True sdiv_guard [of A B kMaxInt64] xy by (auto simp: limits)
    have "min \<bar>lo\<bar> \<bar>hi\<bar> * min \<bar>lo'\<bar> \<bar>hi'\<bar> \<le> A * B" by (rule mult_mono) (auto simp: A_def B_def)
    moreover have "0 \<le> min \<bar>lo\<bar> \<bar>hi\<bar> * min \<bar>lo'\<bar> \<bar>hi'\<bar>" by simp
    ultimately have "is_int64 (A * B) \<and> is_int64 (- (A * B)) \<and> is_int64 (min \<bar>lo\<bar> \<bar>hi\<bar> * min \<bar>lo'\<bar> \<bar>hi'\<bar>)"
      using le nonneg_int64 by blast
    then show ?thesis using True prod low by (auto simp: Range_Mul_def max mn sg Let_def intro!: sound_constants)
  next
    case False
    then show ?thesis using low unfolding Range_Mul_def max mn sg
      by (auto simp: sound_result_def wf_range_def in_range_def is_int64_def limits)
  qed
qed

subsection \<open>Shifts\<close>

lemma int64_shifted:
  assumes "0 < s" "s < 64"
  shows "is_int64 (v * 2 ^ s) \<longleftrightarrow> - (2 ^ (63 - s)) \<le> v \<and> v < 2 ^ (63 - s)"
proof -
  have e: "(2::int) ^ 63 = 2 ^ (63 - s) * 2 ^ s" using assms by (simp flip: power_add)
  have "is_int64 (v * 2 ^ s) \<longleftrightarrow> - (2 ^ 63) \<le> v * 2 ^ s \<and> v * 2 ^ s < 2 ^ 63"
    by (auto simp: is_int64_def limits)
  also have "\<dots> \<longleftrightarrow> - (2 ^ (63 - s)) * 2 ^ s \<le> v * 2 ^ s \<and> v * 2 ^ s < 2 ^ (63 - s) * 2 ^ s" unfolding e by simp
  also have "\<dots> \<longleftrightarrow> - (2 ^ (63 - s)) \<le> v \<and> v < 2 ^ (63 - s)"
    by (simp only: mult_le_cancel_right_pos mult_less_cancel_right_pos zero_less_power zero_less_numeral)
  finally show ?thesis .
qed

lemma not_int64_shifted:
  assumes "64 \<le> s" "v \<noteq> 0"
  shows "\<not> is_int64 (v * 2 ^ s)"
proof -
  have large: "\<not> is_int64 w" if "2 ^ 64 \<le> q" "q \<le> \<bar>w\<bar>" for q w :: int
    using that by (auto simp: is_int64_def limits)
  have "(2::int) ^ 64 \<le> 2 ^ s" using assms(1) by (intro power_increasing) simp_all
  moreover have "1 * 2 ^ s \<le> \<bar>v\<bar> * (2::int) ^ s" using assms(2) by (intro mult_right_mono) simp_all
  ultimately show ?thesis by (intro large [of "2 ^ s"]) (simp_all add: abs_mult)
qed

lemma Boundary_Shl_eq:
  assumes "is_int64 v" "0 \<le> s"
  shows "Boundary_Shl (kConstant v) s ov = (if is_int64 (v * 2 ^ nat s) then kConstant (v * 2 ^ nat s) else ov)"
proof -
  consider "v = 0" | "s = 0" | "v \<noteq> 0" "0 < s" "s < 64" | "v \<noteq> 0" "64 \<le> s" using assms(2) by linarith
  then show ?thesis
  proof cases
    case 3
    have "nat (64 - s) - 1 = 63 - nat s" "nat s < 64" "0 < nat s" using 3 by auto
    then show ?thesis using 3 int64_shifted [of "nat s" v] by (simp add: Boundary_Shl_def IsInt_def Let_def push_bit_eq_mult)
  next
    case 4
    then show ?thesis using not_int64_shifted [of "nat s" v] by (simp add: Boundary_Shl_def)
  qed (use assms in \<open>auto simp: Boundary_Shl_def is_int64_def limits\<close>)
qed

lemma shift_mono:
  assumes "lo \<le> x" "x \<le> hi" "l \<le> y" "y \<le> (r::nat)"
  shows "lo * 2 ^ (if lo > 0 then l else r) \<le> x * 2 ^ y \<and> x * 2 ^ y \<le> hi * (2::int) ^ (if hi > 0 then r else l)"
proof -
  have p: "(2::int) ^ l \<le> 2 ^ y" "(2::int) ^ y \<le> 2 ^ r" using assms by (simp_all add: power_increasing)
  have "lo * 2 ^ y \<le> x * 2 ^ y" "x * 2 ^ y \<le> hi * 2 ^ y" using assms by (simp_all add: mult_right_mono)
  moreover have "lo * 2 ^ (if lo > 0 then l else r) \<le> lo * 2 ^ y" using p by (auto intro: mult_left_mono mult_left_mono_neg)
  moreover have "hi * 2 ^ y \<le> hi * 2 ^ (if hi > 0 then r else l)" using p by (auto intro: mult_left_mono mult_left_mono_neg)
  ultimately show ?thesis by linarith
qed

lemma not_int64_sign:
  assumes "\<not> is_int64 (v * 2 ^ (s::nat))"
  shows "0 < v \<Longrightarrow> kMaxInt64 < v * 2 ^ s" "\<not> 0 < v \<Longrightarrow> v * 2 ^ s < kMinInt64"
proof -
  show "kMaxInt64 < v * 2 ^ s" if "0 < v"
  proof -
    have "0 \<le> v * 2 ^ s" using that by simp
    then show ?thesis using assms by (auto simp: is_int64_def limits)
  qed
  show "v * 2 ^ s < kMinInt64" if "\<not> 0 < v"
  proof -
    have "v * 2 ^ s \<le> 0" using that by (simp add: mult_nonpos_nonneg)
    then show ?thesis using assms by (auto simp: is_int64_def limits)
  qed
qed

lemma Range_Shl_sound:
  assumes a: "read_as fl a lo hi p n" "lo \<le> x" "x \<le> hi" and b: "read_as fl b lo' hi' p' n'" "lo' \<le> y" "y \<le> hi'" and "0 \<le> y"
  shows "sound_result fl val (Range_Shl fl a b) (x * 2 ^ nat y)"
proof -
  define l r where "l = max lo' 0" and "r = max hi' 0"
  have lr: "0 \<le> l" "0 \<le> r" "nat l \<le> nat y" "nat y \<le> nat r" using b \<open>0 \<le> y\<close> by (auto simp: l_def r_def)
  have i: "is_int64 lo" "is_int64 hi" using a by (auto simp: read_as_def)
  note m = shift_mono [OF a(2,3) lr(3,4)]
  have e: "Range_Shl fl a b = Some \<lparr>range_min = Boundary_Shl (kConstant lo) (if lo > 0 then l else r) (if lo > 0 then kPositiveInfinity else kNegativeInfinity),
      range_max = Boundary_Shl (kConstant hi) (if hi > 0 then r else l) (if hi > 0 then kPositiveInfinity else kNegativeInfinity)\<rparr>"
    using a(1) b(1) by (simp add: Range_Shl_def read_as_def Maximum_def l_def r_def max_def Let_def)
  have "wf_boundary fl (Boundary_Shl (kConstant lo) (if lo > 0 then l else r) (if lo > 0 then kPositiveInfinity else kNegativeInfinity))
    \<and> at_least val (Boundary_Shl (kConstant lo) (if lo > 0 then l else r) (if lo > 0 then kPositiveInfinity else kNegativeInfinity)) (x * 2 ^ nat y)"
    using m not_int64_sign(1) [of lo "nat l"] i lr by (auto simp: Boundary_Shl_eq split: if_splits)
  moreover have "wf_boundary fl (Boundary_Shl (kConstant hi) (if hi > 0 then r else l) (if hi > 0 then kPositiveInfinity else kNegativeInfinity))
    \<and> at_most val (Boundary_Shl (kConstant hi) (if hi > 0 then r else l) (if hi > 0 then kPositiveInfinity else kNegativeInfinity)) (x * 2 ^ nat y)"
    using m not_int64_sign(2) [of hi "nat l"] i lr by (auto simp: Boundary_Shl_eq split: if_splits)
  ultimately show ?thesis unfolding e by (simp add: sound_result_def wf_range_def in_range_def)
qed

lemma div_pow_le:
  assumes "i \<le> (j::nat)"
  shows "0 \<le> w \<Longrightarrow> w div 2 ^ j \<le> w div (2::int) ^ i" "w \<le> 0 \<Longrightarrow> w div 2 ^ i \<le> w div (2::int) ^ j"
proof -
  define u k where "u = w div (2::int) ^ i" and "k = (2::int) ^ (j - i)"
  have "(2::int) ^ j = 2 ^ i * k" using assms by (simp add: k_def flip: power_add)
  then have d: "w div 2 ^ j = u div k" by (simp add: zdiv_zmult2_eq u_def k_def)
  have k: "1 \<le> k" by (simp add: k_def)
  show "w div 2 ^ j \<le> w div 2 ^ i" if "0 \<le> w"
  proof -
    have "0 \<le> u" using that by (simp add: u_def pos_imp_zdiv_nonneg_iff)
    then have "u \<le> u * k" using k by (simp add: mult_le_cancel_left1)
    from zdiv_mono1 [OF this, of k] show ?thesis using k d by (simp add: u_def)
  qed
  show "w div 2 ^ i \<le> w div 2 ^ j" if "w \<le> 0"
  proof -
    have "u \<le> 0" using that by (simp add: u_def div_nonpos_pos_le0)
    then have "u * k \<le> u" using k by (simp add: mult_le_cancel_left2)
    from zdiv_mono1 [OF this, of k] show ?thesis using k d by (simp add: u_def)
  qed
qed

lemma div_pow_mono:
  assumes "lo \<le> x" "x \<le> hi" "l \<le> y" "y \<le> (r::nat)"
  shows "lo div 2 ^ (if lo > 0 then r else l) \<le> x div 2 ^ y \<and> x div 2 ^ y \<le> hi div (2::int) ^ (if hi > 0 then l else r)"
proof -
  have "lo div 2 ^ y \<le> x div 2 ^ y" "x div 2 ^ y \<le> hi div 2 ^ y" using assms by (simp_all add: zdiv_mono1)
  moreover have "lo div 2 ^ (if lo > 0 then r else l) \<le> lo div 2 ^ y"
    using div_pow_le(1) [OF assms(4), of lo] div_pow_le(2) [OF assms(3), of lo] by simp
  moreover have "hi div 2 ^ y \<le> hi div 2 ^ (if hi > 0 then l else r)"
    using div_pow_le(1) [OF assms(3), of hi] div_pow_le(2) [OF assms(4), of hi] by simp
  ultimately show ?thesis by linarith
qed

lemma int64_div:
  assumes "is_int64 v"
  shows "is_int64 (v div 2 ^ (k::nat))"
proof (cases "0 \<le> v")
  case True
  then have "0 \<le> v div 2 ^ k" "v div 2 ^ k \<le> v" using div_pow_le(1) [of 0 k v] by (simp_all add: pos_imp_zdiv_nonneg_iff)
  then show ?thesis using assms nonneg_int64 [of "v div 2 ^ k" v] by (auto simp: is_int64_def)
next
  case False
  then have "v \<le> v div 2 ^ k" "v div 2 ^ k \<le> 0" using div_pow_le(2) [of 0 k v] by (simp_all add: div_nonpos_pos_le0)
  then show ?thesis using assms by (auto simp: is_int64_def limits)
qed

lemma Range_Shr_sound:
  assumes a: "read_as fl a lo hi p n" "lo \<le> x" "x \<le> hi" and b: "read_as fl b lo' hi' p' n'" "lo' \<le> y" "y \<le> hi'" and "0 \<le> y" "hi' < 64"
  shows "sound_result fl val (Range_Shr fl a b) (x div 2 ^ nat y)"
proof -
  define l r where "l = max lo' 0" and "r = max hi' 0"
  have lr: "0 \<le> l" "0 \<le> r" "nat l \<le> nat y" "nat y \<le> nat r" "l < 64" "r < 64" using b assms(7,8) by (auto simp: l_def r_def)
  have i: "is_int64 lo" "is_int64 hi" using a by (auto simp: read_as_def)
  have e: "Range_Shr fl a b = Some \<lparr>range_min = kConstant (lo div 2 ^ nat (if lo > 0 then r else l)), range_max = kConstant (hi div 2 ^ nat (if hi > 0 then l else r))\<rparr>"
  proof -
    have "l mod 64 = l" "r mod 64 = r" "Maximum lo' 0 = l" "Maximum hi' 0 = r"
      using lr by (simp_all add: Maximum_def l_def r_def max_def)
    then show ?thesis using a(1) b(1) by (simp add: Range_Shr_def read_as_def Let_def Boundary_Shr_def drop_bit_int_def)
  qed
  show ?thesis unfolding e using div_pow_mono [OF a(2,3) lr(3,4)] int64_div i by (intro sound_constants) (auto split: if_splits)
qed

subsection \<open>Bitwise operations\<close>

lemma BitSize_sound:
  assumes "read_as fl a lo hi p n" "lo \<le> x" "x \<le> hi"
  obtains k where "BitSize fl a = Some (int k)" "k \<le> 63" "- (2 ^ k) \<le> x" "x < 2 ^ k"
proof -
  have i: "is_int64 lo" "is_int64 hi" using assms by (auto simp: read_as_def)
  define m where "m = max (BitLength lo) (BitLength hi)"
  have m: "0 \<le> m" using BitLength_nonneg [OF i(1)] by (simp add: m_def)
  have "BitLength lo \<le> int (nat m)" "BitLength hi \<le> int (nat m)" using m by (auto simp: m_def)
  then have "- (2 ^ nat m) \<le> lo" "hi < 2 ^ nat m" using BitLength_le_iff i by blast+
  moreover have "m \<le> int 63"
  proof -
    have "BitLength lo \<le> int 63" "BitLength hi \<le> int 63" unfolding BitLength_le_iff [OF i(1)] BitLength_le_iff [OF i(2)]
      using i by (auto simp: is_int64_def limits)
    then show ?thesis by (simp add: m_def)
  qed
  moreover have "BitSize fl a = Some (int (nat m))"
    using assms m by (simp add: BitSize_def read_as_def m_def Maximum_def max_def)
  ultimately show ?thesis using that [of "nat m"] m assms by auto
qed

lemma bitwise_within:
  assumes "- (2 ^ n) \<le> (x::int)" "x < 2 ^ n" "- (2 ^ n) \<le> y" "y < 2 ^ n"
  shows "- (2 ^ n) \<le> and x y \<and> and x y < 2 ^ n" "- (2 ^ n) \<le> or x y \<and> or x y < 2 ^ n" "- (2 ^ n) \<le> xor x y \<and> xor x y < 2 ^ n"
proof -
  have b: "signed_take_bit n x = x" "signed_take_bit n y = y" using assms by (simp_all add: signed_take_bit_int_eq_self_iff)
  have e: "bit x m = bit x (min n m)" "bit y m = bit y (min n m)" for m
    using bit_signed_take_bit_iff [of n x m] bit_signed_take_bit_iff [of n y m] by (simp_all add: b min.commute)
  have "signed_take_bit n (and x y) = and x y" "signed_take_bit n (or x y) = or x y" "signed_take_bit n (xor x y) = xor x y"
    by (rule bit_eqI, use e in \<open>auto simp: bit_signed_take_bit_iff bit_simps min.commute\<close>)+
  then show "- (2 ^ n) \<le> and x y \<and> and x y < 2 ^ n" "- (2 ^ n) \<le> or x y \<and> or x y < 2 ^ n" "- (2 ^ n) \<le> xor x y \<and> xor x y < 2 ^ n"
    by (simp_all add: signed_take_bit_int_eq_self_iff)
qed

lemma BitwiseOp_sound:
  assumes a: "read_as fl a lo hi p n" "lo \<le> x" "x \<le> hi" and b: "read_as fl b lo' hi' p' n'" "lo' \<le> y" "y \<le> hi'"
    and z: "\<And>k. - (2 ^ k) \<le> x \<Longrightarrow> x < 2 ^ k \<Longrightarrow> - (2 ^ k) \<le> y \<Longrightarrow> y < 2 ^ k \<Longrightarrow> - (2 ^ k) \<le> z \<and> z < 2 ^ k"
      "0 \<le> x \<Longrightarrow> 0 \<le> y \<Longrightarrow> 0 \<le> z"
  shows "sound_result fl val (BitwiseOp fl a b) z"
proof -
  obtain i where i: "BitSize fl a = Some (int i)" "i \<le> 63" "- (2 ^ i) \<le> x" "x < 2 ^ i" by (rule BitSize_sound [OF a])
  obtain j where j: "BitSize fl b = Some (int j)" "j \<le> 63" "- (2 ^ j) \<le> y" "y < 2 ^ j" by (rule BitSize_sound [OF b])
  define k where "k = max i j"
  have p: "(2::int) ^ i \<le> 2 ^ k" "(2::int) ^ j \<le> 2 ^ k" "(2::int) ^ k \<le> 2 ^ 63" "0 < (2::int) ^ k"
    using i(2) j(2) by (simp_all only: k_def zero_less_power zero_less_numeral) (intro power_increasing; simp)+
  have within: "is_int64 (- q)" "is_int64 (q - 1)" "is_int64 0" if "0 < q" "q \<le> 2 ^ 63" for q
    using that by (auto simp: is_int64_def limits)
  have "- (2 ^ k) \<le> z \<and> z < 2 ^ k" by (rule z(1)) (use i j p in linarith)+
  moreover have "int64 (push_bit k (- 1)) = - (2 ^ k)" "int64 (push_bit k 1 - 1) = 2 ^ k - 1"
    using within [OF p(4,3)] by (simp_all add: push_bit_eq_mult)
  moreover note within [OF p(4,3)]
  moreover have "BitwiseOp fl a b = Some \<lparr>range_min = kConstant (if p \<and> p' then 0 else int64 (push_bit k (- 1))),
      range_max = kConstant (int64 (push_bit k 1 - 1))\<rparr>"
    using a(1) b(1) by (simp add: BitwiseOp_def i(1) j(1) read_as_def Maximum_def k_def max_def Let_def)
  moreover have "0 \<le> z" if "p \<and> p'" using that a b z(2) by (auto simp: read_as_def)
  ultimately show ?thesis by (auto intro!: sound_constants)
qed

lemma Range_And_sound:
  assumes a: "read_as fl a lo hi p n" "lo \<le> x" "x \<le> hi" and b: "read_as fl b lo' hi' p' n'" "lo' \<le> y" "y \<le> hi'"
  shows "sound_result fl val (Range_And fl a b) (and x y)"
proof -
  have "sound_result fl val (BitwiseOp fl a b) (and x y)"
    by (rule BitwiseOp_sound [OF a b]) (use bitwise_within(1) in auto)
  moreover have "0 \<le> and x y \<and> and x y \<le> y" if "0 \<le> y" using that AND_upper2 [of y x] by simp
  moreover have "0 \<le> and x y \<and> and x y \<le> x" if "0 \<le> x" using that AND_upper1 [of x y] by simp
  ultimately show ?thesis using a b
    by (auto simp: Range_And_def read_as_def is_int64_def limits intro!: sound_constants)
qed

section \<open>Soundness\<close>

lemma BinaryOp_sound:
  assumes "flow_ok fl val rank" "wf_range fl a" "in_range val a x" "is_int64 x" "wf_range fl b" "in_range val b y" "is_int64 y"
    "defn_array_length fl d \<longrightarrow> x = val d" "op_ok fl t a b" "value_of t x y = Some z"
  shows "sound_result fl val (BinaryOp fl t a b d) z"
proof -
  obtain lo hi p n where a: "read_as fl a lo hi p n" "lo \<le> x" "x \<le> hi" by (rule read_asE [OF assms(1-4)])
  obtain lo' hi' p' n' where b: "read_as fl b lo' hi' p' n'" "lo' \<le> y" "y \<le> hi'" by (rule read_asE [OF assms(1,5-7)])
  show ?thesis
  proof (cases t)
    case kMUL
    then show ?thesis using assms(9,10) Range_Mul_sound [OF a b] a(1) b(1) by (simp add: read_as_def)
  next
    case kSHL
    then show ?thesis using assms(10) Range_Shl_sound [OF a b] by (auto split: if_splits)
  next
    case kSHR
    then show ?thesis using assms(9,10) Range_Shr_sound [OF a b] b(1) by (auto simp: read_as_def split: if_splits)
  next
    case kBIT_XOR
    have "sound_result fl val (BitwiseOp fl a b) (xor x y)"
      by (rule BitwiseOp_sound [OF a b bitwise_within(3)]) simp_all
    then show ?thesis using kBIT_XOR assms(10) by simp
  next
    case kBIT_OR
    have "sound_result fl val (BitwiseOp fl a b) (or x y)"
      by (rule BitwiseOp_sound [OF a b bitwise_within(2)]) simp_all
    then show ?thesis using kBIT_OR assms(10) by simp
  qed (use assms Range_And_sound [OF a b] Range_Add_sound [OF assms(1-3,5,6,8)] Range_Sub_sound [OF assms(1-3,5,6,8)] in auto)
qed

definition fits_size :: "RangeSize \<Rightarrow> int \<Rightarrow> bool" where
  "fits_size range_size z \<longleftrightarrow> ConstantValue (MinConstant range_size) \<le> z \<and> z \<le> ConstantValue (MaxConstant range_size)"

lemma size_constants:
  "MinConstant sz = kConstant (ConstantValue (MinConstant sz))" "MaxConstant sz = kConstant (ConstantValue (MaxConstant sz))"
  "is_int64 (ConstantValue (MinConstant sz))" "is_int64 (ConstantValue (MaxConstant sz))"
  "ConstantValue (MinConstant sz) \<le> ConstantValue (MaxConstant sz)"
  by (cases sz; simp add: is_int64_def limits)+

lemma Overflowed_iff:
  assumes "finite_or e l" "IsInfinity e"
  shows "\<not> Overflowed sz l \<longleftrightarrow> (\<exists>c. l = kConstant c \<and> fits_size sz c)"
  using assms by (cases l; cases sz) (auto simp: Overflowed_def fits_size_def limits)

lemma Fits_sound:
  assumes "flow_ok fl val rank" "wf_range fl rng" "in_range val rng z"
  shows "\<exists>fits. Fits fl rng sz = Some fits \<and> (fits \<longrightarrow> fits_size sz z)"
proof -
  obtain l u where "LowerBound fl (range_min rng) = Some l" "finite_or kNegativeInfinity l" "at_least val l z"
    "UpperBound fl (range_max rng) = Some u" "finite_or kPositiveInfinity u" "at_most val u z" by (rule boundsE [OF assms])
  then show ?thesis using Overflowed_iff [of _ l sz] Overflowed_iff [of _ u sz] by (auto simp: Fits_def fits_size_def)
qed

lemma Range_Clamp_sound:
  assumes "wf_range fl rng"
  shows "wf_range fl (Range_Clamp sz rng)" "in_range val rng z \<Longrightarrow> fits_size sz z \<Longrightarrow> in_range val (Range_Clamp sz rng) z"
proof -
  have w: "wf_boundary fl (Boundary_Clamp sz b)" if "wf_boundary fl b" for b
    using that by (cases b; cases sz) (auto simp: is_int64_def limits)
  show "wf_range fl (Range_Clamp sz rng)" using assms w by (simp add: wf_range_def Range_Clamp_def)
  have "at_least val (Boundary_Clamp sz b) z" if "at_least val b z" "fits_size sz z" for b
    using that by (cases b; cases sz) (auto simp: fits_size_def limits)
  moreover have "at_most val (Boundary_Clamp sz b) z" if "at_most val b z" "fits_size sz z" for b
    using that by (cases b; cases sz) (auto simp: fits_size_def limits)
  ultimately show "in_range val (Range_Clamp sz rng) z" if "in_range val rng z" "fits_size sz z"
    using that by (simp add: in_range_def Range_Clamp_def)
qed

text \<open>What the analysis relies on of the range of an operation, and what it may conclude when it checks and clamps it.\<close>

locale range_transfer =
  fixes transfer :: "Definitions \<Rightarrow> Range \<Rightarrow> Range \<Rightarrow> Range option"
    and value_at :: "int \<Rightarrow> int \<Rightarrow> int option"
    and applicable :: "Definitions \<Rightarrow> (nat \<Rightarrow> int) \<Rightarrow> Range \<Rightarrow> Range \<Rightarrow> int \<Rightarrow> bool"
  assumes transfer_sound: "flow_ok fl val rank \<Longrightarrow> wf_range fl a \<Longrightarrow> in_range val a x \<Longrightarrow> is_int64 x \<Longrightarrow> wf_range fl b \<Longrightarrow> in_range val b y
    \<Longrightarrow> is_int64 y \<Longrightarrow> applicable fl val a b x \<Longrightarrow> value_at x y = Some z \<Longrightarrow> sound_result fl val (transfer fl a b) z"
begin

lemma checked_and_clamped:
  assumes "flow_ok fl val rank" "wf_range fl a" "in_range val a x" "is_int64 x" "wf_range fl b" "in_range val b y" "is_int64 y"
    "applicable fl val a b x" "value_at x y = Some z"
  shows "\<exists>rng fits. transfer fl a b = Some rng \<and> Fits fl rng sz = Some fits \<and> wf_range fl (Range_Clamp sz rng)
    \<and> (fits \<longrightarrow> fits_size sz z) \<and> (fits_size sz z \<longrightarrow> in_range val (Range_Clamp sz rng) z)"
proof -
  obtain rng where r: "transfer fl a b = Some rng" "wf_range fl rng" "in_range val rng z"
    using transfer_sound [OF assms] by (auto simp: sound_result_def)
  then show ?thesis using Fits_sound [OF assms(1) r(2,3), of sz] Range_Clamp_sound [OF r(2)] by blast
qed

end

interpretation op: range_transfer "\<lambda>fl a b. BinaryOp fl t a b d" "value_of t"
    "\<lambda>fl val a b x. (defn_array_length fl d \<longrightarrow> x = val d) \<and> op_ok fl t a b" for t d
  by unfold_locales (auto intro: BinaryOp_sound)

subsection \<open>Ranges that depend on themselves\<close>

lemma LowerBound_cyclic:
  assumes "\<forall>d \<in> S. \<exists>r e offs. defn_range fl d = Some r \<and> range_min r = kSymbol e offs \<and> e \<in> S" "d \<in> S"
  shows "LowerBound fl (kSymbol d offs) = None"
proof (rule ccontr)
  assume "LowerBound fl (kSymbol d offs) \<noteq> None"
  then obtain y where "LowerBound fl (kSymbol d offs) = Some y" by blast
  moreover have "\<forall>d \<in> S. \<forall>offs. b \<noteq> kSymbol d offs \<or> fl' \<noteq> fl" if "LowerBound fl' b = Some y" for fl' b y
  proof (rule LowerBound.raw_induct [where P = "\<lambda>fl' b y. \<forall>d \<in> S. \<forall>offs. b \<noteq> kSymbol d offs \<or> fl' \<noteq> fl", rotated, OF that], goal_cases)
    case (1 f fl' b y)
    have "f fl (kSymbol e offs) = None" if "e \<in> S" for e offs using 1(1) [of fl "kSymbol e offs"] that by (cases "f fl (kSymbol e offs)") auto
    then show ?case using 1(2) assms(1) by fastforce
  qed
  ultimately show False using assms(2) by blast
qed

lemma UpperBound_cyclic:
  assumes "\<forall>d \<in> S. \<exists>r e offs. defn_range fl d = Some r \<and> range_max r = kSymbol e offs \<and> e \<in> S" "d \<in> S"
  shows "UpperBound fl (kSymbol d offs) = None"
proof (rule ccontr)
  assume "UpperBound fl (kSymbol d offs) \<noteq> None"
  then obtain y where "UpperBound fl (kSymbol d offs) = Some y" by blast
  moreover have "\<forall>d \<in> S. \<forall>offs. b \<noteq> kSymbol d offs \<or> fl' \<noteq> fl" if "UpperBound fl' b = Some y" for fl' b y
  proof (rule UpperBound.raw_induct [where P = "\<lambda>fl' b y. \<forall>d \<in> S. \<forall>offs. b \<noteq> kSymbol d offs \<or> fl' \<noteq> fl", rotated, OF that], goal_cases)
    case (1 f fl' b y)
    have "f fl (kSymbol e offs) = None" if "e \<in> S" for e offs using 1(1) [of fl "kSymbol e offs"] that by (cases "f fl (kSymbol e offs)") auto
    then show ?case using 1(2) assms(1) by fastforce
  qed
  ultimately show False using assms(2) by blast
qed

subsection \<open>Operands that the analysis gets wrong\<close>

lemma Abs64_min: "Abs64 kMinInt64 = kMinInt64"
  by (simp add: Abs64_def int64_def limits)

lemma sdiv_guard_iff:
  assumes "0 \<le> a" "0 \<le> (b::int)" "0 < c" "a * b \<le> c"
  shows "a = 0 \<or> b \<le> c sdiv a"
proof (cases "a = 0")
  case False
  then have "a * b div a \<le> c div a" using assms by (intro zdiv_mono1) auto
  then show ?thesis using False assms by (simp add: signed_divide_int_def sgn_if)
qed simp

lemma read_as_known: "read_as fl a lo hi p n \<Longrightarrow> range_min a \<noteq> kUnknown"
  by (auto simp: read_as_def ConstantMin_def LowerBound.simps [of fl kUnknown])

lemma infers_constants:
  assumes "read_as fl a lo hi p n" "read_as fl b lo' hi' p' n'" "is_int64 u" "is_int64 v"
    and "BinaryOp fl t a b d = Some \<lparr>range_min = kConstant u, range_max = kConstant v\<rparr>"
  shows "InferRangeHelper fl t d kRangeBoundaryInt64 False (Some a) (Some b) before = Some (\<lparr>range_min = kConstant u, range_max = kConstant v\<rparr>, False)"
  using assms read_as_known [OF assms(1)] read_as_known [OF assms(2)]
  by (cases before) (auto simp: Fits_def bound_simps Overflowed_def Range_Clamp_def int64_bounds)

lemma Range_Mul_least:
  assumes a: "read_as fl a kMinInt64 hi p n" and b: "read_as fl b lo' hi' p' n'" and "kMinInt64 < hi" "kMinInt64 < lo'" "lo' \<le> hi'"
    and small: "\<bar>hi\<bar> \<le> - kSmiMin" "max \<bar>lo'\<bar> \<bar>hi'\<bar> \<le> - kSmiMin" "\<bar>hi\<bar> * max \<bar>lo'\<bar> \<bar>hi'\<bar> \<le> kMaxInt64"
  shows "\<exists>u. is_int64 u \<and> (n \<and> n' \<or> u = - (\<bar>hi\<bar> * max \<bar>lo'\<bar> \<bar>hi'\<bar>)) \<and>
    Range_Mul fl a b = Some \<lparr>range_min = kConstant u, range_max = kConstant (\<bar>hi\<bar> * max \<bar>lo'\<bar> \<bar>hi'\<bar>)\<rparr>"
proof -
  define B where "B = max \<bar>lo'\<bar> \<bar>hi'\<bar>"
  have i: "is_int64 hi" "is_int64 lo'" "is_int64 hi'" using a b by (simp_all add: read_as_def)
  have "Maximum kMinInt64 \<bar>hi\<bar> = \<bar>hi\<bar>" by (auto simp: Maximum_def limits)
  then have max: "ConstantAbsMax fl a = Some \<bar>hi\<bar>" using a assms(3) i(1) by (simp add: read_as_def ConstantAbsMax_def Abs64_min Abs64_eq)
  have max': "ConstantAbsMax fl b = Some B"
    using b assms(4,5) i by (simp add: read_as_def ConstantAbsMax_def Maximum_def Abs64_eq B_def)
  obtain m m' where mn: "ConstantAbsMin fl a = Some m" "ConstantAbsMin fl b = Some m'"
    using a b by (simp add: read_as_def ConstantAbsMin_def)
  have sg: "OnlyPositiveOrZero fl a b = Some False" "OnlyNegativeOrZero fl a b = Some (n \<and> n')"
    using a b by (auto simp: read_as_def OnlyPositiveOrZero_def OnlyNegativeOrZero_def limits)
  have g: "\<bar>hi\<bar> = 0 \<or> B \<le> kMaxInt64 sdiv \<bar>hi\<bar>"
    by (rule sdiv_guard_iff) (use small(3) in \<open>auto simp: B_def limits\<close>)
  have P: "0 \<le> \<bar>hi\<bar> * B" "\<bar>hi\<bar> * B \<le> kMaxInt64" using small(3) by (auto simp: B_def)
  then have P': "is_int64 (\<bar>hi\<bar> * B)" "is_int64 (- (\<bar>hi\<bar> * B))" using nonneg_int64 [of 0 "\<bar>hi\<bar> * B"] by auto
  let ?u = "if n \<and> n' then int64 (m * m') else - (\<bar>hi\<bar> * B)"
  have "Range_Mul fl a b = Some \<lparr>range_min = kConstant ?u, range_max = kConstant (\<bar>hi\<bar> * B)\<rparr>"
    using small(1,2) g P' by (simp add: Range_Mul_def max max' mn sg Let_def flip: B_def)
  moreover have "is_int64 ?u" using P'(2) by simp
  ultimately show ?thesis unfolding B_def [symmetric] by (intro exI [of _ ?u]) auto
qed

lemma least_times:
  assumes "\<bar>P\<bar> \<le> kMaxInt64" "(y::int) \<noteq> 0" "n \<longrightarrow> y \<le> 0"
  shows "kMinInt64 * y < - P \<and> \<not> n \<or> P < kMinInt64 * y"
proof (cases "y > 0")
  case True
  then have "kMinInt64 * y \<le> kMinInt64 * 1" by (intro mult_left_mono_neg) (auto simp: limits)
  then show ?thesis using assms True by (auto simp: limits)
next
  case False
  then have "kMinInt64 * (- 1) \<le> kMinInt64 * y" using assms(2) by (intro mult_left_mono_neg) (auto simp: limits)
  then show ?thesis using assms by (auto simp: limits)
qed

lemma Range_Shr_wide:
  assumes a: "read_as fl a lo hi p n" and b: "read_as fl b lo' c p' n'" and "64 \<le> c"
  shows "\<exists>u v. Range_Shr fl a b = Some \<lparr>range_min = kConstant u, range_max = kConstant v\<rparr> \<and> is_int64 u \<and> is_int64 v
    \<and> (0 < lo \<longrightarrow> u = lo div 2 ^ nat (c mod 64)) \<and> (hi \<le> 0 \<longrightarrow> v = hi div 2 ^ nat (c mod 64))"
proof -
  have "Maximum c 0 = c" using assms(3) by (simp add: Maximum_def)
  then show ?thesis using a b by (auto simp: Range_Shr_def read_as_def Let_def Boundary_Shr_def drop_bit_int_def int64_div)
qed

lemma wide_shift:
  assumes "is_int64 x" "64 \<le> c"
  shows "x div 2 ^ nat c = (if x < 0 then - 1 else 0)"
proof -
  have "(2::int) ^ 64 \<le> 2 ^ nat c" using assms(2) by (intro power_increasing) auto
  then have "\<bar>x\<bar> < 2 ^ nat c" using assms(1) by (auto simp: is_int64_def limits)
  then show ?thesis
    using int_div_pos_eq [of x "2 ^ nat c" "- 1" "x + 2 ^ nat c"] by (cases "x < 0") (simp_all add: div_pos_pos_trivial)
qed

lemma mul_misses:
  assumes "read_as fl a kMinInt64 hi p n" "read_as fl b lo' hi' p' n'" "kMinInt64 < hi" "kMinInt64 < lo'" "lo' \<le> y" "y \<le> hi'" "y \<noteq> 0"
    "\<bar>hi\<bar> \<le> - kSmiMin" "max \<bar>lo'\<bar> \<bar>hi'\<bar> \<le> - kSmiMin" "\<bar>hi\<bar> * max \<bar>lo'\<bar> \<bar>hi'\<bar> \<le> kMaxInt64"
  shows "\<exists>rng. InferRangeHelper fl kMUL d kRangeBoundaryInt64 False (Some a) (Some b) before = Some (rng, False) \<and> \<not> in_range val rng (kMinInt64 * y)"
proof -
  define P where "P = \<bar>hi\<bar> * max \<bar>lo'\<bar> \<bar>hi'\<bar>"
  obtain u where u: "is_int64 u" "n \<and> n' \<or> u = - P" "Range_Mul fl a b = Some \<lparr>range_min = kConstant u, range_max = kConstant P\<rparr>"
    using Range_Mul_least [OF assms(1-4) _ assms(8-10)] assms(5,6) unfolding P_def by auto
  have P: "0 \<le> P" "P \<le> kMaxInt64" using assms(10) by (simp_all add: P_def)
  then have "is_int64 P" using nonneg_int64 [of 0 P] by blast
  note infer = infers_constants [OF assms(1,2) u(1) this, of kMUL d before]
  have "n \<and> n' \<longrightarrow> y \<le> 0" using assms(2,6) by (auto simp: read_as_def)
  then have "kMinInt64 * y < - P \<and> \<not> (n \<and> n') \<or> P < kMinInt64 * y" using P assms(7) by (intro least_times) auto
  then have "\<not> in_range val \<lparr>range_min = kConstant u, range_max = kConstant P\<rparr> (kMinInt64 * y)" using u(2) by (auto simp: in_range_def)
  then show ?thesis using infer u(3) by auto
qed

lemma shr_misses:
  assumes "read_as fl a lo hi p n" "read_as fl b lo' c p' n'" "64 \<le> c"
  shows "\<exists>rng. InferRangeHelper fl kSHR d kRangeBoundaryInt64 False (Some a) (Some b) before = Some (rng, False)
    \<and> (2 ^ nat (c mod 64) \<le> lo \<longrightarrow> value_of kSHR lo c = Some 0 \<and> \<not> in_range val rng 0)
    \<and> (hi < - (2 ^ nat (c mod 64)) \<longrightarrow> value_of kSHR hi c = Some (- 1) \<and> \<not> in_range val rng (- 1))"
proof -
  obtain u v where r: "Range_Shr fl a b = Some \<lparr>range_min = kConstant u, range_max = kConstant v\<rparr>" "is_int64 u" "is_int64 v"
    "0 < lo \<longrightarrow> u = lo div 2 ^ nat (c mod 64)" "hi \<le> 0 \<longrightarrow> v = hi div 2 ^ nat (c mod 64)"
    using Range_Shr_wide [OF assms] by blast
  let ?M = "2 ^ nat (c mod 64) :: int"
  have M: "0 < ?M" by simp
  have i: "is_int64 lo" "is_int64 hi" using assms(1) by (simp_all add: read_as_def)
  have low: "value_of kSHR lo c = Some 0 \<and> 0 < u" if "?M \<le> lo"
  proof -
    have "0 < lo" using that M by linarith
    then show ?thesis using wide_shift [OF i(1) assms(3)] assms(3) r(4) that M by (simp add: pos_imp_zdiv_pos_iff)
  qed
  have high: "value_of kSHR hi c = Some (- 1) \<and> v < - 1" if "hi < - ?M"
  proof -
    have neg: "hi < 0" using that M by linarith
    have "\<not> - 1 \<le> hi div ?M"
    proof
      assume "- 1 \<le> hi div ?M"
      then have "?M * (- 1) \<le> ?M * (hi div ?M)" using M by (intro mult_left_mono) auto
      moreover have "?M * (hi div ?M) \<le> hi" using mult_div_mod_eq [of ?M hi] pos_mod_sign [OF M, of hi] by linarith
      ultimately show False using that by linarith
    qed
    then show ?thesis using wide_shift [OF i(2) assms(3)] assms(3) r(5) neg by simp
  qed
  show ?thesis
    using infers_constants [OF assms(1,2) r(2,3), of kSHR d before] r(1) low high by (auto simp: in_range_def)
qed

text \<open>C2: An operation that range analysis says cannot overflow does not, and its range holds its value. Let the definitions
  of a flow graph have small integers as values that lie in their ranges, and let no range depend on itself. Then for operands with values
  in their ranges, inferring the range of an addition, subtraction, multiplication, shift or bitwise operation that is not truncating returns; if it
  reports no overflow, the value of the operation fits the representation of the result; and whenever the value fits,
  it lies in the inferred range. Excluded are products with an operand that may be the least 64-bit integer and right shifts by 64 or more.\<close>

theorem InferRange_sound:
  assumes "flow_ok fl val rank" "wf_range fl a" "in_range val a x" "is_int64 x" "wf_range fl b" "in_range val b y" "is_int64 y"
    "defn_array_length fl d \<longrightarrow> x = val d" "op_ok fl t a b" "value_of t x y = Some z"
  shows "\<exists>rng can_overflow. InferRangeHelper fl t d sz False (Some a) (Some b) before = Some (rng, can_overflow) \<and> wf_range fl rng
    \<and> (\<not> can_overflow \<longrightarrow> fits_size sz z) \<and> (fits_size sz z \<longrightarrow> in_range val rng z)"
proof -
  obtain rng fits where r: "BinaryOp fl t a b d = Some rng" "Fits fl rng sz = Some fits" "wf_range fl (Range_Clamp sz rng)"
    "fits \<longrightarrow> fits_size sz z" "fits_size sz z \<longrightarrow> in_range val (Range_Clamp sz rng) z"
    using op.checked_and_clamped [OF assms(1-7), of d t z sz] assms(8-10) by blast
  have "range_min a \<noteq> kUnknown" "range_min b \<noteq> kUnknown" using assms(2,5) by (auto simp: wf_range_def)
  then show ?thesis using r by (cases before) simp
qed

definition sample_flow :: Definitions where
  "sample_flow = \<lparr>defn_range = [0 \<mapsto> \<lparr>range_min = kConstant 0, range_max = kConstant 1000\<rparr>, 1 \<mapsto> \<lparr>range_min = kConstant 0, range_max = kSymbol 0 (- 1)\<rparr>],
     defn_smi = \<lambda>_. None, defn_array_length = \<lambda>d. d = 0\<rparr>"

theorem InferRange_sound_witness:
  "\<exists>rng can_overflow. InferRangeHelper sample_flow kADD 1 kRangeBoundarySmi False
      (Some \<lparr>range_min = kConstant 0, range_max = kSymbol 0 (- 1)\<rparr>) (Some \<lparr>range_min = kConstant 1, range_max = kConstant 1\<rparr>)
      (\<lparr>range_min = kUnknown, range_max = kUnknown\<rparr>, True) = Some (rng, can_overflow) \<and> wf_range sample_flow rng
    \<and> (\<not> can_overflow \<longrightarrow> fits_size kRangeBoundarySmi 4) \<and> (fits_size kRangeBoundarySmi 4 \<longrightarrow> in_range (\<lambda>d. if d = 0 then 10 else 3) rng 4)"
proof (rule InferRange_sound [where x = 3 and y = 1])
  show "flow_ok sample_flow (\<lambda>d. if d = 0 then 10 else 3) id"
    by (auto simp: flow_ok_def sample_flow_def wf_range_def in_range_def is_int64_def limits split: if_splits)
qed (simp_all add: sample_flow_def wf_range_def in_range_def is_int64_def limits)

text \<open>C31: The bounds of a symbolic boundary. When the ranges of definitions refer only to definitions of lower rank, computing the
  bounds of a boundary returns, with a constant or an infinity that bounds every value the boundary bounds. When the lower boundaries
  of the ranges of some definitions all refer to definitions among them, with any offsets, computing the lower bound of a boundary
  that refers to one of them never returns, and likewise for upper boundaries; so it is for a definition whose own boundary refers to itself.\<close>

theorem bounds_return:
  "(flow_ok fl val rank \<longrightarrow> wf_boundary fl b \<longrightarrow>
      (\<exists>l u. LowerBound fl b = Some l \<and> UpperBound fl b = Some u \<and> finite_or kNegativeInfinity l \<and> finite_or kPositiveInfinity u
        \<and> (\<forall>x. at_least val b x \<longrightarrow> at_least val l x) \<and> (\<forall>x. at_most val b x \<longrightarrow> at_most val u x)))
   \<and> (\<forall>S. (\<forall>d \<in> S. \<exists>r e offs. defn_range fl d = Some r \<and> range_min r = kSymbol e offs \<and> e \<in> S) \<longrightarrow>
        (\<forall>d \<in> S. \<forall>offs. LowerBound fl (kSymbol d offs) = None))
   \<and> (\<forall>S. (\<forall>d \<in> S. \<exists>r e offs. defn_range fl d = Some r \<and> range_max r = kSymbol e offs \<and> e \<in> S) \<longrightarrow>
        (\<forall>d \<in> S. \<forall>offs. UpperBound fl (kSymbol d offs) = None))
   \<and> (\<forall>d r k offs. defn_range fl d = Some r \<longrightarrow>
        (range_min r = kSymbol d k \<longrightarrow> LowerBound fl (kSymbol d offs) = None)
        \<and> (range_max r = kSymbol d k \<longrightarrow> UpperBound fl (kSymbol d offs) = None))"
proof (intro conjI allI impI ballI)
  show "LowerBound fl (kSymbol d offs) = None" if "defn_range fl d = Some r" "range_min r = kSymbol d k" for d r k offs
    using LowerBound_cyclic [of "{d}"] that by auto
  show "UpperBound fl (kSymbol d offs) = None" if "defn_range fl d = Some r" "range_max r = kSymbol d k" for d r k offs
    using UpperBound_cyclic [of "{d}"] that by auto
qed (use LowerBound_sound [of fl val rank b] UpperBound_sound [of fl val rank b] LowerBound_cyclic UpperBound_cyclic in blast)+

definition cyclic_flow :: Definitions where
  "cyclic_flow = \<lparr>defn_range = [2 \<mapsto> \<lparr>range_min = kSymbol 3 1, range_max = kSymbol 2 (- 1)\<rparr>, 3 \<mapsto> \<lparr>range_min = kSymbol 2 4, range_max = kConstant 7\<rparr>],
     defn_smi = \<lambda>_. None, defn_array_length = \<lambda>_. False\<rparr>"

theorem bounds_return_witness:
  "(\<exists>l u. LowerBound sample_flow (kSymbol 1 5) = Some l \<and> UpperBound sample_flow (kSymbol 1 5) = Some u \<and> finite_or kNegativeInfinity l
      \<and> finite_or kPositiveInfinity u \<and> at_least (\<lambda>d. if d = 0 then 10 else 3) l 8 \<and> at_most (\<lambda>d. if d = 0 then 10 else 3) u 8)
   \<and> LowerBound cyclic_flow (kSymbol 3 1) = None \<and> UpperBound cyclic_flow (kSymbol 2 1) = None"
proof (intro conjI)
  have f: "flow_ok sample_flow (\<lambda>d. if d = 0 then 10 else 3) id"
    by (auto simp: flow_ok_def sample_flow_def wf_range_def in_range_def is_int64_def limits split: if_splits)
  have "wf_boundary sample_flow (kSymbol 1 5)" by (simp add: sample_flow_def is_int64_def limits)
  moreover have "at_least (\<lambda>d. if d = 0 then 10 else 3) (kSymbol 1 5) 8" "at_most (\<lambda>d. if d = 0 then 10 else 3) (kSymbol 1 5) 8" by simp_all
  ultimately show "\<exists>l u. LowerBound sample_flow (kSymbol 1 5) = Some l \<and> UpperBound sample_flow (kSymbol 1 5) = Some u \<and> finite_or kNegativeInfinity l
      \<and> finite_or kPositiveInfinity u \<and> at_least (\<lambda>d. if d = 0 then 10 else 3) l 8 \<and> at_most (\<lambda>d. if d = 0 then 10 else 3) u 8"
    using bounds_return [of sample_flow "\<lambda>d. if d = 0 then 10 else 3" id "kSymbol 1 5", THEN conjunct1] f by blast
  have "\<forall>d \<in> {2, 3}. \<exists>r e offs. defn_range cyclic_flow d = Some r \<and> range_min r = kSymbol e offs \<and> e \<in> {2, 3}"
    by (simp add: cyclic_flow_def)
  then show "LowerBound cyclic_flow (kSymbol 3 1) = None"
    using bounds_return [of cyclic_flow, THEN conjunct2, THEN conjunct1, THEN spec, of "{2, 3}"] by simp
  have "defn_range cyclic_flow 2 = Some \<lparr>range_min = kSymbol 3 1, range_max = kSymbol 2 (- 1)\<rparr>" by (simp add: cyclic_flow_def)
  then show "UpperBound cyclic_flow (kSymbol 2 1) = None"
    using bounds_return [of cyclic_flow, THEN conjunct2, THEN conjunct2, THEN conjunct2] by fastforce
qed

text \<open>C32: Where the analysis is wrong. Let the left operand of a product be read with the least 64-bit integer as its lower bound and an upper bound above it, and the
  right operand with a greater lower bound, and let the other bounds be small enough that the code multiplies them. Since the absolute value of the least
  integer wraps around to itself, the product is said not to overflow 64 bits, with a range that misses the product of the least integer with every right
  operand but 0. And let the count of a right shift have an upper bound of 64 or more. Since the bounds are computed with the count modulo 64, a left operand
  whose lower bound is at least 2 to that remainder, shifted by the greatest count, gives 0, which the range misses, and one whose upper bound is
  below the negated power gives - 1, which the range misses too.\<close>

theorem range_misses_value:
  assumes "read_as fl b lo' hi' p' n'"
  shows "(\<forall>a hi p n y. read_as fl a kMinInt64 hi p n \<and> kMinInt64 < hi \<and> kMinInt64 < lo' \<and> lo' \<le> y \<and> y \<le> hi' \<and> y \<noteq> 0
        \<and> \<bar>hi\<bar> \<le> - kSmiMin \<and> max \<bar>lo'\<bar> \<bar>hi'\<bar> \<le> - kSmiMin \<and> \<bar>hi\<bar> * max \<bar>lo'\<bar> \<bar>hi'\<bar> \<le> kMaxInt64 \<longrightarrow>
      (\<exists>rng. InferRangeHelper fl kMUL d kRangeBoundaryInt64 False (Some a) (Some b) before = Some (rng, False)
        \<and> \<not> in_range val rng (kMinInt64 * y)))
    \<and> (\<forall>a lo hi p n. read_as fl a lo hi p n \<and> 64 \<le> hi' \<longrightarrow>
      (\<exists>rng. InferRangeHelper fl kSHR d kRangeBoundaryInt64 False (Some a) (Some b) before = Some (rng, False)
        \<and> (2 ^ nat (hi' mod 64) \<le> lo \<longrightarrow> value_of kSHR lo hi' = Some 0 \<and> \<not> in_range val rng 0)
        \<and> (hi < - (2 ^ nat (hi' mod 64)) \<longrightarrow> value_of kSHR hi hi' = Some (- 1) \<and> \<not> in_range val rng (- 1))))"
  using mul_misses [OF _ assms] shr_misses [OF _ assms] by blast

theorem range_misses_value_witness:
  "(\<exists>rng. InferRangeHelper sample_flow kMUL 0 kRangeBoundaryInt64 False (Some \<lparr>range_min = kNegativeInfinity, range_max = kConstant 5\<rparr>)
      (Some \<lparr>range_min = kConstant 1, range_max = kConstant 70\<rparr>) (\<lparr>range_min = kUnknown, range_max = kUnknown\<rparr>, True) = Some (rng, False)
      \<and> \<not> in_range (\<lambda>_. 0) rng (kMinInt64 * 1))
   \<and> (\<exists>rng. InferRangeHelper sample_flow kSHR 0 kRangeBoundaryInt64 False (Some \<lparr>range_min = kConstant 100, range_max = kPositiveInfinity\<rparr>)
      (Some \<lparr>range_min = kConstant 1, range_max = kConstant 70\<rparr>) (\<lparr>range_min = kUnknown, range_max = kUnknown\<rparr>, True) = Some (rng, False)
      \<and> value_of kSHR 100 70 = Some 0 \<and> \<not> in_range (\<lambda>_. 0) rng 0)"
proof -
  let ?b = "\<lparr>range_min = kConstant 1, range_max = kConstant 70\<rparr>"
  have b: "read_as sample_flow ?b 1 70 True False"
    and m: "read_as sample_flow \<lparr>range_min = kNegativeInfinity, range_max = kConstant 5\<rparr> kMinInt64 5 False False"
    and s: "read_as sample_flow \<lparr>range_min = kConstant 100, range_max = kPositiveInfinity\<rparr> 100 kMaxInt64 True False"
    by (simp_all add: read_as_def ConstantMin_def ConstantMax_def OnlyGreaterThanOrEqualTo_def OnlyLessThanOrEqualTo_def bound_simps is_int64_def limits)
  note r = range_misses_value [OF b, of 0 "(\<lparr>range_min = kUnknown, range_max = kUnknown\<rparr>, True)" "\<lambda>_. 0"]
  show ?thesis
  proof (rule conjI)
    have "kMinInt64 < 5 \<and> kMinInt64 < 1 \<and> (1::int) \<le> 1 \<and> (1::int) \<le> 70 \<and> (1::int) \<noteq> 0 \<and> \<bar>5\<bar> \<le> - kSmiMin
        \<and> max \<bar>1\<bar> \<bar>70\<bar> \<le> - kSmiMin \<and> \<bar>5\<bar> * max \<bar>1\<bar> \<bar>70\<bar> \<le> kMaxInt64"
      by (simp add: limits)
    with m show "\<exists>rng. InferRangeHelper sample_flow kMUL 0 kRangeBoundaryInt64 False (Some \<lparr>range_min = kNegativeInfinity, range_max = kConstant 5\<rparr>)
        (Some ?b) (\<lparr>range_min = kUnknown, range_max = kUnknown\<rparr>, True) = Some (rng, False) \<and> \<not> in_range (\<lambda>_. 0) rng (kMinInt64 * 1)"
      using r [THEN conjunct1] by blast
    have "(64::int) \<le> 70" "2 ^ nat (70 mod 64) \<le> (100::int)" by simp_all
    with s show "\<exists>rng. InferRangeHelper sample_flow kSHR 0 kRangeBoundaryInt64 False (Some \<lparr>range_min = kConstant 100, range_max = kPositiveInfinity\<rparr>)
        (Some ?b) (\<lparr>range_min = kUnknown, range_max = kUnknown\<rparr>, True) = Some (rng, False) \<and> value_of kSHR 100 70 = Some 0 \<and> \<not> in_range (\<lambda>_. 0) rng 0"
      using r [THEN conjunct2] by blast
  qed
qed

end
