(* ===== verification/Message_Queue.thy ===== *)
theory Message_Queue
  imports Prelude "HOL-Library.Monad_Syntax"
begin

text \<open>
  Messages between isolates and the queues that hold them, from \<^verbatim>\<open>vm/message.h\<close> and \<^verbatim>\<open>vm/message.cc\<close>. A queue is
  a singly linked list through the messages themselves, with a pointer to its first and one to its last message, so messages are kept
  in a store from addresses to messages; the address 0 is the null pointer and an address without a message is free.
  A null or dangling pointer that is followed, and a loop that does not end, give \<open>None\<close>. \<open>queue_list\<close> is the
  list of messages a queue stands for; the operations are shown to act on it as on an ordinary list.
\<close>

section \<open>Messages and queues\<close>

datatype Priority = kNormalPriority | kOOBPriority

record Message =
  msg_next :: nat
  dest_port :: int
  delivery_failure_port :: int
  msg_data :: "u8 list"
  msg_len :: int
  priority :: Priority

abbreviation (input) "kIllegalPort \<equiv> 0 :: int"

type_synonym message_store = "nat \<Rightarrow> Message option"

definition RedirectToDeliveryFailurePort :: "Message \<Rightarrow> bool \<times> Message" where
  "RedirectToDeliveryFailurePort msg =
     (if delivery_failure_port msg = kIllegalPort then (False, msg)
      else (True, msg\<lparr>dest_port := delivery_failure_port msg, delivery_failure_port := kIllegalPort\<rparr>))"

record MessageQueue =
  q_head :: nat
  q_tail :: nat

definition MessageQueue_new :: MessageQueue where
  "MessageQueue_new = \<lparr>q_head = 0, q_tail = 0\<rparr>"

text \<open>\<open>set_next\<close> is the assignment \<open>p->next_ = q\<close>.\<close>

definition set_next :: "message_store \<Rightarrow> nat \<Rightarrow> nat \<Rightarrow> message_store option" where
  "set_next store p q = map_option (\<lambda>m. store(p \<mapsto> m\<lparr>msg_next := q\<rparr>)) (store p)"

text \<open>The loop of \<open>Enqueue\<close> behind the pending control messages: it splices in the message before the first
  other one and returns \<open>None\<close> as new last message, or ends at the last message.\<close>

partial_function (option) Enqueue_loop :: "message_store \<Rightarrow> nat \<Rightarrow> nat \<Rightarrow> (message_store \<times> nat option) option" where
  "Enqueue_loop store msg cur = do {
     c \<leftarrow> store cur;
     if msg_next c \<noteq> 0 then do {
       n \<leftarrow> store (msg_next c);
       if dest_port n \<noteq> kIllegalPort then do {
         store \<leftarrow> set_next store msg (msg_next c);
         store \<leftarrow> set_next store cur msg;
         Some (store, None) }
       else Enqueue_loop store msg (msg_next c) }
     else Some (store, Some cur) }"

definition Enqueue :: "message_store \<Rightarrow> MessageQueue \<Rightarrow> nat \<Rightarrow> bool \<Rightarrow> (message_store \<times> MessageQueue) option" where
  "Enqueue store q msg before_events =
     (if q_head q = 0 then Some (store, \<lparr>q_head = msg, q_tail = msg\<rparr>)
      else if \<not> before_events then do {
        store \<leftarrow> set_next store (q_tail q) msg;
        Some (store, q\<lparr>q_tail := msg\<rparr>) }
      else do {
        h \<leftarrow> store (q_head q);
        if dest_port h \<noteq> kIllegalPort then do {
          store \<leftarrow> set_next store msg (q_head q);
          Some (store, q\<lparr>q_head := msg\<rparr>) }
        else do {
          (store, cur) \<leftarrow> Enqueue_loop store msg (q_head q);
          case cur of
            None \<Rightarrow> Some (store, q)
          | Some cur \<Rightarrow> do {
              store \<leftarrow> set_next store (q_tail q) msg;
              Some (store, q\<lparr>q_tail := msg\<rparr>) } } })"

definition Dequeue :: "message_store \<Rightarrow> MessageQueue \<Rightarrow> (nat \<times> MessageQueue) option" where
  "Dequeue store q =
     (if q_head q \<noteq> 0 then do {
        m \<leftarrow> store (q_head q);
        Some (q_head q, if msg_next m = 0 then \<lparr>q_head = 0, q_tail = 0\<rparr> else q\<lparr>q_head := msg_next m\<rparr>) }
      else Some (0, q))"

partial_function (option) Length_loop :: "message_store \<Rightarrow> nat \<Rightarrow> nat \<Rightarrow> nat option" where
  "Length_loop store next n =
     (if next \<noteq> 0 then do {
        m \<leftarrow> store next;
        Length_loop store (msg_next m) (n + 1) }
      else Some n)"

definition MessageQueue_Length :: "message_store \<Rightarrow> MessageQueue \<Rightarrow> nat option" where
  "MessageQueue_Length store q = Length_loop store (q_head q) 0"

text \<open>The id of a message is its address.\<close>

partial_function (option) FindMessageById_loop :: "message_store \<Rightarrow> nat \<Rightarrow> nat \<Rightarrow> nat option" where
  "FindMessageById_loop store ident next =
     (if next \<noteq> 0 then do {
        m \<leftarrow> store next;
        if next = ident then Some next else FindMessageById_loop store ident (msg_next m) }
      else Some 0)"

definition FindMessageById :: "message_store \<Rightarrow> MessageQueue \<Rightarrow> nat \<Rightarrow> nat option" where
  "FindMessageById store q ident = FindMessageById_loop store ident (q_head q)"

section \<open>The list a queue stands for\<close>

text \<open>\<open>chain\<close> follows the messages from an address up to the null pointer.\<close>

fun chain :: "message_store \<Rightarrow> nat \<Rightarrow> nat list \<Rightarrow> bool" where
  "chain store p [] \<longleftrightarrow> p = 0"
| "chain store p (x # xs) \<longleftrightarrow> p = x \<and> x \<noteq> 0 \<and> (\<exists>m. store x = Some m \<and> chain store (msg_next m) xs)"

definition queue_list :: "message_store \<Rightarrow> MessageQueue \<Rightarrow> nat list \<Rightarrow> bool" where
  "queue_list store q xs \<longleftrightarrow> chain store (q_head q) xs \<and> distinct xs \<and> q_tail q = (if xs = [] then 0 else last xs)"

text \<open>A message that is in no queue.\<close>

definition unlinked :: "message_store \<Rightarrow> nat \<Rightarrow> bool" where
  "unlinked store p \<longleftrightarrow> p \<noteq> 0 \<and> (\<exists>m. store p = Some m \<and> msg_next m = 0)"

definition is_control :: "message_store \<Rightarrow> nat \<Rightarrow> bool" where
  "is_control store p \<longleftrightarrow> (\<exists>m. store p = Some m \<and> dest_port m = kIllegalPort)"

text \<open>Everything in the store but the links.\<close>

definition same_messages :: "message_store \<Rightarrow> message_store \<Rightarrow> bool" where
  "same_messages s t \<longleftrightarrow> (\<forall>p. map_option (\<lambda>m. m\<lparr>msg_next := 0\<rparr>) (s p) = map_option (\<lambda>m. m\<lparr>msg_next := 0\<rparr>) (t p))"

lemma chain_cong: "(\<And>p. p \<in> set xs \<Longrightarrow> s p = t p) \<Longrightarrow> chain s p xs = chain t p xs"
  by (induction xs arbitrary: p) auto

lemma chain_snoc:
  assumes "chain store p xs" "xs \<noteq> []" "distinct xs" "msg \<notin> set xs" "unlinked store msg"
  shows "\<exists>m. store (last xs) = Some m \<and> chain (store(last xs \<mapsto> m\<lparr>msg_next := msg\<rparr>)) p (xs @ [msg])"
  using assms
proof (induction xs arbitrary: p)
  case (Cons x xs)
  then obtain m where m: "store x = Some m" "p = x" "x \<noteq> 0" "chain store (msg_next m) xs" by auto
  show ?case
  proof (cases "xs = []")
    case True
    then show ?thesis using m Cons.prems by (auto simp: unlinked_def)
  next
    case False
    have "distinct xs" "msg \<notin> set xs" using Cons.prems by auto
    from Cons.IH [OF m(4) False this Cons.prems(5)] obtain m'
      where "store (last xs) = Some m'" "chain (store(last xs \<mapsto> m'\<lparr>msg_next := msg\<rparr>)) (msg_next m) (xs @ [msg])" by blast
    moreover have "x \<noteq> last xs" using Cons.prems False by auto
    ultimately show ?thesis using m False by (auto simp: fun_upd_other simp del: fun_upd_apply)
  qed
qed simp


definition enqueued :: "message_store \<Rightarrow> nat list \<Rightarrow> nat \<Rightarrow> bool \<Rightarrow> nat list" where
  "enqueued store xs msg before_events =
     (if before_events then takeWhile (is_control store) xs @ msg # dropWhile (is_control store) xs else xs @ [msg])"

lemma set_enqueued [simp]: "set (enqueued store xs msg b) = insert msg (set xs)"
proof -
  have "set xs = set (takeWhile (is_control store) xs) \<union> set (dropWhile (is_control store) xs)"
    by (metis set_append takeWhile_dropWhile_id)
  then show ?thesis by (auto simp: enqueued_def)
qed

lemma distinct_enqueued [simp]: "distinct (enqueued store xs msg b) \<longleftrightarrow> distinct xs \<and> msg \<notin> set xs"
proof (cases b)
  case True
  have "distinct (ys @ msg # zs) \<longleftrightarrow> distinct (ys @ zs) \<and> msg \<notin> set (ys @ zs)" for ys zs by auto
  from this [of "takeWhile (is_control store) xs" "dropWhile (is_control store) xs"] True show ?thesis
    by (simp add: enqueued_def)
qed (auto simp: enqueued_def)

text \<open>What a change of links may do: it keeps every message and the links of all messages outside a set.\<close>

definition relinks :: "nat set \<Rightarrow> message_store \<Rightarrow> message_store \<Rightarrow> bool" where
  "relinks X s t \<longleftrightarrow> same_messages s t \<and> (\<forall>p. p \<notin> X \<longrightarrow> t p = s p)"

lemma same_messages_upd: "s p = Some m \<Longrightarrow> same_messages s (s(p \<mapsto> m\<lparr>msg_next := q\<rparr>))"
  by (simp add: same_messages_def)

lemma same_messages_trans: "same_messages s t \<Longrightarrow> same_messages t u \<Longrightarrow> same_messages s u"
  by (simp add: same_messages_def)

lemma relinks_upd: "s p = Some m \<Longrightarrow> p \<in> X \<Longrightarrow> relinks X s (s(p \<mapsto> m\<lparr>msg_next := q\<rparr>))"
  by (auto simp: relinks_def same_messages_upd)

lemma relinks_trans: "relinks X s t \<Longrightarrow> relinks X t u \<Longrightarrow> relinks X s u"
  by (auto simp: relinks_def intro: same_messages_trans)

lemma relinks_refl [simp]: "relinks X s s"
  by (simp add: relinks_def same_messages_def)

lemma relinks_mono: "relinks X s t \<Longrightarrow> X \<subseteq> Y \<Longrightarrow> relinks Y s t"
  by (auto simp: relinks_def)

lemma relinks_chain: "relinks X s t \<Longrightarrow> set xs \<inter> X = {} \<Longrightarrow> chain t p xs = chain s p xs"
  by (rule chain_cong) (auto simp: relinks_def)

lemma Enqueue_loop_sound:
  assumes "chain store cur (cur # xs)" "distinct (cur # xs)" "msg \<notin> set (cur # xs)" "unlinked store msg"
  shows "\<exists>store' r. Enqueue_loop store msg cur = Some (store', r) \<and>
    (if \<forall>x \<in> set xs. is_control store x then store' = store \<and> r = Some (last (cur # xs))
     else r = None \<and> chain store' cur (cur # takeWhile (is_control store) xs @ msg # dropWhile (is_control store) xs)
       \<and> relinks (insert msg (set (cur # xs))) store store')"
  using assms
proof (induction xs arbitrary: cur)
  case Nil
  then show ?case by (auto simp: Enqueue_loop.simps [of store msg cur])
next
  case (Cons x xs)
  then obtain c n where c: "store cur = Some c" "cur \<noteq> 0" "msg_next c = x" and n: "store x = Some n" "x \<noteq> 0" "chain store x (x # xs)"
    by auto
  obtain m where m: "store msg = Some m" "msg \<noteq> 0" using Cons.prems(4) by (auto simp: unlinked_def)
  show ?case
  proof (cases "is_control store x")
    case True
    then have e: "Enqueue_loop store msg cur = Enqueue_loop store msg x"
      using c n by (simp add: Enqueue_loop.simps [of store msg cur] is_control_def)
    obtain store' r where ih: "Enqueue_loop store msg x = Some (store', r)"
      "if \<forall>x \<in> set xs. is_control store x then store' = store \<and> r = Some (last (x # xs))
       else r = None \<and> chain store' x (x # takeWhile (is_control store) xs @ msg # dropWhile (is_control store) xs)
         \<and> relinks (insert msg (set (x # xs))) store store'"
      using Cons.IH [OF n(3)] Cons.prems by auto
    show ?thesis
    proof (cases "\<forall>x \<in> set xs. is_control store x")
      case False
      then have r: "r = None" "chain store' x (x # takeWhile (is_control store) xs @ msg # dropWhile (is_control store) xs)"
        "relinks (insert msg (set (x # xs))) store store'" using ih(2) unfolding if_not_P [OF False] by blast+
      have "store' cur = Some c" using r(3) c(1) Cons.prems by (auto simp: relinks_def)
      then show ?thesis using r e ih(1) c True False relinks_mono [OF r(3), of "insert msg (set (cur # x # xs))"] by auto
    qed (use e ih True in simp)
  next
    case False
    let ?s1 = "store(msg \<mapsto> m\<lparr>msg_next := x\<rparr>)"
    let ?s2 = "?s1(cur \<mapsto> c\<lparr>msg_next := msg\<rparr>)"
    have ne: "cur \<noteq> msg" "x \<noteq> msg" "x \<noteq> cur" using Cons.prems by auto
    have "Enqueue_loop store msg cur = Some (?s2, None)"
      using c n m ne False by (simp add: Enqueue_loop.simps [of store msg cur] is_control_def set_next_def)
    moreover have "relinks (insert msg (set (cur # x # xs))) store ?s2"
    proof (rule relinks_trans)
      show "relinks (insert msg (set (cur # x # xs))) store ?s1" using m by (intro relinks_upd) simp_all
      show "relinks (insert msg (set (cur # x # xs))) ?s1 ?s2" using c ne by (intro relinks_upd) simp_all
    qed
    moreover have "chain ?s2 x (x # xs)" using n(3) Cons.prems by (subst chain_cong [of _ _ store]) auto
    ultimately show ?thesis using False ne m c by auto
  qed
qed

lemma queue_listD:
  assumes "queue_list store q xs"
  shows "chain store (q_head q) xs" "distinct xs" "q_head q = (if xs = [] then 0 else hd xs)" "q_tail q = (if xs = [] then 0 else last xs)"
    "x \<in> set xs \<Longrightarrow> x \<noteq> 0 \<and> store x \<noteq> None"
proof -
  have "x \<in> set xs \<Longrightarrow> x \<noteq> 0 \<and> store x \<noteq> None" if "chain store p xs" for p
    using that by (induction xs arbitrary: p) auto
  then show "x \<in> set xs \<Longrightarrow> x \<noteq> 0 \<and> store x \<noteq> None" using assms by (auto simp: queue_list_def)
qed (use assms in \<open>cases xs; auto simp: queue_list_def\<close>)+

lemma last_dropWhile_id: "dropWhile P xs \<noteq> [] \<Longrightarrow> last (dropWhile P xs) = last xs"
  by (metis last_appendR takeWhile_dropWhile_id)

lemma Enqueue_sound:
  assumes "queue_list store q xs" "unlinked store msg" "msg \<notin> set xs"
  shows "\<exists>store' q'. Enqueue store q msg b = Some (store', q') \<and> queue_list store' q' (enqueued store xs msg b)
    \<and> relinks (insert msg (set xs)) store store'"
proof (cases "xs = []")
  case True
  then show ?thesis using assms queue_listD(3) [OF assms(1)]
    by (auto simp: Enqueue_def queue_list_def unlinked_def enqueued_def)
next
  case False
  note D = queue_listD [OF assms(1)]
  have h0: "q_head q \<noteq> 0" using D False by (cases xs) auto
  obtain m where m: "store (last xs) = Some m" "chain (store(last xs \<mapsto> m\<lparr>msg_next := msg\<rparr>)) (q_head q) (xs @ [msg])"
    using chain_snoc [OF D(1) False D(2) assms(3,2)] by blast
  have tail: "queue_list (store(last xs \<mapsto> m\<lparr>msg_next := msg\<rparr>)) (q\<lparr>q_tail := msg\<rparr>) (xs @ [msg])"
    "relinks (insert msg (set xs)) store (store(last xs \<mapsto> m\<lparr>msg_next := msg\<rparr>))"
    using m D(2) assms(3) False by (auto simp: queue_list_def intro!: relinks_upd)
  show ?thesis
  proof (cases b)
    case False
    then show ?thesis using tail h0 D(4) \<open>xs \<noteq> []\<close> m(1) by (auto simp: Enqueue_def enqueued_def set_next_def)
  next
    case True
    obtain y ys where xs: "xs = y # ys" using \<open>xs \<noteq> []\<close> by (cases xs) auto
    obtain n where n: "store y = Some n" "q_head q = y" "chain store y (y # ys)" using D(1) xs by auto
    obtain k where k: "store msg = Some k" "msg \<noteq> 0" using assms(2) by (auto simp: unlinked_def)
    show ?thesis
    proof (cases "is_control store y")
      case False
      have "chain (store(msg \<mapsto> k\<lparr>msg_next := y\<rparr>)) y (y # ys)"
        using n(3) assms(3) xs by (subst chain_cong [of _ _ store]) auto
      then have "queue_list (store(msg \<mapsto> k\<lparr>msg_next := y\<rparr>)) (q\<lparr>q_head := msg\<rparr>) (msg # xs)"
        using k D(2,4) assms(3) xs by (auto simp: queue_list_def)
      moreover have "relinks (insert msg (set xs)) store (store(msg \<mapsto> k\<lparr>msg_next := y\<rparr>))" using k by (intro relinks_upd) auto
      ultimately show ?thesis using True False h0 n k xs by (auto simp: Enqueue_def enqueued_def set_next_def is_control_def)
    next
      case c: True
      obtain store' r where l: "Enqueue_loop store msg y = Some (store', r)"
        "if \<forall>x \<in> set ys. is_control store x then store' = store \<and> r = Some (last (y # ys))
         else r = None \<and> chain store' y (y # takeWhile (is_control store) ys @ msg # dropWhile (is_control store) ys)
           \<and> relinks (insert msg (set (y # ys))) store store'"
        using Enqueue_loop_sound [OF n(3) _ _ assms(2)] D(2) assms(3) xs by auto
      show ?thesis
      proof (cases "\<forall>x \<in> set ys. is_control store x")
        case t: True
        then have "enqueued store xs msg b = xs @ [msg]" using True c xs
          by (simp add: enqueued_def takeWhile_eq_all_conv [THEN iffD2] dropWhile_eq_Nil_conv [THEN iffD2])
        then show ?thesis using tail t l True c n m(1) h0 D(4) xs by (auto simp: Enqueue_def set_next_def is_control_def)
      next
        case f: False
        then have e: "enqueued store xs msg b = y # takeWhile (is_control store) ys @ msg # dropWhile (is_control store) ys"
          using True c xs by (simp add: enqueued_def)
        have l': "r = None" "chain store' y (enqueued store xs msg b)" "relinks (insert msg (set xs)) store store'"
          using l(2) e unfolding if_not_P [OF f] by (simp_all add: xs)
        have d: "dropWhile (is_control store) ys \<noteq> []" using f by (auto simp: dropWhile_eq_Nil_conv)
        then have "ys \<noteq> []" by auto
        then have "last (enqueued store xs msg b) = last xs" using d e by (auto simp: xs last_dropWhile_id)
        moreover have "distinct (enqueued store xs msg b)" using D(2) assms(3) by simp
        moreover have "enqueued store xs msg b \<noteq> []" using e by simp
        ultimately have "queue_list store' q (enqueued store xs msg b)"
          using l'(2) D(4) n(2) \<open>xs \<noteq> []\<close> by (simp add: queue_list_def)
        moreover have "Enqueue store q msg b = Some (store', q)"
          using l(1) l'(1) True c n h0 by (auto simp: Enqueue_def is_control_def)
        ultimately show ?thesis using l'(3) by blast
      qed
    qed
  qed
qed

lemma Dequeue_sound:
  assumes "queue_list store q xs"
  shows "\<exists>q'. Dequeue store q = Some (if xs = [] then 0 else hd xs, q') \<and> queue_list store q' (tl xs)"
proof (cases xs)
  case Nil
  then show ?thesis using assms by (auto simp: Dequeue_def queue_list_def)
next
  case (Cons x ys)
  then obtain m where m: "store x = Some m" "q_head q = x" "x \<noteq> 0" "chain store (msg_next m) ys" using assms by (auto simp: queue_list_def)
  then show ?thesis using Cons assms by (cases ys) (auto simp: Dequeue_def queue_list_def)
qed

lemma Length_loop_sound: "chain store p xs \<Longrightarrow> Length_loop store p n = Some (n + length xs)"
  by (induction xs arbitrary: p n) (auto simp: Length_loop.simps [of store])

lemma FindMessageById_loop_sound: "chain store p xs \<Longrightarrow> FindMessageById_loop store ident p = Some (if ident \<in> set xs then ident else 0)"
  by (induction xs arbitrary: p) (auto simp: FindMessageById_loop.simps [of store])

section \<open>First in, first out\<close>

fun enqueue_all :: "('s \<Rightarrow> 'q \<Rightarrow> nat \<Rightarrow> ('s \<times> 'q) option) \<Rightarrow> 's \<Rightarrow> 'q \<Rightarrow> nat list \<Rightarrow> ('s \<times> 'q) option" where
  "enqueue_all enq s q [] = Some (s, q)"
| "enqueue_all enq s q (m # ms) = do { (s, q) \<leftarrow> enq s q m; enqueue_all enq s q ms }"

fun dequeue_all :: "('s \<Rightarrow> 'q \<Rightarrow> (nat \<times> 'q) option) \<Rightarrow> 's \<Rightarrow> 'q \<Rightarrow> nat \<Rightarrow> (nat list \<times> 'q) option" where
  "dequeue_all deq s q 0 = Some ([], q)"
| "dequeue_all deq s q (Suc n) = do { (m, q) \<leftarrow> deq s q; (ms, q) \<leftarrow> dequeue_all deq s q n; Some (m # ms, q) }"

text \<open>The contract of a queue of messages that live in a store.\<close>

locale stored_queue =
  fixes holds :: "'s \<Rightarrow> 'q \<Rightarrow> nat list \<Rightarrow> bool"
    and free :: "'s \<Rightarrow> nat \<Rightarrow> bool"
    and enq :: "'s \<Rightarrow> 'q \<Rightarrow> nat \<Rightarrow> ('s \<times> 'q) option"
    and deq :: "'s \<Rightarrow> 'q \<Rightarrow> (nat \<times> 'q) option"
  assumes enq_law: "holds s q xs \<Longrightarrow> free s m \<Longrightarrow> m \<notin> set xs \<Longrightarrow>
      \<exists>s' q'. enq s q m = Some (s', q') \<and> holds s' q' (xs @ [m]) \<and> (\<forall>p. p \<notin> insert m (set xs) \<longrightarrow> free s p \<longrightarrow> free s' p)"
    and deq_law: "holds s q (x # xs) \<Longrightarrow> \<exists>q'. deq s q = Some (x, q') \<and> holds s q' xs"
begin

lemma enqueue_all_holds:
  assumes "holds s q xs" "distinct ms" "set ms \<inter> set xs = {}" "\<forall>m \<in> set ms. free s m"
  shows "\<exists>s' q'. enqueue_all enq s q ms = Some (s', q') \<and> holds s' q' (xs @ ms)"
  using assms
proof (induction ms arbitrary: s q xs)
  case (Cons m ms)
  then obtain s' q' where m: "enq s q m = Some (s', q')" "holds s' q' (xs @ [m])" "\<forall>p. p \<notin> insert m (set xs) \<longrightarrow> free s p \<longrightarrow> free s' p"
    using enq_law [OF Cons.prems(1), of m] by auto
  have "\<forall>x \<in> set ms. free s' x" using Cons.prems(2-4) m(3) by auto
  then show ?case using Cons.IH [OF m(2)] Cons.prems(2,3) m(1) by auto
qed simp

lemma dequeue_all_holds: "holds s q (xs @ ys) \<Longrightarrow> \<exists>q'. dequeue_all deq s q (length xs) = Some (xs, q') \<and> holds s q' ys"
proof (induction xs arbitrary: q)
  case (Cons x xs)
  then show ?case using deq_law [of s q x "xs @ ys"] by fastforce
qed simp

lemma fifo:
  assumes "holds s q xs" "distinct ms" "set ms \<inter> set xs = {}" "\<forall>m \<in> set ms. free s m"
  shows "\<exists>s' q' q''. enqueue_all enq s q ms = Some (s', q') \<and> dequeue_all deq s' q' (length xs + length ms) = Some (xs @ ms, q'') \<and> holds s' q'' []"
proof -
  obtain s' q' where s': "enqueue_all enq s q ms = Some (s', q')" "holds s' q' (xs @ ms)" using enqueue_all_holds [OF assms] by blast
  then show ?thesis using dequeue_all_holds [of s' q' "xs @ ms" "[]"] by auto
qed

end

lemma relinks_unlinked: "relinks X s t \<Longrightarrow> p \<notin> X \<Longrightarrow> unlinked t p = unlinked s p"
  by (auto simp: relinks_def unlinked_def)

interpretation mq: stored_queue queue_list unlinked "\<lambda>s q m. Enqueue s q m False" Dequeue
proof unfold_locales
  show "\<exists>s' q'. Enqueue s q m False = Some (s', q') \<and> queue_list s' q' (xs @ [m])
      \<and> (\<forall>p. p \<notin> insert m (set xs) \<longrightarrow> unlinked s p \<longrightarrow> unlinked s' p)"
    if "queue_list s q xs" "unlinked s m" "m \<notin> set xs" for s q xs m
    using Enqueue_sound [OF that, of False] relinks_unlinked by (fastforce simp: enqueued_def)
  show "\<exists>q'. Dequeue s q = Some (x, q') \<and> queue_list s q' xs" if "queue_list s q (x # xs)" for s q x xs
    using Dequeue_sound [OF that] by simp
qed

text \<open>C7: The linked message queue implements a list of messages. Enqueuing a message that is in no queue appends it, or, when it goes
  before pending events, puts it behind the control messages at the front and before everything else; it changes no message and no link outside
  of this queue. Dequeuing takes the first message or reports an empty queue, and length and search agree with the list.\<close>

theorem MessageQueue_refines_list:
  assumes "queue_list store q xs"
  shows "(\<forall>msg before_events. unlinked store msg \<longrightarrow> msg \<notin> set xs \<longrightarrow>
      (\<exists>store' q'. Enqueue store q msg before_events = Some (store', q')
        \<and> queue_list store' q' (if before_events then takeWhile (is_control store) xs @ msg # dropWhile (is_control store) xs else xs @ [msg])
        \<and> same_messages store store' \<and> (\<forall>p. p \<notin> insert msg (set xs) \<longrightarrow> store' p = store p)))
    \<and> (\<exists>q'. Dequeue store q = Some (if xs = [] then 0 else hd xs, q') \<and> queue_list store q' (tl xs))
    \<and> MessageQueue_Length store q = Some (length xs)
    \<and> (\<forall>p. FindMessageById store q p = Some (if p \<in> set xs then p else 0))"
proof (intro conjI allI impI)
  show "\<exists>store' q'. Enqueue store q msg b = Some (store', q')
        \<and> queue_list store' q' (if b then takeWhile (is_control store) xs @ msg # dropWhile (is_control store) xs else xs @ [msg])
        \<and> same_messages store store' \<and> (\<forall>p. p \<notin> insert msg (set xs) \<longrightarrow> store' p = store p)"
    if "unlinked store msg" "msg \<notin> set xs" for msg b
    using Enqueue_sound [OF assms that, of b] by (auto simp: enqueued_def relinks_def)
  show "MessageQueue_Length store q = Some (length xs)"
    using Length_loop_sound [OF queue_listD(1) [OF assms], of 0] by (simp add: MessageQueue_Length_def)
  show "FindMessageById store q p = Some (if p \<in> set xs then p else 0)" for p
    using FindMessageById_loop_sound [OF queue_listD(1) [OF assms]] by (simp add: FindMessageById_def)
qed (rule Dequeue_sound [OF assms])

text \<open>Four messages: a control message 7 and an event 8 in a queue, and two loose ones.\<close>

definition sample_message :: "nat \<Rightarrow> int \<Rightarrow> Message" where
  "sample_message nxt port = \<lparr>msg_next = nxt, dest_port = port, delivery_failure_port = 0, msg_data = [], msg_len = 0, priority = kNormalPriority\<rparr>"

definition sample_store :: message_store where
  "sample_store = [7 \<mapsto> sample_message 8 0, 8 \<mapsto> sample_message 0 5, 9 \<mapsto> sample_message 0 0, 10 \<mapsto> sample_message 0 6]"

theorem MessageQueue_refines_list_witness:
  "\<exists>store' q'. Enqueue sample_store \<lparr>q_head = 7, q_tail = 8\<rparr> 9 True = Some (store', q') \<and> queue_list store' q' [7, 9, 8]"
proof -
  have q: "queue_list sample_store \<lparr>q_head = 7, q_tail = 8\<rparr> [7, 8]" by (simp add: queue_list_def sample_store_def sample_message_def)
  have "unlinked sample_store 9" "(9::nat) \<notin> set [7, 8]" by (simp_all add: unlinked_def sample_store_def sample_message_def)
  then have "\<exists>store' q'. Enqueue sample_store \<lparr>q_head = 7, q_tail = 8\<rparr> 9 True = Some (store', q')
      \<and> queue_list store' q' (takeWhile (is_control sample_store) [7, 8] @ 9 # dropWhile (is_control sample_store) [7, 8])"
    using MessageQueue_refines_list [OF q, THEN conjunct1, THEN spec, of 9, THEN spec, of True] unfolding if_True by blast
  moreover have "is_control sample_store 7" "\<not> is_control sample_store 8" by (simp_all add: is_control_def sample_store_def sample_message_def)
  ultimately show ?thesis by simp
qed

text \<open>C34: Every message leaves the queue, in the order of arrival. Enqueuing some messages at the tail and then dequeuing as often as there are
  messages returns first those that were in the queue and then the new ones, each in order, and leaves the queue empty.\<close>

theorem MessageQueue_fifo:
  assumes "queue_list store q xs" "distinct ms" "set ms \<inter> set xs = {}" "\<forall>m \<in> set ms. unlinked store m"
  shows "\<exists>store' q' q''. enqueue_all (\<lambda>s q m. Enqueue s q m False) store q ms = Some (store', q')
    \<and> dequeue_all Dequeue store' q' (length xs + length ms) = Some (xs @ ms, q'') \<and> q_head q'' = 0"
  using mq.fifo [OF assms] by (auto simp: queue_list_def)

theorem MessageQueue_fifo_witness:
  "\<exists>store' q' q''. enqueue_all (\<lambda>s q m. Enqueue s q m False) sample_store \<lparr>q_head = 7, q_tail = 8\<rparr> [10, 9] = Some (store', q')
    \<and> dequeue_all Dequeue store' q' (length [7, 8 :: nat] + length [10, 9 :: nat]) = Some ([7, 8] @ [10, 9], q'') \<and> q_head q'' = 0"
  by (rule MessageQueue_fifo) (simp_all add: queue_list_def unlinked_def sample_store_def sample_message_def)

end
