(* ===== verification/Port_Map.thy ===== *)
theory Port_Map
  imports Probing "HOL-Library.Monad_Syntax" "HOL-Library.Signed_Division"
begin

unbundle bit_operations_syntax

text \<open>
  The table of ports, from \<^verbatim>\<open>vm/port.h\<close> and \<^verbatim>\<open>vm/port.cc\<close>, with the generator of port numbers from \<^verbatim>\<open>vm/random.cc\<close>. The table
  is an array searched by linear probing from the port number modulo the capacity; closing a port leaves a marker behind, and the
  table is rebuilt when it is too full or holds too many markers. A handler is known by a number. A search or a choice of a port number that
  does not end, and an access outside the table, give \<open>None\<close>. What opening and closing ports do to message handlers is in
  \<open>Message_Handler\<close>.
\<close>

section \<open>Port numbers\<close>

definition NextState :: "64 word \<Rightarrow> 64 word" where
  "NextState state =
     (let state_lo = state AND 0xffffffff;
          state_hi = drop_bit 32 state AND 0xffffffff
      in 0xffffda61 * state_lo + state_hi)"

definition NextUInt32 :: "64 word \<Rightarrow> u32 \<times> 64 word" where
  "NextUInt32 state = (let state = NextState state in (ucast (state AND 0xffffffff), state))"

section \<open>The table\<close>

datatype PortState = kNewPort | kLivePort | kControlPort

datatype MessageHandlerPtr = NullHandler | DeletedEntry | Handler nat

record PortEntry =
  pe_port :: int
  pe_handler :: MessageHandlerPtr
  pe_state :: PortState

record PortMap =
  pm_map :: "PortEntry list"
  pm_capacity :: nat
  pm_used :: int
  pm_deleted :: int
  pm_prng :: "64 word"

definition PortMap_InitOnce :: "64 word \<Rightarrow> PortMap" where
  "PortMap_InitOnce prng =
     \<lparr>pm_map = replicate 8 \<lparr>pe_port = 0, pe_handler = NullHandler, pe_state = kNewPort\<rparr>,
      pm_capacity = 8, pm_used = 0, pm_deleted = 0, pm_prng = prng\<rparr>"

definition next_index :: "nat \<Rightarrow> nat \<Rightarrow> nat" where
  "next_index n i = (i + 1) mod n"

definition FindPort :: "PortMap \<Rightarrow> int \<Rightarrow> int option" where
  "FindPort pm port =
     (if port = 0 then Some (- 1)
      else if port smod int (pm_capacity pm) < 0 then None
      else do {
        index \<leftarrow> probe_loop (\<lambda>entry. pe_handler entry = NullHandler \<or> pe_port entry = port) (next_index (pm_capacity pm))
          (pm_map pm) (nat (port smod int (pm_capacity pm)));
        Some (if pe_handler (pm_map pm ! index) = NullHandler then - 1 else int index) })"

fun Rehash_loop :: "nat \<Rightarrow> PortEntry list \<Rightarrow> PortEntry list \<Rightarrow> PortEntry list option" where
  "Rehash_loop new_capacity [] new_ports = Some new_ports"
| "Rehash_loop new_capacity (entry # rest) new_ports =
     (if pe_port entry \<noteq> 0 then do {
        new_index \<leftarrow> probe_loop (\<lambda>e. pe_port e = 0) (next_index new_capacity) new_ports (nat (pe_port entry smod int new_capacity));
        Rehash_loop new_capacity rest (new_ports[new_index := entry]) }
      else Rehash_loop new_capacity rest new_ports)"

definition Rehash :: "PortMap \<Rightarrow> nat \<Rightarrow> PortMap option" where
  "Rehash pm new_capacity = do {
     new_ports \<leftarrow> Rehash_loop new_capacity (take (pm_capacity pm) (pm_map pm))
       (replicate new_capacity \<lparr>pe_port = 0, pe_handler = NullHandler, pe_state = kNewPort\<rparr>);
     Some (pm\<lparr>pm_map := new_ports, pm_capacity := new_capacity, pm_deleted := 0\<rparr>) }"

partial_function (option) AllocatePort :: "PortMap \<Rightarrow> (int \<times> PortMap) option" where
  "AllocatePort pm =
     (let (bits, prng) = NextUInt32 (pm_prng pm);
          result = uint (bits AND 0x3fffffff);
          pm = pm\<lparr>pm_prng := prng\<rparr>
      in if result = 0 then AllocatePort pm
         else do {
           index \<leftarrow> FindPort pm result;
           if index \<ge> 0 then AllocatePort pm else Some (result, pm) })"

definition MaintainInvariants :: "PortMap \<Rightarrow> PortMap option" where
  "MaintainInvariants pm =
     (let empty = int (pm_capacity pm) - pm_used pm - pm_deleted pm
      in if pm_used pm > int (pm_capacity pm div 4 * 3) then Rehash pm (pm_capacity pm * 2)
         else if empty < pm_deleted pm then Rehash pm (pm_capacity pm)
         else Some pm)"

definition CreatePort :: "PortMap \<Rightarrow> nat \<Rightarrow> (int \<times> PortMap) option" where
  "CreatePort pm handler = do {
     (port, pm) \<leftarrow> AllocatePort pm;
     index \<leftarrow> probe_loop (\<lambda>cur. pe_port cur = 0) (next_index (pm_capacity pm)) (pm_map pm) (nat (port smod int (pm_capacity pm)));
     pm \<leftarrow> MaintainInvariants (pm
       \<lparr>pm_deleted := (if pe_handler (pm_map pm ! index) = DeletedEntry then pm_deleted pm - 1 else pm_deleted pm),
        pm_map := (pm_map pm)[index := \<lparr>pe_port = port, pe_handler = Handler handler, pe_state = kNewPort\<rparr>],
        pm_used := pm_used pm + 1\<rparr>);
     Some (port, pm) }"

text \<open>What \<open>ClosePort\<close> and \<open>ClosePorts\<close> do to the slot of a port.\<close>

definition close_slot :: "PortMap \<Rightarrow> nat \<Rightarrow> PortMap" where
  "close_slot pm index = pm
     \<lparr>pm_map := (pm_map pm)[index := (pm_map pm ! index)\<lparr>pe_port := 0, pe_handler := DeletedEntry\<rparr>],
      pm_used := pm_used pm - 1, pm_deleted := pm_deleted pm + 1\<rparr>"

section \<open>Invariant\<close>

definition pe_unused :: "PortEntry \<Rightarrow> bool" where
  "pe_unused e \<longleftrightarrow> pe_handler e = NullHandler"

definition pe_open :: "PortEntry \<Rightarrow> bool" where
  "pe_open e \<longleftrightarrow> pe_port e \<noteq> 0 \<and> pe_handler e \<noteq> NullHandler"

definition pe_home :: "nat \<Rightarrow> PortEntry \<Rightarrow> nat" where
  "pe_home n e = nat (pe_port e mod int n)"

definition pe_ok :: "PortEntry \<Rightarrow> bool" where
  "pe_ok e \<longleftrightarrow> 0 \<le> pe_port e \<and> pe_port e < 2 ^ 30 \<and> (pe_port e = 0 \<longleftrightarrow> pe_handler e = NullHandler \<or> pe_handler e = DeletedEntry)"

definition same_port :: "PortEntry \<Rightarrow> PortEntry \<Rightarrow> bool" where
  "same_port e e' \<longleftrightarrow> pe_port e = pe_port e'"

definition port_table :: "PortEntry list \<Rightarrow> bool" where
  "port_table a \<longleftrightarrow> (\<forall>e \<in> set a. pe_ok e) \<and> chained pe_unused pe_open pe_home a \<and> clash_free same_port (entries pe_open a)"

definition pm_table :: "PortMap \<Rightarrow> bool" where
  "pm_table pm \<longleftrightarrow> port_table (pm_map pm) \<and> length (pm_map pm) = pm_capacity pm \<and> 8 \<le> pm_capacity pm
     \<and> pm_used pm = int (size (entries pe_open (pm_map pm)))
     \<and> pm_deleted pm = int (length (filter (\<lambda>e. pe_handler e = DeletedEntry) (pm_map pm)))"

definition pm_inv :: "PortMap \<Rightarrow> bool" where
  "pm_inv pm \<longleftrightarrow> pm_table pm \<and> pm_used pm \<le> int (pm_capacity pm div 4 * 3)
     \<and> pm_deleted pm \<le> int (pm_capacity pm) - pm_used pm - pm_deleted pm"

definition open_ports :: "PortMap \<Rightarrow> int \<rightharpoonup> MessageHandlerPtr \<times> PortState" where
  "open_ports pm = map_of (map (\<lambda>e. (pe_port e, pe_handler e, pe_state e)) (filter pe_open (pm_map pm)))"

interpretation pt: probe_table "\<lambda>n. 0 < n" pe_unused pe_open pe_home next_index
  by unfold_locales (auto simp: pe_unused_def pe_open_def pe_home_def next_index_def nat_less_iff)

lemma smod_nonneg: "0 \<le> p \<Longrightarrow> 0 < (n::int) \<Longrightarrow> p smod n = p mod n"
  by (simp add: signed_modulo_int_def signed_divide_int_def sgn_if minus_div_mult_eq_mod)

lemma pe_open_iff: "pe_ok e \<Longrightarrow> pe_open e \<longleftrightarrow> pe_port e \<noteq> 0"
  by (auto simp: pe_ok_def pe_open_def)

lemma open_ports_iff:
  assumes "port_table (pm_map pm)"
  shows "open_ports pm p = Some v \<longleftrightarrow> (\<exists>e \<in># entries pe_open (pm_map pm). pe_port e = p \<and> v = (pe_handler e, pe_state e))"
proof -
  have u: "e = e'" if "e \<in># entries pe_open (pm_map pm)" "e' \<in># entries pe_open (pm_map pm)" "pe_port e = pe_port e'" for e e'
    using clash_free_unique [of same_port "entries pe_open (pm_map pm)" e e'] assms that by (auto simp: port_table_def same_port_def)
  have D: "\<exists>e \<in># entries pe_open (pm_map pm). pe_port e = p \<and> w = (pe_handler e, pe_state e)" if "open_ports pm p = Some w" for w
    using map_of_SomeD [OF that [unfolded open_ports_def]] by (auto simp: set_entries)
  show ?thesis
  proof (rule iffI [OF D])
    assume e: "\<exists>e \<in># entries pe_open (pm_map pm). pe_port e = p \<and> v = (pe_handler e, pe_state e)"
    then obtain w where w: "open_ports pm p = Some w"
      by (cases "open_ports pm p") (force simp: open_ports_def map_of_eq_None_iff set_entries)+
    from D [OF w] e u w show "open_ports pm p = Some v" by blast
  qed
qed

lemma open_ports_None:
  assumes "port_table (pm_map pm)"
  shows "open_ports pm p = None \<longleftrightarrow> (\<forall>e \<in># entries pe_open (pm_map pm). pe_port e \<noteq> p)"
  using open_ports_iff [OF assms, of p] by (cases "open_ports pm p") auto

lemma slot_counts:
  assumes "\<forall>e \<in> set a. pe_ok e"
  shows "length a = size (entries pe_open a) + length (filter (\<lambda>e. pe_handler e = DeletedEntry) a) + length (filter pe_unused a)"
  using assms
  by (induction a) (auto simp: pe_ok_def pe_open_def pe_unused_def split: if_splits)

lemma filter_slot:
  assumes "0 < length (filter P a)"
  obtains i where "i < length a" "P (a ! i)"
  using assms by (auto simp: filter_empty_conv in_set_conv_nth)

text \<open>Placing an entry in the first slot without a port.\<close>

lemma place_spec:
  assumes a: "port_table a" "0 < length a" "j < length a" "pe_port (a ! j) = 0"
    and e: "pe_ok e" "pe_port e \<noteq> 0" "\<And>x. x \<in># entries pe_open a \<Longrightarrow> pe_port x \<noteq> pe_port e"
  obtains p where "p < length a" "probe_loop (\<lambda>e. pe_port e = 0) (next_index (length a)) a (nat (pe_port e smod int (length a))) = Some p"
    "pe_port (a ! p) = 0" "port_table (a[p := e])" "entries pe_open (a[p := e]) = add_mset e (entries pe_open a)"
proof -
  have h: "nat (pe_port e smod int (length a)) = pe_home (length a) e" "pe_home (length a) e < length a"
    using e(1) a(2) pt.home_less [OF a(2)] by (auto simp: pe_home_def smod_nonneg pe_ok_def)
  obtain p where p: "p < length a" "probe_loop (\<lambda>e. pe_port e = 0) (next_index (length a)) a (pe_home (length a) e) = Some p"
    "pe_port (a ! p) = 0" "\<And>d. d < cdist (length a) (pe_home (length a) e) p \<Longrightarrow> pe_port (a ! ((pe_home (length a) e + d) mod length a)) \<noteq> 0"
    using probe_loop_finds [OF pt.step_mod [OF a(2)] h(2) a(3), of "\<lambda>e. pe_port e = 0"] a(4) by blast
  have ok: "pe_ok (a ! i)" if "i < length a" for i using a(1) that by (simp add: port_table_def)
  have "chained pe_unused pe_open pe_home (a[p := e])"
  proof (rule pt.chained_update)
    show "chained pe_unused pe_open pe_home a" using a(1) by (simp add: port_table_def)
    show "\<forall>c<length a. in_chain (length a) (pe_home (length a) e) p c \<longrightarrow> \<not> pe_unused (a ! c)"
    proof (intro allI impI)
      fix c assume c: "c < length a" "in_chain (length a) (pe_home (length a) e) p c"
      then have "pe_port (a ! c) \<noteq> 0" using p(4) [of "cdist (length a) (pe_home (length a) e) c"] add_cdist_mod [OF h(2) c(1)]
        by (simp add: in_chain_def)
      then show "\<not> pe_unused (a ! c)" using ok [OF c(1)] by (auto simp: pe_ok_def pe_unused_def)
    qed
  qed (use p e in \<open>auto simp: pe_ok_def pe_unused_def\<close>)
  moreover have ent: "entries pe_open (a[p := e]) = add_mset e (entries pe_open a)"
    using p(1,3) e(1,2) by (simp add: entries_update pe_open_iff) (simp add: pe_open_def)
  moreover have "clash_free same_port (entries pe_open (a[p := e]))"
    unfolding ent clash_free_add using a(1) e(3) unfolding port_table_def same_port_def by metis
  moreover have "\<forall>x \<in> set (a[p := e]). pe_ok x" using a(1) e(1) set_update_subset_insert [of a p e] by (auto simp: port_table_def)
  ultimately show thesis using that [OF p(1) _ p(3)] p(2) h(1) by (simp add: port_table_def)
qed

section \<open>The operations\<close>

lemma FindPort_spec:
  assumes "port_table (pm_map pm)" "length (pm_map pm) = pm_capacity pm" "0 < length (filter pe_unused (pm_map pm))" "0 \<le> port"
  shows "\<exists>i. FindPort pm port = Some i \<and>
    (if \<exists>e \<in># entries pe_open (pm_map pm). pe_port e = port
     then 0 \<le> i \<and> nat i < length (pm_map pm) \<and> pe_open (pm_map pm ! nat i) \<and> pe_port (pm_map pm ! nat i) = port else i = - 1)"
proof (cases "port = 0")
  case True
  then show ?thesis by (auto simp: FindPort_def set_entries pe_open_def)
next
  case False
  let ?a = "pm_map pm"
  obtain u where u: "u < length ?a" "pe_unused (?a ! u)" using filter_slot [OF assms(3)] .
  have n: "0 < length ?a" using u by auto
  have h: "port smod int (pm_capacity pm) = port mod int (length ?a)" "nat (port mod int (length ?a)) < length ?a"
    using n assms(2,4) by (auto simp: smod_nonneg nat_less_iff)
  have ch: "chained pe_unused pe_open pe_home ?a" using assms(1) by (simp add: port_table_def)
  have P: "pe_open s \<and> pe_home (length ?a) s = nat (port mod int (length ?a))" if "s \<in> set ?a" "pe_port s = port" for s
    using that False assms(1) by (auto simp: pe_home_def pe_open_iff port_table_def)
  obtain q where q: "q < length ?a" "pt.search (\<lambda>e. pe_port e = port) ?a (nat (port mod int (length ?a))) = Some q"
    "if \<exists>s \<in> set ?a. pe_port s = port then pe_port (?a ! q) = port else pe_unused (?a ! q)"
    by (rule pt.search_spec [where P = "\<lambda>e. pe_port e = port", OF n ch u P h(2)])
  have ex: "(\<exists>s \<in> set ?a. pe_port s = port) \<longleftrightarrow> (\<exists>e \<in># entries pe_open ?a. pe_port e = port)"
    using P by (auto simp: set_entries)
  have "FindPort pm port = Some (if pe_unused (?a ! q) then - 1 else int q)"
  proof -
    have "\<not> port mod int (length ?a) < 0" using pos_mod_sign [of "int (length ?a)" port] n by linarith
    then show ?thesis using q(2) False unfolding FindPort_def h(1) by (simp only: if_False assms(2) [symmetric] pe_unused_def) simp
  qed
  moreover have "\<not> pe_unused (?a ! q)" "pe_open (?a ! q)" if "pe_port (?a ! q) = port"
    using P [OF nth_mem [OF q(1)] that] pt.live_not_empty by auto
  ultimately show ?thesis using q(1,3) unfolding ex by auto
qed

lemma Rehash_loop_spec:
  assumes "port_table b" "0 < length b" "\<forall>e \<in> set b. pe_handler e \<noteq> DeletedEntry" "\<forall>e \<in> set a. pe_ok e"
    "clash_free same_port (entries pe_open a + entries pe_open b)" "size (entries pe_open a) + size (entries pe_open b) < length b"
  shows "\<exists>c. Rehash_loop (length b) a b = Some c \<and> port_table c \<and> length c = length b \<and> (\<forall>e \<in> set c. pe_handler e \<noteq> DeletedEntry)
    \<and> entries pe_open c = entries pe_open a + entries pe_open b"
  using assms
proof (induction a arbitrary: b)
  case Nil
  then show ?case by simp
next
  case (Cons e a)
  show ?case
  proof (cases "pe_port e = 0")
    case True
    then show ?thesis using Cons by (simp add: pe_open_def)
  next
    case False
    then have e: "pe_ok e" "pe_open e" using Cons.prems(4) by (auto simp: pe_open_iff)
    have "\<forall>x \<in> set b. pe_ok x" using Cons.prems(1) by (simp add: port_table_def)
    then have "0 < length (filter pe_unused b)"
      using slot_counts [of b] Cons.prems(3,6) e by (simp add: filter_empty_conv [THEN iffD2] del: length_greater_0_conv)
    then obtain j where j: "j < length b" "pe_unused (b ! j)" by (rule filter_slot)
    then have "pe_port (b ! j) = 0" using \<open>\<forall>x \<in> set b. pe_ok x\<close> by (simp add: pe_ok_def pe_unused_def)
    moreover have "pe_port x \<noteq> pe_port e" if "x \<in># entries pe_open b" for x
      using Cons.prems(5) that e by (auto simp: clash_free_add same_port_def)
    ultimately obtain p where p: "p < length b"
      "probe_loop (\<lambda>e. pe_port e = 0) (next_index (length b)) b (nat (pe_port e smod int (length b))) = Some p"
      "port_table (b[p := e])" "entries pe_open (b[p := e]) = add_mset e (entries pe_open b)"
      using place_spec [OF Cons.prems(1,2) j(1) _ e(1) False] by metis
    have "pe_handler e \<noteq> DeletedEntry" using e by (auto simp: pe_ok_def pe_open_def)
    then have "\<forall>x \<in> set (b[p := e]). pe_handler x \<noteq> DeletedEntry"
      using Cons.prems(3) set_update_subset_insert [of b p e] by auto
    then have "\<exists>c. Rehash_loop (length (b[p := e])) a (b[p := e]) = Some c \<and> port_table c \<and> length c = length (b[p := e])
      \<and> (\<forall>e \<in> set c. pe_handler e \<noteq> DeletedEntry) \<and> entries pe_open c = entries pe_open a + entries pe_open (b[p := e])"
      by (intro Cons.IH) (use Cons.prems p e in auto)
    then show ?thesis using p e False by auto
  qed
qed

lemma entries_unused: "entries pe_open (replicate n \<lparr>pe_port = 0, pe_handler = NullHandler, pe_state = kNewPort\<rparr>) = {#}"
  by (induction n) (auto simp: pe_open_def)

lemma port_table_unused: "port_table (replicate n \<lparr>pe_port = 0, pe_handler = NullHandler, pe_state = kNewPort\<rparr>)"
  by (auto simp: port_table_def entries_unused pe_ok_def pe_open_def intro!: pt.chained_no_live)

lemma Rehash_spec:
  assumes "pm_table pm" "pm_used pm < int n" "8 \<le> n"
  shows "\<exists>pm'. Rehash pm n = Some pm' \<and> pm_table pm' \<and> entries pe_open (pm_map pm') = entries pe_open (pm_map pm)
    \<and> pm_capacity pm' = n \<and> pm_deleted pm' = 0 \<and> pm_used pm' = pm_used pm \<and> pm_prng pm' = pm_prng pm"
proof -
  let ?b = "replicate n \<lparr>pe_port = 0, pe_handler = NullHandler, pe_state = kNewPort\<rparr>"
  have "\<exists>c. Rehash_loop (length ?b) (pm_map pm) ?b = Some c \<and> port_table c \<and> length c = length ?b \<and> (\<forall>e \<in> set c. pe_handler e \<noteq> DeletedEntry)
      \<and> entries pe_open c = entries pe_open (pm_map pm) + entries pe_open ?b"
    by (rule Rehash_loop_spec) (use assms port_table_unused in \<open>auto simp: pm_table_def port_table_def entries_unused\<close>)
  then obtain c where c: "Rehash_loop n (pm_map pm) ?b = Some c" "port_table c" "length c = n" "\<forall>e \<in> set c. pe_handler e \<noteq> DeletedEntry"
    "entries pe_open c = entries pe_open (pm_map pm)" by (auto simp: entries_unused)
  then show ?thesis using assms by (auto simp: Rehash_def pm_table_def filter_empty_conv)
qed

lemma quarter:
  assumes "8 \<le> (n::nat)"
  shows "n div 4 * 3 + 1 < n" "n div 4 * 3 + 1 \<le> n * 2 div 4 * 3"
proof -
  have "n = 4 * (n div 4) + n mod 4" "2 \<le> n div 4" using assms by auto
  then show "n div 4 * 3 + 1 < n" by linarith
  have "n div 4 * 2 \<le> n * 2 div 4" by linarith
  then show "n div 4 * 3 + 1 \<le> n * 2 div 4 * 3" using \<open>2 \<le> n div 4\<close> by linarith
qed

lemma MaintainInvariants_spec:
  assumes "pm_table pm" "pm_used pm \<le> int (pm_capacity pm div 4 * 3) + 1"
  shows "\<exists>pm'. MaintainInvariants pm = Some pm' \<and> pm_inv pm' \<and> entries pe_open (pm_map pm') = entries pe_open (pm_map pm)
    \<and> pm_prng pm' = pm_prng pm"
proof -
  have c: "8 \<le> pm_capacity pm" "0 \<le> pm_used pm" using assms(1) by (auto simp: pm_table_def)
  note q = quarter [OF c(1)]
  consider "pm_used pm > int (pm_capacity pm div 4 * 3)"
    | "pm_used pm \<le> int (pm_capacity pm div 4 * 3)" "int (pm_capacity pm) - pm_used pm - pm_deleted pm < pm_deleted pm"
    | "pm_used pm \<le> int (pm_capacity pm div 4 * 3)" "pm_deleted pm \<le> int (pm_capacity pm) - pm_used pm - pm_deleted pm" by linarith
  then show ?thesis
  proof cases
    case 1
    obtain pm' where "Rehash pm (pm_capacity pm * 2) = Some pm'" "pm_table pm'" "entries pe_open (pm_map pm') = entries pe_open (pm_map pm)"
      "pm_capacity pm' = pm_capacity pm * 2" "pm_deleted pm' = 0" "pm_used pm' = pm_used pm" "pm_prng pm' = pm_prng pm"
      using Rehash_spec [OF assms(1), of "pm_capacity pm * 2"] 1 assms(2) c q by auto
    moreover have "pm_used pm \<le> int (pm_capacity pm * 2 div 4 * 3)" "pm_used pm \<le> int (pm_capacity pm * 2)" using 1 assms(2) c q by linarith+
    ultimately show ?thesis using 1 by (simp add: MaintainInvariants_def pm_inv_def Let_def)
  next
    case 2
    obtain pm' where "Rehash pm (pm_capacity pm) = Some pm'" "pm_table pm'" "entries pe_open (pm_map pm') = entries pe_open (pm_map pm)"
      "pm_capacity pm' = pm_capacity pm" "pm_deleted pm' = 0" "pm_used pm' = pm_used pm" "pm_prng pm' = pm_prng pm"
      using Rehash_spec [OF assms(1), of "pm_capacity pm"] 2 assms(2) c q by auto
    moreover have "pm_used pm \<le> int (pm_capacity pm div 4 * 3)" "pm_used pm \<le> int (pm_capacity pm)" using 2 assms(2) c q by linarith+
    ultimately show ?thesis using 2 by (simp add: MaintainInvariants_def pm_inv_def Let_def)
  next
    case 3
    then show ?thesis using assms(1) by (auto simp: MaintainInvariants_def pm_inv_def)
  qed
qed

lemma pm_inv_free_slot:
  assumes "pm_inv pm"
  shows "0 < length (filter pe_unused (pm_map pm))"
proof -
  let ?o = "size (entries pe_open (pm_map pm))" and ?d = "length (filter (\<lambda>e. pe_handler e = DeletedEntry) (pm_map pm))"
  have n: "length (pm_map pm) = pm_capacity pm" "8 \<le> pm_capacity pm" "pm_used pm = int ?o" "pm_deleted pm = int ?d"
    "pm_used pm \<le> int (pm_capacity pm div 4 * 3)" "pm_deleted pm \<le> int (pm_capacity pm) - pm_used pm - pm_deleted pm"
    and s: "length (pm_map pm) = ?o + ?d + length (filter pe_unused (pm_map pm))"
    using assms slot_counts [of "pm_map pm"] by (auto simp: pm_inv_def pm_table_def port_table_def)
  then show ?thesis using quarter(1) [OF n(2)] by linarith
qed

lemma pm_inv_table: "pm_inv pm \<Longrightarrow> pm_table pm" "pm_table pm \<Longrightarrow> port_table (pm_map pm)"
  by (simp_all add: pm_inv_def pm_table_def)

lemma FindPort_inv:
  assumes "pm_inv pm" "0 \<le> p"
  obtains i where "FindPort pm p = Some i" "if open_ports pm p = None then i = - 1
    else 0 \<le> i \<and> nat i < length (pm_map pm) \<and> pe_open (pm_map pm ! nat i) \<and> pe_port (pm_map pm ! nat i) = p
      \<and> open_ports pm p = Some (pe_handler (pm_map pm ! nat i), pe_state (pm_map pm ! nat i))"
proof -
  note t = pm_inv_table(1) [OF assms(1)] pm_inv_table(2) [OF pm_inv_table(1) [OF assms(1)]]
  obtain i where i: "FindPort pm p = Some i" "if \<exists>e \<in># entries pe_open (pm_map pm). pe_port e = p
     then 0 \<le> i \<and> nat i < length (pm_map pm) \<and> pe_open (pm_map pm ! nat i) \<and> pe_port (pm_map pm ! nat i) = p else i = - 1"
    using FindPort_spec [OF t(2) _ pm_inv_free_slot [OF assms(1)] assms(2)] t(1) by (auto simp: pm_table_def)
  moreover have "open_ports pm p = Some (pe_handler (pm_map pm ! nat i), pe_state (pm_map pm ! nat i))"
    if "nat i < length (pm_map pm)" "pe_open (pm_map pm ! nat i)" "pe_port (pm_map pm ! nat i) = p"
    using that unfolding open_ports_iff [OF t(2)] by (intro bexI [of _ "pm_map pm ! nat i"]) (auto simp: set_entries)
  ultimately show ?thesis using open_ports_None [OF t(2), of p] by (intro that [OF i(1)]) auto
qed

lemma open_ports_cong: "pm_map pm = pm_map pm' \<Longrightarrow> open_ports pm = open_ports pm'"
  by (simp add: open_ports_def)

lemma open_ports_entries:
  assumes "port_table (pm_map pm)" "port_table (pm_map pm')" "entries pe_open (pm_map pm) = entries pe_open (pm_map pm')"
  shows "open_ports pm = open_ports pm'"
  by (intro ext option.expand) (metis assms open_ports_None, metis assms open_ports_iff option.collapse)

lemma pm_inv_prng [simp]: "pm_inv (pm\<lparr>pm_prng := g\<rparr>) = pm_inv pm" "open_ports (pm\<lparr>pm_prng := g\<rparr>) = open_ports pm"
  by (simp_all add: pm_inv_def pm_table_def open_ports_def)

lemma deleted_count: "length (filter (\<lambda>e. pe_handler e = DeletedEntry) a) = size (entries (\<lambda>e. pe_handler e = DeletedEntry) a)"
  by (simp add: size_entries)

lemma size_minus_one: "x \<in># M \<Longrightarrow> int (size (M - {#x#})) = int (size M) - 1"
  using size_Suc_Diff1 [of x M] by linarith

lemma close_slot_spec:
  assumes "pm_table pm" "i < length (pm_map pm)" "pe_open (pm_map pm ! i)"
  shows "pm_table (close_slot pm i)" "entries pe_open (pm_map (close_slot pm i)) = entries pe_open (pm_map pm) - {#pm_map pm ! i#}"
    "pm_used (close_slot pm i) = pm_used pm - 1" "pm_capacity (close_slot pm i) = pm_capacity pm"
proof -
  let ?a = "pm_map pm" and ?e = "(pm_map pm ! i)\<lparr>pe_port := 0, pe_handler := DeletedEntry\<rparr>"
  have ok: "pe_ok (?a ! i)" "?a ! i \<in># entries pe_open ?a" using assms by (auto simp: pm_table_def port_table_def set_entries)
  have ne: "\<not> pe_open ?e" "pe_ok ?e" "pe_handler (?a ! i) \<noteq> DeletedEntry" using ok(1) assms(3) by (auto simp: pe_open_def pe_ok_def)
  show ent: "entries pe_open (pm_map (close_slot pm i)) = entries pe_open ?a - {#?a ! i#}"
    using assms(2,3) ne by (simp add: close_slot_def entries_update)
  have "chained pe_unused pe_open pe_home (?a[i := ?e])"
    using assms(1,2) ne by (intro pt.chained_update) (auto simp: pm_table_def port_table_def pe_unused_def)
  moreover have "clash_free same_port (entries pe_open (pm_map (close_slot pm i)))"
    unfolding ent using assms(1) by (intro clash_free_diff) (simp add: pm_table_def port_table_def)
  moreover have "\<forall>x \<in> set (?a[i := ?e]). pe_ok x"
    using assms(1) ne(2) set_update_subset_insert [of ?a i ?e] by (auto simp: pm_table_def port_table_def)
  ultimately have "port_table (pm_map (close_slot pm i))" by (simp add: port_table_def close_slot_def)
  moreover have "length (filter (\<lambda>e. pe_handler e = DeletedEntry) (?a[i := ?e])) = Suc (length (filter (\<lambda>e. pe_handler e = DeletedEntry) ?a))"
    unfolding deleted_count using assms(2) ne by (simp add: entries_update)
  moreover have "int (size (entries pe_open ?a - {#?a ! i#})) = int (size (entries pe_open ?a)) - 1"
    using ok(2) by (rule size_minus_one)
  ultimately show "pm_table (close_slot pm i)" using assms(1) ent unfolding pm_table_def
    by (simp add: close_slot_def)
qed (simp_all add: close_slot_def)

lemma masked_bound: "uint (x AND 0x3fffffff :: u32) < 2 ^ 30"
proof -
  have "uint (x AND 0x3fffffff) = uint x AND 0x3fffffff" by (simp add: unsigned_and_eq)
  then show ?thesis using AND_upper2 [of "0x3fffffff" "uint x"] by simp
qed

lemma AllocatePort_sound:
  assumes "AllocatePort pm = Some r" "pm_inv pm"
  shows "\<exists>g. snd r = pm\<lparr>pm_prng := g\<rparr> \<and> 0 < fst r \<and> fst r < 2 ^ 30 \<and> open_ports pm (fst r) = None"
proof (rule AllocatePort.raw_induct [where P = "\<lambda>pm r. pm_inv pm \<longrightarrow> (\<exists>g. snd r = pm\<lparr>pm_prng := g\<rparr> \<and> 0 < fst r \<and> fst r < 2 ^ 30 \<and> open_ports pm (fst r) = None)",
      OF _ assms(1), THEN mp, OF _ assms(2)], intro impI, goal_cases)
  case (1 f pm r)
  obtain bits g where g: "NextUInt32 (pm_prng pm) = (bits, g)" by fastforce
  define p where "p = uint (bits AND 0x3fffffff)"
  have p: "0 \<le> p" "p < 2 ^ 30" using masked_bound by (simp_all add: p_def)
  let ?pm = "pm\<lparr>pm_prng := g\<rparr>"
  have inv: "pm_inv ?pm" using 1(3) by simp
  obtain i where i: "FindPort ?pm p = Some i" "i < 0 \<longleftrightarrow> open_ports ?pm p = None"
    by (rule FindPort_inv [OF inv p(1)]) (auto split: if_splits)
  have "r = (p, ?pm) \<and> p \<noteq> 0 \<and> open_ports pm p = None \<or> f ?pm = Some r"
    using 1(2) i g by (cases "open_ports pm p") (auto simp: Let_def simp flip: p_def split: if_splits)
  then show ?case
  proof
    assume "f ?pm = Some r"
    from 1(1) [OF this] inv show ?thesis by auto
  qed (use p in auto)
qed

text \<open>The port number the generator gives after some steps.\<close>

definition candidate :: "nat \<Rightarrow> 64 word \<Rightarrow> int" where
  "candidate n g = uint (fst (NextUInt32 ((NextState ^^ n) g)) AND 0x3fffffff)"

lemma AllocatePort_returns:
  assumes "pm_inv pm" "candidate n (pm_prng pm) \<noteq> 0" "open_ports pm (candidate n (pm_prng pm)) = None"
  shows "\<exists>r. AllocatePort pm = Some r"
  using assms
proof (induction n arbitrary: pm)
  case n: 0
  let ?pm = "pm\<lparr>pm_prng := NextState (pm_prng pm)\<rparr>"
  have inv: "pm_inv ?pm" using n(1) by simp
  have e: "NextUInt32 (pm_prng pm) = (fst (NextUInt32 (pm_prng pm)), NextState (pm_prng pm))" by (simp add: NextUInt32_def Let_def)
  have "0 \<le> candidate 0 (pm_prng pm)" by (simp add: candidate_def)
  then obtain i where "FindPort ?pm (candidate 0 (pm_prng pm)) = Some i" "i = - 1"
    by (rule FindPort_inv [OF inv]) (use n(3) in auto)
  then show ?case using n(2) by (subst AllocatePort.simps, subst e) (simp add: candidate_def Let_def)
next
  case (Suc n)
  let ?pm = "pm\<lparr>pm_prng := NextState (pm_prng pm)\<rparr>"
  define p where "p = candidate 0 (pm_prng pm)"
  have e: "NextUInt32 (pm_prng pm) = (fst (NextUInt32 (pm_prng pm)), NextState (pm_prng pm))" by (simp add: NextUInt32_def Let_def)
  have inv: "pm_inv ?pm" using Suc.prems(1) by simp
  have "0 \<le> p" by (simp add: p_def candidate_def)
  then obtain i where i: "FindPort ?pm p = Some i" by (rule FindPort_inv [OF inv])
  have "candidate (Suc n) (pm_prng pm) = candidate n (pm_prng ?pm)" by (simp add: candidate_def funpow_swap1)
  then have "\<exists>r. AllocatePort ?pm = Some r" using Suc.prems(2,3) by (intro Suc.IH [OF inv]) simp_all
  then show ?case using i by (subst AllocatePort.simps, subst e) (simp add: p_def candidate_def Let_def)
qed

lemma CreatePort_spec:
  assumes "pm_inv pm" "AllocatePort pm = Some (p, pm1)"
  shows "\<exists>pm'. CreatePort pm h = Some (p, pm') \<and> pm_inv pm' \<and> 0 < p \<and> p < 2 ^ 30 \<and> open_ports pm p = None
    \<and> open_ports pm' = (open_ports pm)(p \<mapsto> (Handler h, kNewPort))"
proof -
  obtain g where pm1: "pm1 = pm\<lparr>pm_prng := g\<rparr>" and p: "0 < p" "p < 2 ^ 30" "open_ports pm p = None"
    using AllocatePort_sound [OF assms(2,1)] by auto
  let ?e = "\<lparr>pe_port = p, pe_handler = Handler h, pe_state = kNewPort\<rparr>" and ?a = "pm_map pm"
  note t = pm_inv_table(1) [OF assms(1)] pm_inv_table(2) [OF pm_inv_table(1) [OF assms(1)]]
  have c: "length ?a = pm_capacity pm" "8 \<le> pm_capacity pm" "0 < length ?a" using t(1) by (auto simp: pm_table_def)
  obtain j where j: "j < length ?a" "pe_unused (?a ! j)" using pm_inv_free_slot [OF assms(1)] by (rule filter_slot)
  have j0: "pe_port (?a ! j) = 0" using j t(2) by (auto simp: port_table_def pe_ok_def pe_unused_def)
  have e: "pe_ok ?e" "pe_port ?e \<noteq> 0" using p by (simp_all add: pe_ok_def)
  obtain i where i: "i < length ?a" "probe_loop (\<lambda>e. pe_port e = 0) (next_index (length ?a)) ?a (nat (pe_port ?e smod int (length ?a))) = Some i"
    "pe_port (?a ! i) = 0" "port_table (?a[i := ?e])" "entries pe_open (?a[i := ?e]) = add_mset ?e (entries pe_open ?a)"
    by (rule place_spec [OF t(2) c(3) j(1) j0 e]) (use open_ports_None [OF t(2), of p] p in auto)
  define pm2 where "pm2 = pm1\<lparr>pm_deleted := (if pe_handler (?a ! i) = DeletedEntry then pm_deleted pm - 1 else pm_deleted pm),
        pm_map := ?a[i := ?e], pm_used := pm_used pm + 1\<rparr>"
  have "int (length (filter (\<lambda>e. pe_handler e = DeletedEntry) (?a[i := ?e])))
      = (if pe_handler (?a ! i) = DeletedEntry then pm_deleted pm - 1 else pm_deleted pm)"
  proof -
    have "?a ! i \<in># entries (\<lambda>e. pe_handler e = DeletedEntry) ?a" if "pe_handler (?a ! i) = DeletedEntry"
      using that i(1) by (simp add: set_entries)
    note size_minus_one [OF this]
    moreover have "pm_deleted pm = int (size (entries (\<lambda>e. pe_handler e = DeletedEntry) ?a))" using t(1) by (simp add: pm_table_def deleted_count)
    ultimately show ?thesis unfolding deleted_count using i(1) by (simp add: entries_update)
  qed
  then have t2: "pm_table pm2" using t(1) i c unfolding pm_table_def pm2_def pm1 by simp
  moreover have "pm_used pm2 \<le> int (pm_capacity pm2 div 4 * 3) + 1" using assms(1) by (simp add: pm2_def pm1 pm_inv_def)
  ultimately obtain pm' where pm': "MaintainInvariants pm2 = Some pm'" "pm_inv pm'" "entries pe_open (pm_map pm') = entries pe_open (pm_map pm2)"
    using MaintainInvariants_spec by blast
  have "CreatePort pm h = Some (p, pm')" using pm'(1) i(2) assms(2) unfolding CreatePort_def pm2_def pm1
    by (cases "pe_handler (?a ! i) = DeletedEntry") (simp_all add: c(1))
  moreover have "open_ports pm' = (open_ports pm)(p \<mapsto> (Handler h, kNewPort))"
  proof -
    have t': "port_table (pm_map pm')" using pm'(2) pm_inv_table by blast
    have ent: "entries pe_open (pm_map pm') = add_mset ?e (entries pe_open ?a)" using pm'(3) i(5) by (simp add: pm2_def)
    have *: "open_ports pm' q = Some v \<longleftrightarrow> ((open_ports pm)(p \<mapsto> (Handler h, kNewPort))) q = Some v" for q v
      using open_ports_None [OF t(2), of p] p(3) unfolding open_ports_iff [OF t'] ent
      by (auto simp: open_ports_iff [OF t(2)])
    show ?thesis by (intro ext) (metis * option.exhaust)
  qed
  ultimately show ?thesis using pm'(2) p by blast
qed

lemma InitOnce_inv: "pm_inv (PortMap_InitOnce g)" "open_ports (PortMap_InitOnce g) = Map.empty"
proof -
  show "pm_inv (PortMap_InitOnce g)"
    using port_table_unused [of 8] entries_unused [of 8] by (simp add: pm_inv_def pm_table_def PortMap_InitOnce_def)
  show "open_ports (PortMap_InitOnce g) = Map.empty" by (simp add: open_ports_def PortMap_InitOnce_def pe_open_def)
qed

section \<open>What the table guarantees\<close>

text \<open>C6: The port table implements a finite map from port numbers to handlers. It starts empty. Searching a port number that is not negative
  returns the slot of the port if it is open and -1 otherwise. Creating a port, whenever the choice of a number ends, gives a
  positive number below 2 to the 30 that was not open, adds it to the map as a new port of the handler, changes no other port, and keeps the
  invariant that makes every search end: among it, that at most three quarters of the slots hold ports and that there are at least as many
  unused slots as markers of closed ports.\<close>

theorem PortMap_refines_map:
  "(pm_inv (PortMap_InitOnce g) \<and> open_ports (PortMap_InitOnce g) = Map.empty)
   \<and> (pm_inv pm \<longrightarrow>
        (\<forall>p \<ge> 0. \<exists>i. FindPort pm p = Some i
          \<and> (case open_ports pm p of None \<Rightarrow> i = - 1
             | Some (h, s) \<Rightarrow> 0 \<le> i \<and> pe_handler (pm_map pm ! nat i) = h \<and> pe_state (pm_map pm ! nat i) = s \<and> pe_port (pm_map pm ! nat i) = p))
        \<and> (\<forall>p pm1 h. AllocatePort pm = Some (p, pm1) \<longrightarrow>
             (\<exists>pm'. CreatePort pm h = Some (p, pm') \<and> pm_inv pm' \<and> 0 < p \<and> p < 2 ^ 30 \<and> open_ports pm p = None
               \<and> open_ports pm' = (open_ports pm)(p \<mapsto> (Handler h, kNewPort)))))"
proof (intro conjI impI allI)
  show "pm_inv (PortMap_InitOnce g)" "open_ports (PortMap_InitOnce g) = Map.empty" by (rule InitOnce_inv)+
  show "\<exists>i. FindPort pm p = Some i \<and> (case open_ports pm p of None \<Rightarrow> i = - 1
      | Some (h, s) \<Rightarrow> 0 \<le> i \<and> pe_handler (pm_map pm ! nat i) = h \<and> pe_state (pm_map pm ! nat i) = s \<and> pe_port (pm_map pm ! nat i) = p)"
    if "pm_inv pm" "0 \<le> p" for p
    by (rule FindPort_inv [OF that]) (auto split: option.splits if_splits)
  show "\<exists>pm'. CreatePort pm h = Some (p, pm') \<and> pm_inv pm' \<and> 0 < p \<and> p < 2 ^ 30 \<and> open_ports pm p = None
      \<and> open_ports pm' = (open_ports pm)(p \<mapsto> (Handler h, kNewPort))"
    if "pm_inv pm" "AllocatePort pm = Some (p, pm1)" for p pm1 h
    using CreatePort_spec [OF that] .
qed

lemma AllocatePort_init: "AllocatePort (PortMap_InitOnce 1) = Some (0x3fffda61, PortMap_InitOnce 0xffffda61)"
proof -
  have "NextUInt32 1 = (0xffffda61, 0xffffda61)" by (simp add: NextUInt32_def NextState_def)
  moreover have "FindPort (PortMap_InitOnce 0xffffda61) 0x3fffda61 = Some (- 1)"
    by (simp add: FindPort_def PortMap_InitOnce_def signed_modulo_int_def signed_divide_int_def probe_loop.simps eval_nat_numeral)
  ultimately show ?thesis
    by (subst AllocatePort.simps) (simp add: PortMap_InitOnce_def Let_def)
qed

theorem PortMap_refines_map_witness:
  "\<exists>pm'. CreatePort (PortMap_InitOnce 1) 4 = Some (0x3fffda61, pm') \<and> pm_inv pm' \<and> open_ports pm' = [0x3fffda61 \<mapsto> (Handler 4, kNewPort)]"
  using PortMap_refines_map [of 1 "PortMap_InitOnce 1"] AllocatePort_init by fastforce

text \<open>C35: Opening a port succeeds as soon as the generator gives a number that is not zero and not open: however many numbers it gives before that
  are taken, the choice of a number ends and the port is created.\<close>

theorem CreatePort_returns:
  assumes "pm_inv pm" "candidate n (pm_prng pm) \<noteq> 0" "open_ports pm (candidate n (pm_prng pm)) = None"
  shows "\<exists>p pm'. CreatePort pm h = Some (p, pm') \<and> open_ports pm' p = Some (Handler h, kNewPort)"
proof -
  obtain r where "AllocatePort pm = Some r" using AllocatePort_returns [OF assms] by blast
  then show ?thesis using CreatePort_spec [OF assms(1), of "fst r" "snd r" h] by auto
qed

theorem CreatePort_returns_witness:
  "\<exists>p pm'. CreatePort (PortMap_InitOnce 1) 4 = Some (p, pm') \<and> open_ports pm' p = Some (Handler 4, kNewPort)"
proof (rule CreatePort_returns [where n = 0])
  show "pm_inv (PortMap_InitOnce 1)" by (rule InitOnce_inv)
  show "open_ports (PortMap_InitOnce 1) (candidate 0 (pm_prng (PortMap_InitOnce 1))) = None" by (simp add: InitOnce_inv)
  show "candidate 0 (pm_prng (PortMap_InitOnce 1)) \<noteq> 0"
    by (simp add: candidate_def NextUInt32_def NextState_def PortMap_InitOnce_def)
qed

text \<open>C36: A negative port number, which the embedder may pass, is not guarded against: unless it is a multiple of the capacity its
  remainder is negative, and the search reads in front of the table.\<close>

theorem FindPort_negative:
  assumes "p < 0" "\<not> int (pm_capacity pm) dvd p" "0 < pm_capacity pm"
  shows "p smod int (pm_capacity pm) < 0 \<and> FindPort pm p = None"
proof -
  have "p smod int (pm_capacity pm) = - (- p mod int (pm_capacity pm))"
    using assms by (simp add: signed_modulo_int_def signed_divide_int_def sgn_if)
  moreover have "0 < - p mod int (pm_capacity pm)"
    using assms pos_mod_sign [of "int (pm_capacity pm)" "- p"] by (metis dvd_eq_mod_eq_0 dvd_minus_iff of_nat_0_less_iff order_le_less)
  ultimately show ?thesis using assms(1) by (simp add: FindPort_def)
qed

theorem FindPort_negative_witness:
  "(- 1) smod int (pm_capacity (PortMap_InitOnce 1)) < 0 \<and> FindPort (PortMap_InitOnce 1) (- 1) = None"
  by (rule FindPort_negative) (simp_all add: PortMap_InitOnce_def)

text \<open>C37: The generator of port numbers is the multiply-with-carry step it is documented to be: the 64-bit product and sum never wrap around, so a
  step is exact arithmetic on the low and the high half of the state, and a state that is not zero never becomes zero.\<close>

theorem NextState_exact:
  "uint (NextState s) = 0xffffda61 * (uint s mod 2 ^ 32) + uint s div 2 ^ 32 \<and> (s \<noteq> 0 \<longrightarrow> NextState s \<noteq> 0)"
proof -
  define lo hi where "lo = uint s mod 2 ^ 32" and "hi = uint s div 2 ^ 32"
  have s: "0 \<le> uint s" "uint s < 2 ^ 64" using uint_lt2p [of s] by simp_all
  have b: "0 \<le> lo" "lo < 2 ^ 32" "0 \<le> hi" "hi < 2 ^ 32" "uint s = hi * 2 ^ 32 + lo"
    using s by (simp_all add: lo_def hi_def pos_imp_zdiv_nonneg_iff div_less_iff_less_mult)
  have m: "x AND 0xffffffff = x mod 2 ^ 32" for x :: int
    using take_bit_eq_mask [of 32 x] by (simp add: take_bit_eq_mod mask_eq_exp_minus_1)
  have l: "uint (s AND 0xffffffff) = lo" by (simp add: lo_def unsigned_and_eq m)
  have h: "uint (drop_bit 32 s AND 0xffffffff) = hi"
    using b(3,4) by (simp add: unsigned_and_eq m drop_bit_eq_div uint_div hi_def)
  have "0xffffda61 * lo \<le> 0xffffda61 * 0xffffffff" using b by (intro mult_left_mono) simp_all
  then have "0 \<le> 0xffffda61 * lo + hi" "0xffffda61 * lo + hi < 2 ^ 64" using b by simp_all
  then have e: "uint (NextState s) = 0xffffda61 * lo + hi"
    by (simp add: NextState_def Let_def uint_word_ariths l h mod_simps)
  moreover have "NextState s \<noteq> 0" if "s \<noteq> 0"
  proof
    assume "NextState s = 0"
    then have "lo = 0" "hi = 0" using e b(1,3) by simp_all
    then have "uint s = 0" using b(5) by simp
    then show False using that by (simp add: uint_0_iff)
  qed
  ultimately show ?thesis by (simp add: lo_def hi_def)
qed

theorem NextState_exact_witness:
  "uint (NextState 0xffffffffffffffff) = 0xffffda61 * (uint (0xffffffffffffffff :: 64 word) mod 2 ^ 32) + uint (0xffffffffffffffff :: 64 word) div 2 ^ 32
   \<and> NextState 0xffffffffffffffff \<noteq> 0"
  using NextState_exact [of "0xffffffffffffffff"] by simp

end
