(* ===== verification/Message_Handler.thy ===== *)
theory Message_Handler
  imports Message_Queue Port_Map
begin

text \<open>
  Message handlers and the delivery of messages to ports, from \<^verbatim>\<open>vm/message_handler.h\<close>, \<^verbatim>\<open>vm/message_handler.cc\<close>, the operations of
  \<^verbatim>\<open>vm/port.cc\<close> that involve handlers, and \<open>MessageQueue::Clear\<close> of \<^verbatim>\<open>vm/message.cc\<close>. The state is the store of messages, the
  handlers and the table of ports. Every operation runs under the lock of the port table or the monitor of the handler, so each is one step.
  The method \<open>HandleMessage\<close>, which every kind of handler provides, is a parameter; \<open>MessageNotify\<close> does nothing, as the
  class defines it.
\<close>

section \<open>Handlers\<close>

record MessageHandler =
  mh_queue :: MessageQueue
  mh_oob_queue :: MessageQueue
  oob_message_handling_allowed :: bool
  live_ports :: int
  mh_paused :: int
  mh_pool :: bool
  mh_task :: bool
  OwnedByPortMap :: bool

record VM =
  vm_store :: message_store
  vm_handlers :: "nat \<Rightarrow> MessageHandler option"
  vm_ports :: PortMap

text \<open>A new handler. Whether the port table owns it depends on its class.\<close>

definition MessageHandler_new :: "bool \<Rightarrow> MessageHandler" where
  "MessageHandler_new owned =
     \<lparr>mh_queue = MessageQueue_new, mh_oob_queue = MessageQueue_new, oob_message_handling_allowed = True, live_ports = 0, mh_paused = 0,
      mh_pool = False, mh_task = False, OwnedByPortMap = owned\<rparr>"

definition set_handler :: "('a VM_scheme) \<Rightarrow> nat \<Rightarrow> MessageHandler \<Rightarrow> 'a VM_scheme" where
  "set_handler vm handler mh = vm\<lparr>vm_handlers := (vm_handlers vm)(handler \<mapsto> mh)\<rparr>"

definition MessageHandler_PostMessage :: "'a VM_scheme \<Rightarrow> nat \<Rightarrow> nat \<Rightarrow> bool \<Rightarrow> 'a VM_scheme option" where
  "MessageHandler_PostMessage vm handler msg before_events = do {
     mh \<leftarrow> vm_handlers vm handler;
     m \<leftarrow> vm_store vm msg;
     (store, mh) \<leftarrow> (if priority m = kOOBPriority
       then map_option (\<lambda>(store, q). (store, mh\<lparr>mh_oob_queue := q\<rparr>)) (Enqueue (vm_store vm) (mh_oob_queue mh) msg before_events)
       else map_option (\<lambda>(store, q). (store, mh\<lparr>mh_queue := q\<rparr>)) (Enqueue (vm_store vm) (mh_queue mh) msg before_events));
     Some (set_handler (vm\<lparr>vm_store := store\<rparr>) handler (if mh_pool mh \<and> \<not> mh_task mh then mh\<lparr>mh_task := True\<rparr> else mh)) }"

text \<open>The destructor asserts that a deleted message has no delivery failure port; the release build deletes it all the same.\<close>

definition PortMap_PostMessage :: "'a VM_scheme \<Rightarrow> nat \<Rightarrow> (bool \<times> 'a VM_scheme) option" where
  "PortMap_PostMessage vm msg = do {
     m \<leftarrow> vm_store vm msg;
     index \<leftarrow> FindPort (vm_ports vm) (dest_port m);
     if index < 0 then Some (False, vm\<lparr>vm_store := (vm_store vm)(msg := None)\<rparr>)
     else case pe_handler (pm_map (vm_ports vm) ! nat index) of
         Handler handler \<Rightarrow> map_option (\<lambda>vm. (True, vm)) (MessageHandler_PostMessage vm handler msg False)
       | _ \<Rightarrow> None }"

section \<open>Clearing queues and closing ports\<close>

partial_function (option) Clear_loop :: "'a VM_scheme \<Rightarrow> nat \<Rightarrow> 'a VM_scheme option" where
  "Clear_loop vm cur =
     (if cur \<noteq> 0 then do {
        m \<leftarrow> vm_store vm cur;
        vm \<leftarrow> (case RedirectToDeliveryFailurePort m of
            (True, m') \<Rightarrow> map_option snd (PortMap_PostMessage (vm\<lparr>vm_store := (vm_store vm)(cur \<mapsto> m')\<rparr>) cur)
          | (False, m') \<Rightarrow> Some (vm\<lparr>vm_store := (vm_store vm)(cur := None)\<rparr>));
        Clear_loop vm (msg_next m) }
      else Some vm)"

text \<open>\<open>Clear\<close> of one of the two queues of a handler.\<close>

definition Clear_queue :: "'a VM_scheme \<Rightarrow> nat \<Rightarrow> bool \<Rightarrow> 'a VM_scheme option" where
  "Clear_queue vm handler oob = do {
     mh \<leftarrow> vm_handlers vm handler;
     if oob then Clear_loop (set_handler vm handler (mh\<lparr>mh_oob_queue := MessageQueue_new\<rparr>)) (q_head (mh_oob_queue mh))
     else Clear_loop (set_handler vm handler (mh\<lparr>mh_queue := MessageQueue_new\<rparr>)) (q_head (mh_queue mh)) }"

definition CloseAllPorts :: "'a VM_scheme \<Rightarrow> nat \<Rightarrow> 'a VM_scheme option" where
  "CloseAllPorts vm handler = do {
     vm \<leftarrow> Clear_queue vm handler False;
     Clear_queue vm handler True }"

definition add_live_ports :: "'a VM_scheme \<Rightarrow> nat \<Rightarrow> int \<Rightarrow> 'a VM_scheme option" where
  "add_live_ports vm handler n = map_option (\<lambda>mh. set_handler vm handler (mh\<lparr>live_ports := live_ports mh + n\<rparr>)) (vm_handlers vm handler)"

definition SetPortState :: "'a VM_scheme \<Rightarrow> int \<Rightarrow> PortState \<Rightarrow> 'a VM_scheme option" where
  "SetPortState vm port state = do {
     index \<leftarrow> FindPort (vm_ports vm) port;
     if index < 0 then None
     else let pm = vm_ports vm;
              entry = pm_map pm ! nat index;
              vm = vm\<lparr>vm_ports := pm\<lparr>pm_map := (pm_map pm)[nat index := entry\<lparr>pe_state := state\<rparr>]\<rparr>\<rparr>
          in if state = kLivePort
             then case pe_handler entry of Handler handler \<Rightarrow> add_live_ports vm handler 1 | _ \<Rightarrow> None
             else Some vm }"

text \<open>Deleting a handler clears its queues.\<close>

definition delete_handler :: "'a VM_scheme \<Rightarrow> nat \<Rightarrow> 'a VM_scheme option" where
  "delete_handler vm handler = do {
     vm \<leftarrow> Clear_queue vm handler False;
     vm \<leftarrow> Clear_queue vm handler True;
     Some (vm\<lparr>vm_handlers := (vm_handlers vm)(handler := None)\<rparr>) }"

definition ClosePort :: "'a VM_scheme \<Rightarrow> int \<Rightarrow> (bool \<times> 'a VM_scheme) option" where
  "ClosePort vm port = do {
     index \<leftarrow> FindPort (vm_ports vm) port;
     if index < 0 then Some (False, vm)
     else let entry = pm_map (vm_ports vm) ! nat index
          in case pe_handler entry of
               Handler handler \<Rightarrow> do {
                 vm' \<leftarrow> (if pe_state entry = kLivePort then add_live_ports vm handler (- 1) else Some vm);
                 pm \<leftarrow> MaintainInvariants (close_slot (vm_ports vm) (nat index));
                 let vm'' = vm'\<lparr>vm_ports := pm\<rparr>;
                 mh \<leftarrow> vm_handlers vm'' handler;
                 if live_ports mh \<le> 0 \<and> OwnedByPortMap mh then map_option (\<lambda>vm. (True, vm)) (delete_handler vm'' handler)
                 else Some (True, vm'') }
             | _ \<Rightarrow> None }"

fun ClosePorts_loop :: "nat \<Rightarrow> nat list \<Rightarrow> PortMap \<times> int \<Rightarrow> PortMap \<times> int" where
  "ClosePorts_loop handler [] (pm, live) = (pm, live)"
| "ClosePorts_loop handler (i # rest) (pm, live) =
     (if pe_handler (pm_map pm ! i) = Handler handler
      then ClosePorts_loop handler rest (close_slot pm i, if pe_state (pm_map pm ! i) = kLivePort then live - 1 else live)
      else ClosePorts_loop handler rest (pm, live))"

definition ClosePorts :: "'a VM_scheme \<Rightarrow> nat \<Rightarrow> 'a VM_scheme option" where
  "ClosePorts vm handler = do {
     mh \<leftarrow> vm_handlers vm handler;
     let (pm, live) = ClosePorts_loop handler [0..<pm_capacity (vm_ports vm)] (vm_ports vm, live_ports mh);
     pm \<leftarrow> MaintainInvariants pm;
     CloseAllPorts (set_handler (vm\<lparr>vm_ports := pm\<rparr>) handler (mh\<lparr>live_ports := live\<rparr>)) handler }"

section \<open>Handling messages\<close>

definition DequeueMessage :: "'a VM_scheme \<Rightarrow> nat \<Rightarrow> Priority \<Rightarrow> (nat \<times> 'a VM_scheme) option" where
  "DequeueMessage vm handler min_priority = do {
     mh \<leftarrow> vm_handlers vm handler;
     (message, q) \<leftarrow> Dequeue (vm_store vm) (mh_oob_queue mh);
     let mh = mh\<lparr>mh_oob_queue := q\<rparr>;
     if message = 0 \<and> min_priority = kNormalPriority then do {
       (message, q) \<leftarrow> Dequeue (vm_store vm) (mh_queue mh);
       Some (message, set_handler vm handler (mh\<lparr>mh_queue := q\<rparr>)) }
     else Some (message, set_handler vm handler mh) }"

definition min_priority :: "'a VM_scheme \<Rightarrow> nat \<Rightarrow> bool \<Rightarrow> Priority option" where
  "min_priority vm handler allow_normal_messages =
     map_option (\<lambda>mh. if allow_normal_messages \<and> \<not> mh_paused mh > 0 then kNormalPriority else kOOBPriority) (vm_handlers vm handler)"

partial_function (option) HandleMessages_loop :: "('a VM_scheme \<Rightarrow> nat \<Rightarrow> nat \<Rightarrow> (bool \<times> 'a VM_scheme) option)
    \<Rightarrow> nat \<Rightarrow> bool \<Rightarrow> bool \<Rightarrow> 'a VM_scheme \<Rightarrow> nat \<Rightarrow> (bool \<times> 'a VM_scheme) option" where
  "HandleMessages_loop HandleMessage handler allow_normal_messages allow_multiple_normal_messages vm message =
     (if message \<noteq> 0 then do {
        m \<leftarrow> vm_store vm message;
        (result, vm) \<leftarrow> HandleMessage vm handler message;
        if \<not> result then Some (False, vm)
        else if priority m = kNormalPriority \<and> \<not> allow_multiple_normal_messages then Some (True, vm)
        else do {
          mp \<leftarrow> min_priority vm handler allow_normal_messages;
          (message, vm) \<leftarrow> DequeueMessage vm handler mp;
          HandleMessages_loop HandleMessage handler allow_normal_messages allow_multiple_normal_messages vm message } }
      else Some (True, vm))"

definition HandleMessages :: "('a VM_scheme \<Rightarrow> nat \<Rightarrow> nat \<Rightarrow> (bool \<times> 'a VM_scheme) option)
    \<Rightarrow> nat \<Rightarrow> bool \<Rightarrow> bool \<Rightarrow> 'a VM_scheme \<Rightarrow> (bool \<times> 'a VM_scheme) option" where
  "HandleMessages HandleMessage handler allow_normal_messages allow_multiple_normal_messages vm = do {
     mp \<leftarrow> min_priority vm handler allow_normal_messages;
     (message, vm) \<leftarrow> DequeueMessage vm handler mp;
     HandleMessages_loop HandleMessage handler allow_normal_messages allow_multiple_normal_messages vm message }"

definition HandleNextMessage :: "('a VM_scheme \<Rightarrow> nat \<Rightarrow> nat \<Rightarrow> (bool \<times> 'a VM_scheme) option) \<Rightarrow> nat \<Rightarrow> 'a VM_scheme \<Rightarrow> (bool \<times> 'a VM_scheme) option" where
  "HandleNextMessage HandleMessage handler vm = HandleMessages HandleMessage handler True False vm"

definition HandleOOBMessages :: "('a VM_scheme \<Rightarrow> nat \<Rightarrow> nat \<Rightarrow> (bool \<times> 'a VM_scheme) option) \<Rightarrow> nat \<Rightarrow> 'a VM_scheme \<Rightarrow> (bool \<times> 'a VM_scheme) option" where
  "HandleOOBMessages HandleMessage handler vm = do {
     mh \<leftarrow> vm_handlers vm handler;
     if \<not> oob_message_handling_allowed mh then Some (True, vm)
     else HandleMessages HandleMessage handler False False vm }"

end
