(* ===== verification/Message_Delivery.thy ===== *)
theory Message_Delivery
  imports Message_Handler
begin

text \<open>
  What the message handlers and the port table guarantee together: where a posted message goes, in which order messages are handled, what
  clearing a queue does to its messages, and that the count of live ports of a handler is right.
\<close>

section \<open>Delivery\<close>

text \<open>The two queues of a handler as lists.\<close>

definition mh_lists :: "message_store \<Rightarrow> MessageHandler \<Rightarrow> nat list \<Rightarrow> nat list \<Rightarrow> bool" where
  "mh_lists store mh os ns \<longleftrightarrow> queue_list store (mh_oob_queue mh) os \<and> queue_list store (mh_queue mh) ns \<and> set os \<inter> set ns = {}"

lemma queue_list_cong:
  assumes "\<And>p. p \<in> set xs \<Longrightarrow> s p = t p"
  shows "queue_list s q xs = queue_list t q xs"
  using chain_cong [of xs s t] assms by (simp add: queue_list_def)

lemma mh_lists_cong: "(\<And>p. p \<in> set os \<union> set ns \<Longrightarrow> s p = t p) \<Longrightarrow> mh_lists s mh os ns = mh_lists t mh os ns"
  unfolding mh_lists_def by (intro arg_cong2 [of _ _ _ _ "(\<and>)"] queue_list_cong refl) auto

lemma mh_lists_simps [simp]:
  "mh_lists store (mh\<lparr>mh_task := b\<rparr>) os ns = mh_lists store mh os ns"
  "mh_lists store (mh\<lparr>live_ports := n\<rparr>) os ns = mh_lists store mh os ns"
  by (simp_all add: mh_lists_def)

lemma relinks_queue_list: "relinks X s t \<Longrightarrow> set xs \<inter> X = {} \<Longrightarrow> queue_list t q xs = queue_list s q xs"
  by (rule queue_list_cong) (auto simp: relinks_def)

text \<open>The handler after a message was posted to it.\<close>

lemma MessageHandler_PostMessage_spec:
  assumes "vm_handlers vm h = Some mh" "mh_lists (vm_store vm) mh os ns" "vm_store vm msg = Some m" "unlinked (vm_store vm) msg"
    "msg \<notin> set os \<union> set ns"
  shows "\<exists>store mh'. MessageHandler_PostMessage vm h msg False = Some (vm\<lparr>vm_store := store, vm_handlers := (vm_handlers vm)(h \<mapsto> mh')\<rparr>)
    \<and> mh_lists store mh' (if priority m = kOOBPriority then os @ [msg] else os) (if priority m = kOOBPriority then ns else ns @ [msg])
    \<and> mh_task mh' = (mh_task mh \<or> mh_pool mh) \<and> live_ports mh' = live_ports mh \<and> OwnedByPortMap mh' = OwnedByPortMap mh \<and> mh_paused mh' = mh_paused mh
    \<and> relinks (insert msg (set os \<union> set ns)) (vm_store vm) store"
proof (cases "priority m = kOOBPriority")
  case True
  obtain store q where q: "Enqueue (vm_store vm) (mh_oob_queue mh) msg False = Some (store, q)" "queue_list store q (os @ [msg])"
    "relinks (insert msg (set os)) (vm_store vm) store"
    using Enqueue_sound [of "vm_store vm" "mh_oob_queue mh" os msg False] assms by (auto simp: mh_lists_def enqueued_def)
  have "queue_list store (mh_queue mh) ns"
    using relinks_queue_list [OF q(3), of ns] assms(2,5) by (auto simp: mh_lists_def)
  moreover have "relinks (insert msg (set os \<union> set ns)) (vm_store vm) store" using q(3) by (rule relinks_mono) auto
  moreover define mh' where "mh' = (if mh_pool mh \<and> \<not> mh_task mh then mh\<lparr>mh_oob_queue := q, mh_task := True\<rparr> else mh\<lparr>mh_oob_queue := q\<rparr>)"
  moreover have "MessageHandler_PostMessage vm h msg False = Some (vm\<lparr>vm_store := store, vm_handlers := (vm_handlers vm)(h \<mapsto> mh')\<rparr>)"
    using q(1) True assms(1,3) by (simp add: MessageHandler_PostMessage_def set_handler_def mh'_def)
  ultimately show ?thesis using q(2) True assms(2,5) by (intro exI [of _ store] exI [of _ mh']) (auto simp: mh_lists_def)
next
  case False
  obtain store q where q: "Enqueue (vm_store vm) (mh_queue mh) msg False = Some (store, q)" "queue_list store q (ns @ [msg])"
    "relinks (insert msg (set ns)) (vm_store vm) store"
    using Enqueue_sound [of "vm_store vm" "mh_queue mh" ns msg False] assms by (auto simp: mh_lists_def enqueued_def)
  have "queue_list store (mh_oob_queue mh) os"
    using relinks_queue_list [OF q(3), of os] assms(2,5) by (auto simp: mh_lists_def)
  moreover have "relinks (insert msg (set os \<union> set ns)) (vm_store vm) store" using q(3) by (rule relinks_mono) auto
  moreover define mh' where "mh' = (if mh_pool mh \<and> \<not> mh_task mh then mh\<lparr>mh_queue := q, mh_task := True\<rparr> else mh\<lparr>mh_queue := q\<rparr>)"
  moreover have "MessageHandler_PostMessage vm h msg False = Some (vm\<lparr>vm_store := store, vm_handlers := (vm_handlers vm)(h \<mapsto> mh')\<rparr>)"
    using q(1) False assms(1,3) by (simp add: MessageHandler_PostMessage_def set_handler_def mh'_def)
  ultimately show ?thesis using q(2) False assms(2,5) by (intro exI [of _ store] exI [of _ mh']) (auto simp: mh_lists_def)
qed

lemma FindPort_open:
  assumes "pm_inv pm" "0 \<le> p" "open_ports pm p = Some (h, s)"
  obtains i where "FindPort pm p = Some i" "0 \<le> i" "nat i < length (pm_map pm)" "pe_open (pm_map pm ! nat i)"
    "pe_handler (pm_map pm ! nat i) = h" "pe_state (pm_map pm ! nat i) = s" "pe_port (pm_map pm ! nat i) = p"
  by (rule FindPort_inv [OF assms(1,2)]) (use assms(3) that in auto)

lemma FindPort_closed: "pm_inv pm \<Longrightarrow> 0 \<le> p \<Longrightarrow> open_ports pm p = None \<Longrightarrow> FindPort pm p = Some (- 1)"
  by (rule FindPort_inv) auto

section \<open>The order of handling\<close>

record LoggedVM = VM +
  vm_log :: "nat list"

text \<open>A method \<open>HandleMessage\<close> that disposes of the message, notes it, and reports success as \<open>ok\<close> says.\<close>

definition disposes :: "(nat \<Rightarrow> bool) \<Rightarrow> LoggedVM \<Rightarrow> nat \<Rightarrow> nat \<Rightarrow> (bool \<times> LoggedVM) option" where
  "disposes ok vm handler msg = Some (ok msg, vm\<lparr>vm_store := (vm_store vm)(msg := None), vm_log := vm_log vm @ [msg]\<rparr>)"

fun upto_failure :: "(nat \<Rightarrow> bool) \<Rightarrow> nat list \<Rightarrow> nat list" where
  "upto_failure ok [] = []"
| "upto_failure ok (x # xs) = x # (if ok x then upto_failure ok xs else [])"

lemma HandleMessages_unfold:
  "HandleMessages f h an am vm = do {
     mp \<leftarrow> min_priority vm h an;
     (message, vm) \<leftarrow> DequeueMessage vm h mp;
     if message \<noteq> 0 then do {
        m \<leftarrow> vm_store vm message;
        (result, vm) \<leftarrow> f vm h message;
        if \<not> result then Some (False, vm)
        else if priority m = kNormalPriority \<and> \<not> am then Some (True, vm)
        else HandleMessages f h an am vm }
     else Some (True, vm) }"
  by (subst HandleMessages_def, subst HandleMessages_loop.simps) (simp add: HandleMessages_def cong: if_cong)

lemma DequeueMessage_oob:
  assumes "vm_handlers vm h = Some mh" "mh_lists (vm_store vm) mh (x # os) ns"
  shows "\<exists>mh'. DequeueMessage vm h mp = Some (x, set_handler vm h mh') \<and> mh_lists (vm_store vm) mh' os ns \<and> mh_paused mh' = mh_paused mh"
proof -
  obtain q where q: "Dequeue (vm_store vm) (mh_oob_queue mh) = Some (x, q)" "queue_list (vm_store vm) q os"
    using mq.deq_law [of "vm_store vm" "mh_oob_queue mh" x os] assms(2) by (auto simp: mh_lists_def)
  have "x \<noteq> 0" using assms(2) by (auto simp: mh_lists_def queue_list_def)
  then show ?thesis using q assms by (auto simp: DequeueMessage_def mh_lists_def)
qed

lemma DequeueMessage_normal:
  assumes "vm_handlers vm h = Some mh" "mh_lists (vm_store vm) mh [] ns"
  shows "\<exists>mh'. DequeueMessage vm h mp = Some (if ns = [] \<or> mp \<noteq> kNormalPriority then 0 else hd ns, set_handler vm h mh')
    \<and> mh_lists (vm_store vm) mh' [] (if mp \<noteq> kNormalPriority then ns else tl ns) \<and> mh_paused mh' = mh_paused mh"
proof -
  obtain q where q: "Dequeue (vm_store vm) (mh_oob_queue mh) = Some (0, q)" "queue_list (vm_store vm) q []"
    using Dequeue_sound [of "vm_store vm" "mh_oob_queue mh" "[]"] assms(2) by (auto simp: mh_lists_def)
  obtain q' where q': "Dequeue (vm_store vm) (mh_queue mh) = Some (if ns = [] then 0 else hd ns, q')" "queue_list (vm_store vm) q' (tl ns)"
    using Dequeue_sound [of "vm_store vm" "mh_queue mh" ns] assms(2) by (auto simp: mh_lists_def)
  show ?thesis using q q' assms by (cases mp) (auto simp: DequeueMessage_def mh_lists_def)
qed

definition queued_as :: "message_store \<Rightarrow> Priority \<Rightarrow> nat list \<Rightarrow> bool" where
  "queued_as store p xs \<longleftrightarrow> (\<forall>x \<in> set xs. \<exists>m. store x = Some m \<and> priority m = p)"

text \<open>The messages a call is to handle, when all succeed.\<close>

definition to_handle :: "bool \<Rightarrow> bool \<Rightarrow> MessageHandler \<Rightarrow> nat list \<Rightarrow> nat list \<Rightarrow> nat list" where
  "to_handle allow_normal_messages allow_multiple_normal_messages mh os ns =
     os @ (if allow_normal_messages \<and> \<not> mh_paused mh > 0 then if allow_multiple_normal_messages then ns else take 1 ns else [])"

definition disposed :: "LoggedVM \<Rightarrow> nat \<Rightarrow> MessageHandler \<Rightarrow> nat \<Rightarrow> LoggedVM" where
  "disposed vm h mh x = (set_handler vm h mh)\<lparr>vm_store := (vm_store vm)(x := None), vm_log := vm_log vm @ [x]\<rparr>"

lemma disposed_simps [simp]:
  "vm_store (disposed vm h mh x) = (vm_store vm)(x := None)" "vm_log (disposed vm h mh x) = vm_log vm @ [x]"
  "vm_handlers (disposed vm h mh x) = (vm_handlers vm)(h \<mapsto> mh)"
  by (simp_all add: disposed_def set_handler_def)

lemma HandleMessages_step:
  assumes "min_priority vm h an = Some mp" "DequeueMessage vm h mp = Some (x, set_handler vm h mh)" "x \<noteq> 0" "vm_store vm x = Some m"
  shows "HandleMessages (disposes ok) h an am vm =
    (if \<not> ok x then Some (False, disposed vm h mh x)
     else if priority m = kNormalPriority \<and> \<not> am then Some (True, disposed vm h mh x)
     else HandleMessages (disposes ok) h an am (disposed vm h mh x))"
  using assms by (subst HandleMessages_unfold) (simp add: disposes_def disposed_def set_handler_def)

lemma disposed_lists:
  assumes "mh_lists (vm_store vm) mh os ns" "x \<notin> set os \<union> set ns"
  shows "mh_lists (vm_store (disposed vm h mh' x)) mh os ns"
  using assms(1) by (rule mh_lists_cong [THEN iffD1, rotated]) (use assms(2) in auto)

lemma disposed_queued: "queued_as (vm_store vm) p xs \<Longrightarrow> x \<notin> set xs \<Longrightarrow> queued_as (vm_store (disposed vm h mh x)) p xs"
  by (auto simp: queued_as_def)

text \<open>What a call does when the messages of \<open>todo\<close> are next.\<close>

definition handles :: "(nat \<Rightarrow> bool) \<Rightarrow> nat \<Rightarrow> LoggedVM \<Rightarrow> nat list \<Rightarrow> nat list \<Rightarrow> nat list \<Rightarrow> (bool \<times> LoggedVM) option \<Rightarrow> bool" where
  "handles ok h vm todo os ns r \<longleftrightarrow> (\<exists>vm' mh'. r = Some (list_all ok todo, vm') \<and> vm_log vm' = vm_log vm @ upto_failure ok todo
     \<and> vm_handlers vm' h = Some mh'
     \<and> mh_lists (vm_store vm') mh' (drop (length (upto_failure ok todo)) os) (drop (length (upto_failure ok todo) - length os) ns)
     \<and> (\<forall>p. vm_store vm' p = (if p \<in> set (upto_failure ok todo) then None else vm_store vm p)))"

lemma handles_failed:
  assumes "\<not> ok x" "mh_lists (vm_store (disposed vm h mh x)) mh os' ns'" "os' = drop 1 os" "ns' = drop (1 - length os) ns"
  shows "handles ok h vm (x # xs) os ns (Some (False, disposed vm h mh x))"
  using assms unfolding handles_def by (intro exI [of _ "disposed vm h mh x"] exI [of _ mh]) auto

lemma handles_step:
  assumes "handles ok h (disposed vm h mh x) xs os' ns' r" "ok x" "os = x # os' \<and> ns = ns' \<or> os = [] \<and> os' = [] \<and> ns = x # ns'"
  shows "handles ok h vm (x # xs) os ns r"
  using assms unfolding handles_def by (elim exE conjE disjE) (intro exI, auto)+

lemma HandleMessages_normal:
  assumes "vm_handlers vm h = Some mh" "mh_lists (vm_store vm) mh [] ns" "queued_as (vm_store vm) kNormalPriority ns"
  shows "handles ok h vm (to_handle an am mh [] ns) [] ns (HandleMessages (disposes ok) h an am vm)"
  using assms
proof (induction ns arbitrary: vm mh)
  case Nil
  obtain mp where mp: "min_priority vm h an = Some mp" using Nil.prems(1) by (simp add: min_priority_def)
  obtain mh' where d: "DequeueMessage vm h mp = Some (0, set_handler vm h mh')" "mh_lists (vm_store vm) mh' [] []"
    using DequeueMessage_normal [OF Nil.prems(1,2), of mp] by (auto split: if_splits)
  have "HandleMessages (disposes ok) h an am vm = Some (True, set_handler vm h mh')"
    using mp d(1) by (subst HandleMessages_unfold) simp
  then show ?case using d(2) by (simp add: handles_def to_handle_def) (simp add: set_handler_def)
next
  case (Cons x ns)
  let ?mp = "if an \<and> \<not> mh_paused mh > 0 then kNormalPriority else kOOBPriority"
  have mp: "min_priority vm h an = Some ?mp" using Cons.prems(1) by (simp add: min_priority_def)
  obtain m where m: "vm_store vm x = Some m" "priority m = kNormalPriority" using Cons.prems(3) by (auto simp: queued_as_def)
  have x: "x \<noteq> 0" "x \<notin> set ns" using Cons.prems(2) by (auto simp: mh_lists_def queue_list_def)
  show ?case
  proof (cases "an \<and> \<not> mh_paused mh > 0")
    case False
    then obtain mh' where d: "DequeueMessage vm h ?mp = Some (0, set_handler vm h mh')" "mh_lists (vm_store vm) mh' [] (x # ns)"
      using DequeueMessage_normal [OF Cons.prems(1,2), of ?mp] by (auto split: if_splits)
    have "HandleMessages (disposes ok) h an am vm = Some (True, set_handler vm h mh')"
      using mp d(1) by (subst HandleMessages_unfold) simp
    then show ?thesis using d(2) False by (simp add: handles_def to_handle_def) (auto simp: set_handler_def)
  next
    case True
    then obtain mh' where d: "DequeueMessage vm h ?mp = Some (x, set_handler vm h mh')" "mh_lists (vm_store vm) mh' [] ns"
      "mh_paused mh' = mh_paused mh"
      using DequeueMessage_normal [OF Cons.prems(1,2), of ?mp] by (auto split: if_splits)
    note step = HandleMessages_step [OF mp d(1) x(1) m(1), of ok am]
    have l: "mh_lists (vm_store (disposed vm h mh' x)) mh' [] ns" using disposed_lists [OF d(2)] x(2) by simp
    have t: "to_handle an am mh [] (x # ns) = x # (if am then to_handle an am mh' [] ns else [])" using True d(3) by (simp add: to_handle_def)
    consider "\<not> ok x" | "ok x" "\<not> am" | "ok x" "am" by blast
    then show ?thesis
    proof cases
      case 1
      then show ?thesis unfolding t step using handles_failed [of ok x vm h mh' "[]" ns "[]" "x # ns"] l by simp
    next
      case 2
      have "handles ok h (disposed vm h mh' x) [] [] ns (Some (True, disposed vm h mh' x))" using l by (simp add: handles_def)
      then show ?thesis unfolding t step using 2 m(2) by (auto intro: handles_step)
    next
      case 3
      have "handles ok h (disposed vm h mh' x) (to_handle an am mh' [] ns) [] ns (HandleMessages (disposes ok) h an am (disposed vm h mh' x))"
        using Cons.prems(3) x(2) by (intro Cons.IH l disposed_queued) (simp_all add: queued_as_def)
      then show ?thesis unfolding t step using 3 by (auto intro: handles_step)
    qed
  qed
qed

lemma HandleMessages_order_aux:
  assumes "vm_handlers vm h = Some mh" "mh_lists (vm_store vm) mh os ns" "queued_as (vm_store vm) kOOBPriority os"
    "queued_as (vm_store vm) kNormalPriority ns"
  shows "handles ok h vm (to_handle an am mh os ns) os ns (HandleMessages (disposes ok) h an am vm)"
  using assms
proof (induction os arbitrary: vm mh)
  case Nil
  then show ?case by (intro HandleMessages_normal)
next
  case (Cons x os)
  obtain mp where mp: "min_priority vm h an = Some mp" using Cons.prems(1) by (simp add: min_priority_def)
  obtain mh' where d: "DequeueMessage vm h mp = Some (x, set_handler vm h mh')" "mh_lists (vm_store vm) mh' os ns" "mh_paused mh' = mh_paused mh"
    using DequeueMessage_oob [OF Cons.prems(1,2)] by blast
  obtain m where m: "vm_store vm x = Some m" "priority m = kOOBPriority" using Cons.prems(3) by (auto simp: queued_as_def)
  have x: "x \<noteq> 0" "x \<notin> set os \<union> set ns" using Cons.prems(2) by (auto simp: mh_lists_def queue_list_def)
  note step = HandleMessages_step [OF mp d(1) x(1) m(1), of ok am]
  have l: "mh_lists (vm_store (disposed vm h mh' x)) mh' os ns" by (rule disposed_lists [OF d(2) x(2)])
  have t: "to_handle an am mh (x # os) ns = x # to_handle an am mh' os ns" using d(3) by (simp add: to_handle_def)
  show ?case
  proof (cases "ok x")
    case False
    then show ?thesis unfolding t step using handles_failed [of ok x vm h mh' os ns "x # os" ns] l by simp
  next
    case True
    have "handles ok h (disposed vm h mh' x) (to_handle an am mh' os ns) os ns (HandleMessages (disposes ok) h an am (disposed vm h mh' x))"
      using Cons.prems(3,4) x(2) by (intro Cons.IH l disposed_queued) (simp_all add: queued_as_def)
    then show ?thesis unfolding t step using True m(2) by (auto intro: handles_step)
  qed
qed

section \<open>Clearing\<close>

definition freed :: "nat set \<Rightarrow> message_store \<Rightarrow> message_store" where
  "freed X store = (\<lambda>p. if p \<in> X then None else store p)"

lemma Clear_loop_drops:
  assumes "chain (vm_store vm) p xs" "distinct xs" "\<forall>x \<in> set xs. \<forall>m. vm_store vm x = Some m \<longrightarrow> delivery_failure_port m = 0"
  shows "Clear_loop vm p = Some (vm\<lparr>vm_store := freed (set xs) (vm_store vm)\<rparr>)"
  using assms
proof (induction xs arbitrary: vm p)
  case Nil
  then show ?case by (simp add: Clear_loop.simps freed_def)
next
  case (Cons x xs)
  then obtain m where m: "vm_store vm x = Some m" "p = x" "x \<noteq> 0" "chain (vm_store vm) (msg_next m) xs" "delivery_failure_port m = 0" by auto
  let ?vm = "vm\<lparr>vm_store := (vm_store vm)(x := None)\<rparr>"
  have "chain (vm_store ?vm) (msg_next m) xs" using m(4) Cons.prems(2) by (subst chain_cong [of _ _ "vm_store vm"]) auto
  then have "Clear_loop ?vm (msg_next m) = Some (?vm\<lparr>vm_store := freed (set xs) (vm_store ?vm)\<rparr>)"
    by (rule Cons.IH) (use Cons.prems(2,3) in auto)
  moreover have "freed (set xs) ((vm_store vm)(x := None)) = freed (set (x # xs)) (vm_store vm)" by (auto simp: freed_def)
  ultimately show ?case using m by (subst Clear_loop.simps) (simp add: RedirectToDeliveryFailurePort_def)
qed

section \<open>Live ports\<close>

definition live_count :: "PortMap \<Rightarrow> nat \<Rightarrow> nat" where
  "live_count pm h = card {p. open_ports pm p = Some (Handler h, kLivePort)}"

lemma finite_open: "finite {p. open_ports pm p = Some v}"
  by (rule finite_subset [of _ "dom (open_ports pm)"]) (auto simp: open_ports_def finite_dom_map_of)

definition vm_inv :: "'a VM_scheme \<Rightarrow> bool" where
  "vm_inv vm \<longleftrightarrow> pm_inv (vm_ports vm) \<and> (\<forall>h mh. vm_handlers vm h = Some mh \<longrightarrow> live_ports mh = int (live_count (vm_ports vm) h))"

text \<open>Operations that leave ports and their counts alone.\<close>

definition same_ports :: "'a VM_scheme \<Rightarrow> 'a VM_scheme \<Rightarrow> bool" where
  "same_ports vm vm' \<longleftrightarrow> vm_ports vm' = vm_ports vm \<and> (\<forall>h. map_option live_ports (vm_handlers vm' h) = map_option live_ports (vm_handlers vm h))"

lemma same_ports_refl [simp]: "same_ports vm vm" "same_ports vm (vm\<lparr>vm_store := s\<rparr>)"
  by (simp_all add: same_ports_def)

lemma same_ports_trans: "same_ports a b \<Longrightarrow> same_ports b c \<Longrightarrow> same_ports a c"
  by (simp add: same_ports_def)

lemma same_ports_inv:
  assumes "vm_inv vm" "same_ports vm vm'"
  shows "vm_inv vm'"
  unfolding vm_inv_def
proof (intro conjI allI impI)
  show "pm_inv (vm_ports vm')" using assms by (simp add: vm_inv_def same_ports_def)
  fix h mh' assume "vm_handlers vm' h = Some mh'"
  then obtain mh where "vm_handlers vm h = Some mh" "live_ports mh' = live_ports mh"
    using assms(2) unfolding same_ports_def by (metis (no_types) map_option_eq_Some)
  then show "live_ports mh' = int (live_count (vm_ports vm') h)" using assms by (simp add: vm_inv_def same_ports_def)
qed

lemma set_handler_same: "vm_handlers vm h = Some mh \<Longrightarrow> live_ports mh' = live_ports mh \<Longrightarrow> same_ports vm (set_handler vm h mh')"
  by (simp add: same_ports_def set_handler_def)

lemma MessageHandler_PostMessage_same:
  assumes "MessageHandler_PostMessage vm h msg b = Some vm'"
  shows "same_ports vm vm'"
  using assms by (auto simp: MessageHandler_PostMessage_def bind_eq_Some_conv same_ports_def set_handler_def split: if_splits)

lemma PortMap_PostMessage_same:
  assumes "PortMap_PostMessage vm msg = Some (b, vm')"
  shows "same_ports vm vm'"
  using assms by (auto simp: PortMap_PostMessage_def bind_eq_Some_conv split: if_splits MessageHandlerPtr.splits dest: MessageHandler_PostMessage_same)

lemma Clear_loop_same:
  assumes "Clear_loop vm cur = Some vm'"
  shows "same_ports vm vm'"
proof (rule Clear_loop.raw_induct [where P = "\<lambda>vm cur vm'. same_ports vm vm'", OF _ assms], goal_cases)
  case (1 f vm cur vm')
  show ?case
  proof (cases "cur = 0")
    case False
    then obtain m vm1 where m: "vm_store vm cur = Some m" "f vm1 (msg_next m) = Some vm'"
      "(case RedirectToDeliveryFailurePort m of
            (True, m') \<Rightarrow> map_option snd (PortMap_PostMessage (vm\<lparr>vm_store := (vm_store vm)(cur \<mapsto> m')\<rparr>) cur)
          | (False, m') \<Rightarrow> Some (vm\<lparr>vm_store := (vm_store vm)(cur := None)\<rparr>)) = Some vm1"
      using 1(2) by (auto simp: bind_eq_Some_conv)
    have "same_ports vm vm1"
    proof (cases "fst (RedirectToDeliveryFailurePort m)")
      case True
      then obtain b m' where "PortMap_PostMessage (vm\<lparr>vm_store := (vm_store vm)(cur \<mapsto> m')\<rparr>) cur = Some (b, vm1)"
        using m(3) by (cases "RedirectToDeliveryFailurePort m") auto
      from PortMap_PostMessage_same [OF this] show ?thesis by (simp add: same_ports_def)
    next
      case False
      then show ?thesis using m(3) by (cases "RedirectToDeliveryFailurePort m") auto
    qed
    then show ?thesis using 1(1) [OF m(2)] same_ports_trans by blast
  qed (use 1(2) in simp)
qed

lemma Clear_queue_same:
  assumes "Clear_queue vm h oob = Some vm'"
  shows "same_ports vm vm'"
proof -
  obtain mh where mh: "vm_handlers vm h = Some mh" using assms by (auto simp: Clear_queue_def bind_eq_Some_conv)
  have s: "same_ports vm (set_handler vm h (mh\<lparr>mh_oob_queue := q\<rparr>))" "same_ports vm (set_handler vm h (mh\<lparr>mh_queue := q\<rparr>))" for q
    using mh by (auto intro: set_handler_same)
  show ?thesis using assms mh s [of MessageQueue_new] by (auto simp: Clear_queue_def split: if_splits dest!: Clear_loop_same intro: same_ports_trans)
qed

lemma CloseAllPorts_same: "CloseAllPorts vm h = Some vm' \<Longrightarrow> same_ports vm vm'"
  by (auto simp: CloseAllPorts_def bind_eq_Some_conv dest!: Clear_queue_same intro: same_ports_trans)

text \<open>The count of live ports after one entry of the map of open ports changed.\<close>

lemma live_count_upd:
  assumes "open_ports pm' = (open_ports pm)(p := v)"
  shows "int (live_count pm' h) = int (live_count pm h) - (if open_ports pm p = Some (Handler h, kLivePort) then 1 else 0)
    + (if v = Some (Handler h, kLivePort) then 1 else 0)"
proof -
  let ?S = "{q. open_ports pm q = Some (Handler h, kLivePort)}"
  have "{q. open_ports pm' q = Some (Handler h, kLivePort)} = (if v = Some (Handler h, kLivePort) then insert p (?S - {p}) else ?S - {p})"
    using assms by (auto split: if_splits)
  moreover have "int (card (?S - {p})) = int (card ?S) - (if p \<in> ?S then 1 else 0)"
    using finite_open [of pm "(Handler h, kLivePort)"] card_gt_0_iff [of ?S] by (auto simp: card_Diff_singleton_if of_nat_diff Suc_le_eq)
  ultimately show ?thesis using finite_open [of pm "(Handler h, kLivePort)"] by (simp add: live_count_def del: insert_Diff_single)
qed

lemma pm_map_ext:
  assumes "port_table (pm_map pm')" "\<And>q v. (\<exists>e \<in># entries pe_open (pm_map pm'). pe_port e = q \<and> v = (pe_handler e, pe_state e)) \<longleftrightarrow> f q = Some v"
  shows "open_ports pm' = f"
  using open_ports_iff [OF assms(1)] assms(2) by (intro ext) (metis option.exhaust)

text \<open>Other entries have other ports.\<close>

lemma open_unique:
  assumes "port_table a" "e \<in># entries pe_open a" "x \<in># entries pe_open a - {#e#}"
  shows "pe_port x \<noteq> pe_port e"
  using assms unfolding port_table_def clash_free_def same_port_def by metis

lemma open_other:
  assumes "port_table a" "e \<in># entries pe_open a"
  shows "x \<in># entries pe_open a - {#e#} \<longleftrightarrow> x \<in># entries pe_open a \<and> pe_port x \<noteq> pe_port e"
  using open_unique [OF assms, of x] insert_DiffM [OF assms(2)] by (metis in_diffD insert_iff set_mset_add_mset_insert)

lemma close_slot_open_ports:
  assumes "pm_table pm" "i < length (pm_map pm)" "pe_open (pm_map pm ! i)"
  shows "open_ports (close_slot pm i) = (open_ports pm)(pe_port (pm_map pm ! i) := None)"
proof (rule pm_map_ext)
  let ?e = "pm_map pm ! i" and ?E = "entries pe_open (pm_map pm)"
  note c = close_slot_spec [OF assms] and t = pm_inv_table(2) [OF assms(1)]
  show "port_table (pm_map (close_slot pm i))" using pm_inv_table(2) [OF c(1)] .
  have e: "?e \<in># ?E" using assms(2,3) by (simp add: set_entries)
  have "x \<in># ?E - {#?e#} \<longleftrightarrow> x \<in># ?E \<and> pe_port x \<noteq> pe_port ?e" for x
    by (rule open_other [OF t e])
  then show "(\<exists>e \<in># entries pe_open (pm_map (close_slot pm i)). pe_port e = q \<and> v = (pe_handler e, pe_state e))
      \<longleftrightarrow> ((open_ports pm)(pe_port ?e := None)) q = Some v" for q v
    unfolding c(2) by (auto simp: open_ports_iff [OF t])
qed

lemma set_state_spec:
  fixes s :: PortState
  assumes "pm_inv pm" "i < length (pm_map pm)" "pe_open (pm_map pm ! i)"
  defines "pm' \<equiv> pm\<lparr>pm_map := (pm_map pm)[i := (pm_map pm ! i)\<lparr>pe_state := s\<rparr>]\<rparr>"
  shows "pm_inv pm'" "open_ports pm' = (open_ports pm)(pe_port (pm_map pm ! i) \<mapsto> (pe_handler (pm_map pm ! i), s))"
proof -
  let ?a = "pm_map pm" and ?e = "pm_map pm ! i" and ?E = "entries pe_open (pm_map pm)"
  let ?f = "?e\<lparr>pe_state := s\<rparr>"
  note t = pm_inv_table(1) [OF assms(1)] pm_inv_table(2) [OF pm_inv_table(1) [OF assms(1)]]
  have e: "?e \<in># ?E" "pe_ok ?e" using assms(2,3) t(2) by (auto simp: set_entries port_table_def)
  have f: "pe_open ?f" "pe_ok ?f" "pe_home n ?f = pe_home n ?e" for n using assms(3) e(2) by (simp_all add: pe_open_def pe_ok_def pe_home_def)
  have ent: "entries pe_open (?a[i := ?f]) = add_mset ?f (?E - {#?e#})" using assms(2,3) f by (simp add: entries_update)
  have "chained pe_unused pe_open pe_home (?a[i := ?f])"
    using t(2) assms(2,3) f by (intro pt.chained_overwrite) (auto simp: port_table_def pe_unused_def pe_open_def)
  moreover have "clash_free same_port (entries pe_open (?a[i := ?f]))"
    unfolding ent clash_free_add
  proof
    show "clash_free same_port (?E - {#?e#})" using t(2) by (intro clash_free_diff) (simp add: port_table_def)
    show "\<forall>x \<in># ?E - {#?e#}. \<not> same_port ?f x \<and> \<not> same_port x ?f" using open_unique [OF t(2) e(1)] by (fastforce simp: same_port_def)
  qed
  moreover have "\<forall>x \<in> set (?a[i := ?f]). pe_ok x" using t(2) f(2) set_update_subset_insert [of ?a i ?f] by (auto simp: port_table_def)
  ultimately have pt: "port_table (pm_map pm')" by (simp add: port_table_def pm'_def)
  have "size (entries pe_open (?a[i := ?f])) = size ?E" unfolding ent using e(1) size_Suc_Diff1 by (simp add: size_Suc_Diff1)
  moreover have "length (filter (\<lambda>e. pe_handler e = DeletedEntry) (?a[i := ?f])) = length (filter (\<lambda>e. pe_handler e = DeletedEntry) ?a)"
    unfolding deleted_count using assms(2,3) e(2) by (simp add: entries_update) (auto simp: pe_ok_def pe_open_def)
  ultimately show "pm_inv pm'" using assms(1) pt by (simp add: pm_inv_def pm_table_def pm'_def)
  show "open_ports pm' = (open_ports pm)(pe_port ?e \<mapsto> (pe_handler ?e, s))"
  proof (rule pm_map_ext [OF pt])
    have "x \<in># ?E - {#?e#} \<longleftrightarrow> x \<in># ?E \<and> pe_port x \<noteq> pe_port ?e" for x
      by (rule open_other [OF t(2) e(1)])
    then show "(\<exists>e \<in># entries pe_open (pm_map pm'). pe_port e = q \<and> v = (pe_handler e, pe_state e))
        \<longleftrightarrow> ((open_ports pm)(pe_port ?e \<mapsto> (pe_handler ?e, s))) q = Some v" for q v
      unfolding pm'_def by (auto simp: ent open_ports_iff [OF t(2)])
  qed
qed

lemma MaintainInvariants_ports:
  assumes "pm_table pm" "pm_used pm \<le> int (pm_capacity pm div 4 * 3) + 1"
  obtains pm' where "MaintainInvariants pm = Some pm'" "pm_inv pm'" "open_ports pm' = open_ports pm"
proof -
  obtain pm' where pm': "MaintainInvariants pm = Some pm'" "pm_inv pm'" "entries pe_open (pm_map pm') = entries pe_open (pm_map pm)"
    using MaintainInvariants_spec [OF assms] by blast
  then show ?thesis using that open_ports_entries pm_inv_table assms(1) by metis
qed

lemma close_slot_maintained:
  assumes "pm_inv pm" "i < length (pm_map pm)" "pe_open (pm_map pm ! i)"
  obtains pm' where "MaintainInvariants (close_slot pm i) = Some pm'" "pm_inv pm'"
    "open_ports pm' = (open_ports pm)(pe_port (pm_map pm ! i) := None)"
proof -
  note t = pm_inv_table(1) [OF assms(1)]
  have "pm_used (close_slot pm i) \<le> int (pm_capacity (close_slot pm i) div 4 * 3) + 1"
    using assms(1) by (simp add: close_slot_def pm_inv_def)
  from MaintainInvariants_ports [OF close_slot_spec(1) [OF t assms(2,3)] this] that show ?thesis
    using close_slot_open_ports [OF t assms(2,3)] by metis
qed

text \<open>What the loop of \<open>ClosePorts\<close> does to the table.\<close>

definition closes :: "nat \<Rightarrow> nat set \<Rightarrow> PortMap \<Rightarrow> int \<Rightarrow> PortMap \<Rightarrow> int \<Rightarrow> bool" where
  "closes h I pm live pm' live' \<longleftrightarrow> pm_table pm' \<and> pm_capacity pm' = pm_capacity pm \<and> pm_used pm' \<le> pm_used pm
     \<and> live' - live = int (live_count pm' h) - int (live_count pm h)
     \<and> (\<forall>p. open_ports pm' p = open_ports pm p \<or> open_ports pm' p = None \<and> (\<exists>s. open_ports pm p = Some (Handler h, s)))
     \<and> (\<forall>j < pm_capacity pm. j \<in> I \<or> pe_handler (pm_map pm ! j) \<noteq> Handler h \<longrightarrow> pe_handler (pm_map pm' ! j) \<noteq> Handler h)"

lemma closes_trans:
  assumes "closes h I a l b m" "closes h J b m c n"
  shows "closes h (I \<union> J) a l c n"
proof -
  have "open_ports c p = open_ports a p \<or> open_ports c p = None \<and> (\<exists>s. open_ports a p = Some (Handler h, s))" for p
  proof -
    have "open_ports b p = open_ports a p \<or> open_ports b p = None \<and> (\<exists>s. open_ports a p = Some (Handler h, s))"
      "open_ports c p = open_ports b p \<or> open_ports c p = None \<and> (\<exists>s. open_ports b p = Some (Handler h, s))"
      using assms by (simp_all add: closes_def)
    then show ?thesis by (elim disjE conjE exE) simp_all
  qed
  moreover have "pe_handler (pm_map c ! j) \<noteq> Handler h" if "j < pm_capacity a" "j \<in> I \<union> J \<or> pe_handler (pm_map a ! j) \<noteq> Handler h" for j
  proof (cases "j \<in> J")
    case False
    then have "pe_handler (pm_map b ! j) \<noteq> Handler h" using assms(1) that by (auto simp: closes_def)
    then show ?thesis using assms that(1) by (simp add: closes_def)
  qed (use assms that(1) in \<open>simp add: closes_def\<close>)
  ultimately show ?thesis using assms unfolding closes_def by simp
qed

lemma close_slot_closes:
  assumes "pm_table pm" "i < pm_capacity pm" "pe_handler (pm_map pm ! i) = Handler h"
  shows "closes h {i} pm live (close_slot pm i) (if pe_state (pm_map pm ! i) = kLivePort then live - 1 else live)"
proof -
  let ?e = "pm_map pm ! i"
  have i: "i < length (pm_map pm)" using assms by (simp add: pm_table_def)
  have ok: "pe_ok ?e" using assms(1) i by (simp add: pm_table_def port_table_def)
  then have o: "pe_open ?e" using assms(3) by (auto simp: pe_ok_def pe_open_def)
  note c = close_slot_spec [OF assms(1) i o] and op = close_slot_open_ports [OF assms(1) i o]
  have "open_ports pm (pe_port ?e) = Some (Handler h, pe_state ?e)"
    unfolding open_ports_iff [OF pm_inv_table(2) [OF assms(1)]] using i o assms(3) by (intro bexI [of _ ?e]) (auto simp: set_entries)
  then show ?thesis using c live_count_upd [OF op, of h] i
    unfolding closes_def op by (auto simp: close_slot_def nth_list_update)
qed

lemma ClosePorts_loop_closes:
  assumes "pm_table pm" "set is \<subseteq> {..<pm_capacity pm}"
  shows "\<exists>pm' live'. ClosePorts_loop h is (pm, live) = (pm', live') \<and> closes h (set is) pm live pm' live'"
  using assms
proof (induction "is" arbitrary: pm live)
  case Nil
  then show ?case by (simp add: closes_def)
next
  case (Cons i "is")
  show ?case
  proof (cases "pe_handler (pm_map pm ! i) = Handler h")
    case True
    let ?live = "if pe_state (pm_map pm ! i) = kLivePort then live - 1 else live"
    have c: "closes h {i} pm live (close_slot pm i) ?live" using close_slot_closes [OF Cons.prems(1) _ True] Cons.prems(2) by simp
    then obtain pm' live' where "ClosePorts_loop h is (close_slot pm i, ?live) = (pm', live')" "closes h (set is) (close_slot pm i) ?live pm' live'"
      using Cons.IH [of "close_slot pm i" ?live] Cons.prems(2) by (auto simp: closes_def)
    then show ?thesis using closes_trans [OF c] True by simp
  next
    case False
    then have "closes h {i} pm live pm live" using Cons.prems by (simp add: closes_def)
    moreover obtain pm' live' where "ClosePorts_loop h is (pm, live) = (pm', live')" "closes h (set is) pm live pm' live'"
      using Cons.IH [of pm live] Cons.prems by auto
    ultimately show ?thesis using closes_trans [of h "{i}" pm live pm live "set is" pm' live'] False by simp
  qed
qed

lemma closes_all:
  assumes "closes h {..<pm_capacity pm} pm live pm' live'" "pm_table pm"
  shows "open_ports pm' p = (case open_ports pm p of Some v \<Rightarrow> if fst v = Handler h then None else Some v | None \<Rightarrow> None)"
    "live_count pm' h = 0" "h' \<noteq> h \<Longrightarrow> live_count pm' h' = live_count pm h'"
proof -
  have t: "pm_table pm'" "pm_capacity pm' = pm_capacity pm" using assms by (simp_all add: closes_def)
  have N: "open_ports pm' p \<noteq> Some (Handler h, s)" for p s
  proof
    assume "open_ports pm' p = Some (Handler h, s)"
    then obtain e where e: "e \<in> set (pm_map pm')" "pe_handler e = Handler h"
      unfolding open_ports_iff [OF pm_inv_table(2) [OF t(1)]] by (auto simp: set_entries)
    then obtain j where "j < pm_capacity pm" "pe_handler (pm_map pm' ! j) = Handler h" using t by (auto simp: in_set_conv_nth pm_table_def)
    then show False using assms(1) by (auto simp: closes_def)
  qed
  have B: "open_ports pm' p = open_ports pm p \<or> open_ports pm' p = None \<and> (\<exists>s. open_ports pm p = Some (Handler h, s))" for p
    using assms(1) by (simp add: closes_def)
  have *: "open_ports pm' p = (case open_ports pm p of Some v \<Rightarrow> if fst v = Handler h then None else Some v | None \<Rightarrow> None)" for p
  proof (cases "open_ports pm p")
    case (Some v)
    then show ?thesis using B [of p] N [of p "snd v"] by (cases v) auto
  qed (use B [of p] in simp)
  show "open_ports pm' p = (case open_ports pm p of Some v \<Rightarrow> if fst v = Handler h then None else Some v | None \<Rightarrow> None)" by (rule *)
  show "live_count pm' h = 0" using N by (simp add: live_count_def)
  show "live_count pm' h' = live_count pm h'" if "h' \<noteq> h"
    unfolding live_count_def * using that by (intro arg_cong [of _ _ card] Collect_cong) (simp split: option.splits)
qed

end
