(* ===== verification/Message_System.thy ===== *)
theory Message_System
  imports Message_Delivery
begin

text \<open>
  The message system as a whole: the states that opening, marking and closing ports, and posting messages can lead to, the invariant of these
  states, and the guarantees for posting, handling and clearing messages.
\<close>

section \<open>The invariant of the system\<close>

lemma add_live_ports_inv:
  assumes "add_live_ports vm h n = Some vm'" "pm_inv pm"
    "\<And>h' mh. vm_handlers vm h' = Some mh \<Longrightarrow> live_ports mh + (if h' = h then n else 0) = int (live_count pm h')"
  shows "vm_inv (vm'\<lparr>vm_ports := pm\<rparr>)"
proof -
  obtain mh where mh: "vm_handlers vm h = Some mh" "vm' = set_handler vm h (mh\<lparr>live_ports := live_ports mh + n\<rparr>)"
    using assms(1) by (auto simp: add_live_ports_def)
  show ?thesis using assms(2) assms(3) [OF mh(1)] assms(3) unfolding vm_inv_def mh(2)
    by (fastforce simp: set_handler_def split: if_splits)
qed

lemma CreatePort_inv:
  assumes "vm_inv vm" "CreatePort (vm_ports vm) h = Some (p, pm)"
  shows "vm_inv (vm\<lparr>vm_ports := pm\<rparr>)"
proof -
  have i: "pm_inv (vm_ports vm)" using assms(1) by (simp add: vm_inv_def)
  obtain pm1 where "AllocatePort (vm_ports vm) = Some (p, pm1)"
    using assms(2) by (auto simp: CreatePort_def bind_eq_Some_conv)
  from CreatePort_spec [OF i this, of h] assms(2) have c: "pm_inv pm" "open_ports (vm_ports vm) p = None"
    "open_ports pm = (open_ports (vm_ports vm))(p \<mapsto> (Handler h, kNewPort))" by auto
  have "int (live_count pm h') = int (live_count (vm_ports vm) h')" for h' using live_count_upd [OF c(3), of h'] c(2) by simp
  then show ?thesis using assms(1) c(1) by (simp add: vm_inv_def)
qed

lemma SetPortState_inv:
  assumes "vm_inv vm" "SetPortState vm p s = Some vm'" "0 \<le> p" "open_ports (vm_ports vm) p = Some (h, kNewPort)"
  shows "vm_inv vm' \<and> open_ports (vm_ports vm') = (open_ports (vm_ports vm))(p \<mapsto> (h, s))"
proof -
  have inv: "pm_inv (vm_ports vm)" using assms(1) by (simp add: vm_inv_def)
  obtain i where i: "FindPort (vm_ports vm) p = Some i" "0 \<le> i" "nat i < length (pm_map (vm_ports vm))" "pe_open (pm_map (vm_ports vm) ! nat i)"
    "pe_handler (pm_map (vm_ports vm) ! nat i) = h" "pe_port (pm_map (vm_ports vm) ! nat i) = p"
    by (rule FindPort_open [OF inv assms(3,4)])
  define pm where "pm = vm_ports vm\<lparr>pm_map := (pm_map (vm_ports vm))[nat i := (pm_map (vm_ports vm) ! nat i)\<lparr>pe_state := s\<rparr>]\<rparr>"
  have s: "pm_inv pm" "open_ports pm = (open_ports (vm_ports vm))(p \<mapsto> (h, s))"
    using set_state_spec [OF inv i(3,4), of s] i by (simp_all add: pm_def)
  note live = live_count_upd [OF s(2), unfolded assms(4)]
  show ?thesis
  proof (cases "s = kLivePort")
    case False
    then have "vm' = vm\<lparr>vm_ports := pm\<rparr>" using assms(2) i by (simp add: SetPortState_def pm_def Let_def)
    then show ?thesis using s assms(1) False live by (simp add: vm_inv_def)
  next
    case True
    then obtain h' where h': "h = Handler h'" "add_live_ports (vm\<lparr>vm_ports := pm\<rparr>) h' 1 = Some vm'"
      using assms(2) i by (auto simp: SetPortState_def pm_def Let_def split: MessageHandlerPtr.splits)
    have "vm_inv (vm'\<lparr>vm_ports := pm\<rparr>)"
      by (rule add_live_ports_inv [OF h'(2) s(1)]) (use assms(1) live True h'(1) in \<open>auto simp: vm_inv_def\<close>)
    moreover have "vm_ports vm' = pm" using h'(2) by (auto simp: add_live_ports_def set_handler_def)
    ultimately show ?thesis using s(2) by (simp add: vm_inv_def)
  qed
qed

lemma delete_handler_inv:
  assumes "vm_inv vm" "delete_handler vm h = Some vm'"
  shows "vm_inv vm'" "vm_ports vm' = vm_ports vm"
proof -
  obtain vm2 where d: "same_ports vm vm2" "vm' = vm2\<lparr>vm_handlers := (vm_handlers vm2)(h := None)\<rparr>"
    using assms(2) by (auto simp: delete_handler_def bind_eq_Some_conv dest!: Clear_queue_same intro: same_ports_trans)
  then show "vm_inv vm'" "vm_ports vm' = vm_ports vm" using same_ports_inv [OF assms(1) d(1)] by (auto simp: vm_inv_def same_ports_def)
qed

lemma ClosePort_inv:
  assumes "vm_inv vm" "ClosePort vm p = Some (b, vm')" "0 \<le> p"
  shows "vm_inv vm' \<and> b = (open_ports (vm_ports vm) p \<noteq> None) \<and> open_ports (vm_ports vm') = (open_ports (vm_ports vm))(p := None)"
proof -
  have inv: "pm_inv (vm_ports vm)" using assms(1) by (simp add: vm_inv_def)
  show ?thesis
  proof (cases "open_ports (vm_ports vm) p")
    case None
    then show ?thesis using assms FindPort_closed [OF inv assms(3)] by (auto simp: ClosePort_def fun_upd_idem)
  next
    case (Some v)
    obtain h s where v: "v = (h, s)" by fastforce
    obtain i where i: "FindPort (vm_ports vm) p = Some i" "0 \<le> i" "nat i < length (pm_map (vm_ports vm))" "pe_open (pm_map (vm_ports vm) ! nat i)"
      "pe_handler (pm_map (vm_ports vm) ! nat i) = h" "pe_state (pm_map (vm_ports vm) ! nat i) = s" "pe_port (pm_map (vm_ports vm) ! nat i) = p"
      by (rule FindPort_open [OF inv assms(3)]) (use Some v in auto)
    obtain pm where pm: "MaintainInvariants (close_slot (vm_ports vm) (nat i)) = Some pm" "pm_inv pm"
      "open_ports pm = (open_ports (vm_ports vm))(p := None)"
      using close_slot_maintained [OF inv i(3,4)] i(7) by metis
    obtain h' vm1 mh where c: "h = Handler h'" "(if s = kLivePort then add_live_ports vm h' (- 1) else Some vm) = Some vm1"
      "vm_handlers vm1 h' = Some mh" "b"
      "(if live_ports mh \<le> 0 \<and> OwnedByPortMap mh then delete_handler (vm1\<lparr>vm_ports := pm\<rparr>) h' else Some (vm1\<lparr>vm_ports := pm\<rparr>)) = Some vm'"
      using assms(2) i pm(1) by (auto simp: ClosePort_def Let_def bind_eq_Some_conv split: MessageHandlerPtr.splits if_splits)
    note live = live_count_upd [OF pm(3), unfolded Some v c(1)]
    have v1: "vm_inv (vm1\<lparr>vm_ports := pm\<rparr>)"
    proof (cases "s = kLivePort")
      case True
      then have "add_live_ports vm h' (- 1) = Some vm1" using c(2) by simp
      then show ?thesis by (rule add_live_ports_inv [OF _ pm(2)]) (use assms(1) live True in \<open>auto simp: vm_inv_def\<close>)
    next
      case False
      then show ?thesis using c(2) assms(1) live pm(2) by (auto simp: vm_inv_def)
    qed
    then have "vm_inv vm' \<and> vm_ports vm' = pm" using c(5) delete_handler_inv [OF v1] by (auto split: if_splits)
    then show ?thesis using Some c(4) pm(3) by simp
  qed
qed

lemma ClosePorts_inv:
  assumes "vm_inv vm" "ClosePorts vm h = Some vm'"
  shows "vm_inv vm' \<and> open_ports (vm_ports vm') p
    = (case open_ports (vm_ports vm) p of Some v \<Rightarrow> if fst v = Handler h then None else Some v | None \<Rightarrow> None)"
proof -
  have inv: "pm_inv (vm_ports vm)" "pm_table (vm_ports vm)" using assms(1) pm_inv_table by (auto simp: vm_inv_def)
  obtain mh where mh: "vm_handlers vm h = Some mh" using assms(2) by (auto simp: ClosePorts_def bind_eq_Some_conv)
  have "set [0..<pm_capacity (vm_ports vm)] \<subseteq> {..<pm_capacity (vm_ports vm)}" by auto
  from ClosePorts_loop_closes [OF inv(2) this, of h "live_ports mh"] obtain pm1 live where
    c: "ClosePorts_loop h [0..<pm_capacity (vm_ports vm)] (vm_ports vm, live_ports mh) = (pm1, live)"
      "closes h {..<pm_capacity (vm_ports vm)} (vm_ports vm) (live_ports mh) pm1 live" by (auto simp: atLeast0LessThan)
  note all = closes_all [OF c(2) inv(2)]
  have "pm_table pm1" "pm_used pm1 \<le> int (pm_capacity pm1 div 4 * 3) + 1" using c(2) inv(1) by (auto simp: closes_def pm_inv_def)
  then obtain pm where pm: "MaintainInvariants pm1 = Some pm" "pm_inv pm" "open_ports pm = open_ports pm1" by (rule MaintainInvariants_ports)
  define vm1 where "vm1 = set_handler (vm\<lparr>vm_ports := pm\<rparr>) h (mh\<lparr>live_ports := live\<rparr>)"
  have "live = 0" using c(2) all(2) mh assms(1) by (simp add: closes_def vm_inv_def)
  moreover have "live_count pm = live_count pm1" by (simp add: live_count_def pm(3) fun_eq_iff)
  ultimately have "vm_inv vm1" using assms(1) pm(2) all(2,3) by (auto simp: vm_inv_def vm1_def set_handler_def)
  moreover have "CloseAllPorts vm1 h = Some vm'" using assms(2) mh c(1) pm(1) by (simp add: ClosePorts_def vm1_def)
  then have same: "same_ports vm1 vm'" by (rule CloseAllPorts_same)
  ultimately have "vm_inv vm'" by (blast intro: same_ports_inv)
  moreover have "vm_ports vm' = vm_ports vm1" using same by (simp add: same_ports_def)
  then have "vm_ports vm' = pm" by (simp add: vm1_def set_handler_def)
  ultimately show ?thesis using all(1) pm(3) by simp
qed

text \<open>The states the system can reach, from the start of the virtual machine. A port is marked once, when it is new, as the code asserts.\<close>

inductive reachable :: "VM \<Rightarrow> bool" where
  init: "reachable \<lparr>vm_store = Map.empty, vm_handlers = Map.empty, vm_ports = PortMap_InitOnce g\<rparr>"
| message: "reachable vm \<Longrightarrow> msg \<noteq> 0 \<Longrightarrow> vm_store vm msg = None \<Longrightarrow> msg_next m = 0 \<Longrightarrow>
    reachable (vm\<lparr>vm_store := (vm_store vm)(msg \<mapsto> m)\<rparr>)"
| handler: "reachable vm \<Longrightarrow> vm_handlers vm h = None \<Longrightarrow> \<forall>p s. open_ports (vm_ports vm) p \<noteq> Some (Handler h, s) \<Longrightarrow>
    reachable (set_handler vm h (MessageHandler_new owned))"
| create: "reachable vm \<Longrightarrow> CreatePort (vm_ports vm) h = Some (p, pm) \<Longrightarrow> reachable (vm\<lparr>vm_ports := pm\<rparr>)"
| mark: "reachable vm \<Longrightarrow> 0 \<le> p \<Longrightarrow> open_ports (vm_ports vm) p = Some (h, kNewPort) \<Longrightarrow> SetPortState vm p s = Some vm' \<Longrightarrow> reachable vm'"
| close: "reachable vm \<Longrightarrow> 0 \<le> p \<Longrightarrow> ClosePort vm p = Some (b, vm') \<Longrightarrow> reachable vm'"
| close_all: "reachable vm \<Longrightarrow> ClosePorts vm h = Some vm' \<Longrightarrow> reachable vm'"
| post: "reachable vm \<Longrightarrow> PortMap_PostMessage vm msg = Some (b, vm') \<Longrightarrow> reachable vm'"

lemma reachable_inv: "reachable vm \<Longrightarrow> vm_inv vm"
proof (induction rule: reachable.induct)
  case (init g)
  then show ?case by (simp add: vm_inv_def InitOnce_inv)
next
  case (message vm msg m)
  then show ?case by (auto intro: same_ports_inv)
next
  case (handler vm h owned)
  then show ?case by (auto simp: vm_inv_def set_handler_def MessageHandler_new_def live_count_def)
next
  case (create vm h p pm)
  then show ?case by (blast intro: CreatePort_inv)
next
  case (mark vm p h s vm')
  then show ?case using SetPortState_inv by blast
next
  case (close vm p b vm')
  then show ?case using ClosePort_inv by blast
next
  case (close_all vm h vm')
  then show ?case using ClosePorts_inv by blast
next
  case (post vm msg b vm')
  then show ?case using PortMap_PostMessage_same same_ports_inv by blast
qed

section \<open>Closing\<close>

lemma ClosePort_spec:
  assumes "vm_inv vm" "0 \<le> p" "open_ports (vm_ports vm) p = Some (Handler h, s)" "vm_handlers vm h = Some mh" "\<not> OwnedByPortMap mh"
  shows "\<exists>pm mh'. ClosePort vm p = Some (True, vm\<lparr>vm_ports := pm, vm_handlers := (vm_handlers vm)(h \<mapsto> mh')\<rparr>)
    \<and> mh' = mh\<lparr>live_ports := live_ports mh - (if s = kLivePort then 1 else 0)\<rparr> \<and> open_ports pm = (open_ports (vm_ports vm))(p := None)"
proof -
  have inv: "pm_inv (vm_ports vm)" using assms(1) by (simp add: vm_inv_def)
  obtain i where i: "FindPort (vm_ports vm) p = Some i" "0 \<le> i" "nat i < length (pm_map (vm_ports vm))" "pe_open (pm_map (vm_ports vm) ! nat i)"
    "pe_handler (pm_map (vm_ports vm) ! nat i) = Handler h" "pe_state (pm_map (vm_ports vm) ! nat i) = s" "pe_port (pm_map (vm_ports vm) ! nat i) = p"
    by (rule FindPort_open [OF inv assms(2,3)])
  obtain pm where pm: "MaintainInvariants (close_slot (vm_ports vm) (nat i)) = Some pm" "open_ports pm = (open_ports (vm_ports vm))(p := None)"
    using close_slot_maintained [OF inv i(3,4)] i(7) by metis
  have "ClosePort vm p = Some (True, vm\<lparr>vm_ports := pm, vm_handlers := (vm_handlers vm)(h \<mapsto> mh\<lparr>live_ports := live_ports mh - (if s = kLivePort then 1 else 0)\<rparr>)\<rparr>)"
    using i pm(1) assms(4,5) fun_upd_triv [of "vm_handlers vm" h]
    by (cases "s = kLivePort") (simp_all add: ClosePort_def Let_def add_live_ports_def set_handler_def)
  then show ?thesis using pm(2) by blast
qed

lemma Clear_queue_drops:
  assumes "vm_handlers vm h = Some mh" "mh_lists (vm_store vm) mh os ns"
    "\<forall>x \<in> set os \<union> set ns. \<forall>m. vm_store vm x = Some m \<longrightarrow> delivery_failure_port m = 0"
  shows "CloseAllPorts vm h = Some (vm\<lparr>vm_store := freed (set os \<union> set ns) (vm_store vm),
    vm_handlers := (vm_handlers vm)(h \<mapsto> mh\<lparr>mh_queue := MessageQueue_new, mh_oob_queue := MessageQueue_new\<rparr>)\<rparr>)"
proof -
  have q: "chain (vm_store vm) (q_head (mh_queue mh)) ns" "distinct ns" "chain (vm_store vm) (q_head (mh_oob_queue mh)) os" "distinct os" "set os \<inter> set ns = {}"
    using assms(2) by (auto simp: mh_lists_def queue_list_def)
  let ?vm1 = "vm\<lparr>vm_store := freed (set ns) (vm_store vm), vm_handlers := (vm_handlers vm)(h \<mapsto> mh\<lparr>mh_queue := MessageQueue_new\<rparr>)\<rparr>"
  have "Clear_loop (set_handler vm h (mh\<lparr>mh_queue := MessageQueue_new\<rparr>)) (q_head (mh_queue mh))
      = Some (set_handler vm h (mh\<lparr>mh_queue := MessageQueue_new\<rparr>)\<lparr>vm_store := freed (set ns) (vm_store vm)\<rparr>)"
    using Clear_loop_drops [of "set_handler vm h (mh\<lparr>mh_queue := MessageQueue_new\<rparr>)" _ ns] q assms(3) by (auto simp: set_handler_def)
  then have 1: "Clear_queue vm h False = Some ?vm1" using assms(1) by (simp add: Clear_queue_def set_handler_def)
  let ?vm2 = "set_handler ?vm1 h (mh\<lparr>mh_queue := MessageQueue_new, mh_oob_queue := MessageQueue_new\<rparr>)"
  have store: "vm_store ?vm2 = freed (set ns) (vm_store vm)" by (simp add: set_handler_def)
  have "chain (vm_store ?vm2) (q_head (mh_oob_queue mh)) os"
    unfolding store using q(3,5) by (subst chain_cong [of _ _ "vm_store vm"]) (auto simp: freed_def)
  moreover have "\<forall>x \<in> set os. \<forall>m. vm_store ?vm2 x = Some m \<longrightarrow> delivery_failure_port m = 0"
    unfolding store using assms(3) by (auto simp: freed_def)
  ultimately have "Clear_loop ?vm2 (q_head (mh_oob_queue mh)) = Some (?vm2\<lparr>vm_store := freed (set os) (vm_store ?vm2)\<rparr>)"
    using q(4) by (intro Clear_loop_drops)
  moreover have "freed (set os) (freed (set ns) (vm_store vm)) = freed (set os \<union> set ns) (vm_store vm)" by (auto simp: freed_def)
  ultimately show ?thesis using 1 by (simp add: CloseAllPorts_def Clear_queue_def set_handler_def)
qed

lemma ClosePorts_spec:
  assumes "vm_inv vm" "vm_handlers vm h = Some mh" "mh_lists (vm_store vm) mh os ns"
    "\<forall>x \<in> set os \<union> set ns. \<forall>m. vm_store vm x = Some m \<longrightarrow> delivery_failure_port m = 0"
  shows "\<exists>vm' mh'. ClosePorts vm h = Some vm' \<and> vm_store vm' = freed (set os \<union> set ns) (vm_store vm)
    \<and> vm_handlers vm' = (vm_handlers vm)(h \<mapsto> mh') \<and> q_head (mh_queue mh') = 0 \<and> q_head (mh_oob_queue mh') = 0 \<and> live_ports mh' = 0
    \<and> (\<forall>p. open_ports (vm_ports vm') p
        = (case open_ports (vm_ports vm) p of Some v \<Rightarrow> if fst v = Handler h then None else Some v | None \<Rightarrow> None))"
proof -
  have inv: "pm_inv (vm_ports vm)" "pm_table (vm_ports vm)" using assms(1) pm_inv_table by (auto simp: vm_inv_def)
  have "set [0..<pm_capacity (vm_ports vm)] \<subseteq> {..<pm_capacity (vm_ports vm)}" by auto
  from ClosePorts_loop_closes [OF inv(2) this, of h "live_ports mh"] obtain pm1 live where
    c: "ClosePorts_loop h [0..<pm_capacity (vm_ports vm)] (vm_ports vm, live_ports mh) = (pm1, live)"
      "closes h {..<pm_capacity (vm_ports vm)} (vm_ports vm) (live_ports mh) pm1 live" by (auto simp: atLeast0LessThan)
  have "pm_table pm1" "pm_used pm1 \<le> int (pm_capacity pm1 div 4 * 3) + 1" using c(2) inv(1) by (auto simp: closes_def pm_inv_def)
  then obtain pm where pm: "MaintainInvariants pm1 = Some pm" by (rule MaintainInvariants_ports)
  let ?vm1 = "set_handler (vm\<lparr>vm_ports := pm\<rparr>) h (mh\<lparr>live_ports := live\<rparr>)"
  have "live = 0" using c(2) closes_all(2) [OF c(2) inv(2)] assms(1,2) by (simp add: closes_def vm_inv_def)
  moreover have "ClosePorts vm h = CloseAllPorts ?vm1 h" using assms(2) c(1) pm by (simp add: ClosePorts_def)
  moreover have "CloseAllPorts ?vm1 h = Some (?vm1\<lparr>vm_store := freed (set os \<union> set ns) (vm_store ?vm1),
      vm_handlers := (vm_handlers ?vm1)(h \<mapsto> mh\<lparr>live_ports := live, mh_queue := MessageQueue_new, mh_oob_queue := MessageQueue_new\<rparr>)\<rparr>)"
    by (rule Clear_queue_drops) (use assms(2-4) in \<open>simp_all add: set_handler_def\<close>)
  ultimately obtain vm' where "ClosePorts vm h = Some vm'" "vm_store vm' = freed (set os \<union> set ns) (vm_store vm)"
    "vm_handlers vm' = (vm_handlers vm)(h \<mapsto> mh\<lparr>live_ports := 0, mh_queue := MessageQueue_new, mh_oob_queue := MessageQueue_new\<rparr>)"
    by (simp add: set_handler_def)
  then show ?thesis using ClosePorts_inv [OF assms(1)] by (auto simp: MessageQueue_new_def)
qed

section \<open>What the message system guarantees\<close>

text \<open>C3: With the invariant of the system, posting a message to a port whose number is not negative delivers it to the handler of the port and
  nowhere else. If the port is open and the message is unlinked and not yet in a queue of the handler, it is appended to the queue of its priority of that handler, whose other queue stays as it is, every message and every link outside of these
  queues stays as it is, and the handler has a task if it runs on a thread pool. If the port is not open and the message
  has no delivery failure port, as its destructor asserts, the message is deleted and the sender is told.\<close>

theorem PostMessage_delivers:
  assumes "vm_inv vm" "vm_store vm msg = Some m" "0 \<le> dest_port m"
  shows "(open_ports (vm_ports vm) (dest_port m) = None \<longrightarrow> delivery_failure_port m = 0 \<longrightarrow>
      PortMap_PostMessage vm msg = Some (False, vm\<lparr>vm_store := (vm_store vm)(msg := None)\<rparr>))
    \<and> (\<forall>h s mh os ns. open_ports (vm_ports vm) (dest_port m) = Some (Handler h, s) \<longrightarrow> vm_handlers vm h = Some mh \<longrightarrow>
      mh_lists (vm_store vm) mh os ns \<longrightarrow> unlinked (vm_store vm) msg \<longrightarrow> msg \<notin> set os \<union> set ns \<longrightarrow>
      (\<exists>store mh'. PortMap_PostMessage vm msg = Some (True, vm\<lparr>vm_store := store, vm_handlers := (vm_handlers vm)(h \<mapsto> mh')\<rparr>)
        \<and> mh_lists store mh' (if priority m = kOOBPriority then os @ [msg] else os) (if priority m = kOOBPriority then ns else ns @ [msg])
        \<and> mh_task mh' = (mh_task mh \<or> mh_pool mh)
        \<and> same_messages (vm_store vm) store \<and> (\<forall>p. p \<notin> insert msg (set os \<union> set ns) \<longrightarrow> store p = vm_store vm p)))"
proof (intro conjI allI impI)
  have inv: "pm_inv (vm_ports vm)" using assms(1) by (simp add: vm_inv_def)
  show "PortMap_PostMessage vm msg = Some (False, vm\<lparr>vm_store := (vm_store vm)(msg := None)\<rparr>)"
    if "open_ports (vm_ports vm) (dest_port m) = None"
    using FindPort_closed [OF inv assms(3) that] assms(2) by (simp add: PortMap_PostMessage_def)
  fix h s mh os ns
  assume h: "open_ports (vm_ports vm) (dest_port m) = Some (Handler h, s)" "vm_handlers vm h = Some mh" "mh_lists (vm_store vm) mh os ns"
    "unlinked (vm_store vm) msg" "msg \<notin> set os \<union> set ns"
  obtain i where i: "FindPort (vm_ports vm) (dest_port m) = Some i" "0 \<le> i" "pe_handler (pm_map (vm_ports vm) ! nat i) = Handler h"
    by (rule FindPort_open [OF inv assms(3) h(1)])
  obtain store mh' where p: "MessageHandler_PostMessage vm h msg False = Some (vm\<lparr>vm_store := store, vm_handlers := (vm_handlers vm)(h \<mapsto> mh')\<rparr>)"
    "mh_lists store mh' (if priority m = kOOBPriority then os @ [msg] else os) (if priority m = kOOBPriority then ns else ns @ [msg])"
    "mh_task mh' = (mh_task mh \<or> mh_pool mh)" "relinks (insert msg (set os \<union> set ns)) (vm_store vm) store"
    using MessageHandler_PostMessage_spec [OF h(2,3) assms(2) h(4,5)] by blast
  have "PortMap_PostMessage vm msg = Some (True, vm\<lparr>vm_store := store, vm_handlers := (vm_handlers vm)(h \<mapsto> mh')\<rparr>)"
    using p(1) i assms(2) by (simp add: PortMap_PostMessage_def)
  then show "\<exists>store mh'. PortMap_PostMessage vm msg = Some (True, vm\<lparr>vm_store := store, vm_handlers := (vm_handlers vm)(h \<mapsto> mh')\<rparr>)
        \<and> mh_lists store mh' (if priority m = kOOBPriority then os @ [msg] else os) (if priority m = kOOBPriority then ns else ns @ [msg])
        \<and> mh_task mh' = (mh_task mh \<or> mh_pool mh)
        \<and> same_messages (vm_store vm) store \<and> (\<forall>p. p \<notin> insert msg (set os \<union> set ns) \<longrightarrow> store p = vm_store vm p)"
    using p(2-4) unfolding relinks_def by blast
qed

text \<open>A system with one live port, 5, of handler 4, and two loose messages to it.\<close>

definition sample_ports :: PortMap where
  "sample_ports = (PortMap_InitOnce 1)\<lparr>pm_map := (pm_map (PortMap_InitOnce 1))[5 := \<lparr>pe_port = 5, pe_handler = Handler 4, pe_state = kLivePort\<rparr>],
     pm_used := 1\<rparr>"

definition sample_vm :: VM where
  "sample_vm = \<lparr>vm_store = [9 \<mapsto> sample_message 0 5, 10 \<mapsto> (sample_message 0 5)\<lparr>priority := kOOBPriority\<rparr>],
     vm_handlers = [4 \<mapsto> (MessageHandler_new False)\<lparr>live_ports := 1, mh_pool := True\<rparr>], vm_ports = sample_ports\<rparr>"

lemma sample_open: "open_ports sample_ports = [5 \<mapsto> (Handler 4, kLivePort)]"
  by (simp add: open_ports_def sample_ports_def PortMap_InitOnce_def eval_nat_numeral pe_open_def)

lemma sample_ports_inv: "pm_inv sample_ports"
proof -
  let ?a = "pm_map (PortMap_InitOnce 1)" and ?e = "\<lparr>pe_port = 5, pe_handler = Handler 4, pe_state = kLivePort\<rparr>"
  have t: "port_table ?a" "entries pe_open ?a = {#}" using port_table_unused [of 8] entries_unused [of 8] by (simp_all add: PortMap_InitOnce_def)
  have ent: "entries pe_open (?a[5 := ?e]) = {#?e#}" using t(2)
    by (simp add: entries_update PortMap_InitOnce_def pe_open_def)
  have "chained pe_unused pe_open pe_home (?a[5 := ?e])"
  proof (rule pt.chained_update)
    show "chained pe_unused pe_open pe_home ?a" using t(1) by (simp add: port_table_def)
    have "length ?a = 8" by (simp add: PortMap_InitOnce_def)
    then show "5 < length ?a" "\<forall>c<length ?a. in_chain (length ?a) (pe_home (length ?a) ?e) 5 c \<longrightarrow> \<not> pe_unused (?a ! c)"
      by (simp_all add: in_chain_def pe_home_def)
  qed (simp add: pe_unused_def)
  moreover have "\<forall>x \<in> set (?a[5 := ?e]). pe_ok x"
    using t(1) set_update_subset_insert [of ?a 5 ?e] by (auto simp: port_table_def pe_ok_def)
  ultimately have "port_table (?a[5 := ?e])" by (simp add: port_table_def ent clash_free_def)
  moreover have "\<forall>x \<in> set (?a[5 := ?e]). pe_handler x \<noteq> DeletedEntry"
    using set_update_subset_insert [of ?a 5 ?e] by (auto simp: PortMap_InitOnce_def)
  then have "filter (\<lambda>e. pe_handler e = DeletedEntry) (?a[5 := ?e]) = []" by (simp only: filter_empty_conv)
  moreover have "length (?a[5 := ?e]) = 8" by (simp add: PortMap_InitOnce_def)
  moreover have "pm_map sample_ports = ?a[5 := ?e]" "pm_capacity sample_ports = 8" "pm_used sample_ports = 1" "pm_deleted sample_ports = 0"
    by (simp_all add: sample_ports_def PortMap_InitOnce_def)
  ultimately show ?thesis unfolding pm_inv_def pm_table_def using ent by simp
qed

lemma sample_inv: "vm_inv sample_vm"
  using sample_ports_inv by (auto simp: vm_inv_def sample_vm_def live_count_def sample_open split: if_splits)

theorem PostMessage_delivers_witness:
  "\<exists>store mh'. PortMap_PostMessage sample_vm 10 = Some (True, sample_vm\<lparr>vm_store := store, vm_handlers := (vm_handlers sample_vm)(4 \<mapsto> mh')\<rparr>)
     \<and> mh_lists store mh' [10] [] \<and> mh_task mh'"
proof -
  have s: "vm_store sample_vm 10 = Some ((sample_message 0 5)\<lparr>priority := kOOBPriority\<rparr>)"
    "vm_handlers sample_vm 4 = Some ((MessageHandler_new False)\<lparr>live_ports := 1, mh_pool := True\<rparr>)"
    "open_ports (vm_ports sample_vm) 5 = Some (Handler 4, kLivePort)" "unlinked (vm_store sample_vm) 10"
    "mh_lists (vm_store sample_vm) ((MessageHandler_new False)\<lparr>live_ports := 1, mh_pool := True\<rparr>) [] []"
    by (simp_all add: sample_vm_def sample_open unlinked_def sample_message_def mh_lists_def queue_list_def MessageHandler_new_def MessageQueue_new_def)
  have d: "dest_port ((sample_message 0 5)\<lparr>priority := kOOBPriority\<rparr>) = 5" by (simp add: sample_message_def)
  show ?thesis
    using PostMessage_delivers [OF sample_inv s(1), unfolded d, THEN conjunct2, rule_format, OF _ s(3,2,5,4)] by (auto simp: sample_message_def)
qed

text \<open>C4: The count of live ports of a handler is exact. In every state that creating handlers and messages, opening, marking and closing ports
  and posting messages can lead to, the counter of a handler is the number of ports that are open, belong to it and are marked live; so the
  handler is taken to have live ports exactly if there is one. The invariant of the port table holds in all of them.\<close>

theorem live_ports_exact:
  assumes "reachable vm" "vm_handlers vm h = Some mh"
  shows "live_ports mh = int (card {p. open_ports (vm_ports vm) p = Some (Handler h, kLivePort)})
    \<and> (0 < live_ports mh \<longleftrightarrow> (\<exists>p. open_ports (vm_ports vm) p = Some (Handler h, kLivePort))) \<and> pm_inv (vm_ports vm)"
proof -
  have "live_ports mh = int (card {p. open_ports (vm_ports vm) p = Some (Handler h, kLivePort)})" "pm_inv (vm_ports vm)"
    using reachable_inv [OF assms(1)] assms(2) by (auto simp: vm_inv_def live_count_def)
  then show ?thesis using finite_open [of "vm_ports vm" "(Handler h, kLivePort)"] by (auto simp: card_gt_0_iff)
qed

lemma SetPortState_returns:
  assumes "vm_inv vm" "0 \<le> p" "open_ports (vm_ports vm) p = Some (Handler h, kNewPort)" "vm_handlers vm h = Some mh"
  shows "\<exists>vm'. SetPortState vm p kLivePort = Some vm' \<and> vm_handlers vm' h = Some (mh\<lparr>live_ports := live_ports mh + 1\<rparr>)"
proof -
  have inv: "pm_inv (vm_ports vm)" using assms(1) by (simp add: vm_inv_def)
  obtain i where "FindPort (vm_ports vm) p = Some i" "0 \<le> i" "pe_handler (pm_map (vm_ports vm) ! nat i) = Handler h"
    by (rule FindPort_open [OF inv assms(2,3)])
  then show ?thesis using assms(4) by (simp add: SetPortState_def Let_def add_live_ports_def set_handler_def)
qed

text \<open>Handler 4 is created, opens the first port the generator gives, and marks it live.\<close>

lemma live_system: "\<exists>vm mh. reachable vm \<and> vm_handlers vm 4 = Some mh \<and> live_ports mh = 1"
proof -
  let ?vm0 = "\<lparr>vm_store = Map.empty, vm_handlers = Map.empty, vm_ports = PortMap_InitOnce 1\<rparr> :: VM"
  let ?vm1 = "set_handler ?vm0 4 (MessageHandler_new False)"
  have 1: "reachable ?vm1" by (intro reachable.intros) (simp_all add: InitOnce_inv)
  obtain pm where pm: "CreatePort (PortMap_InitOnce 1) 4 = Some (0x3fffda61, pm)" "open_ports pm = [0x3fffda61 \<mapsto> (Handler 4, kNewPort)]"
    using CreatePort_spec [OF InitOnce_inv(1) AllocatePort_init, of 4] InitOnce_inv(2) [of 1] by auto
  have 2: "reachable (?vm1\<lparr>vm_ports := pm\<rparr>)"
    by (rule reachable.create [OF 1, of 4 "0x3fffda61"]) (use pm(1) in \<open>simp add: set_handler_def\<close>)
  have "vm_handlers (?vm1\<lparr>vm_ports := pm\<rparr>) 4 = Some (MessageHandler_new False)" by (simp add: set_handler_def)
  from SetPortState_returns [OF reachable_inv [OF 2] _ _ this, of "0x3fffda61"] pm(2) obtain vm' where
    "SetPortState (?vm1\<lparr>vm_ports := pm\<rparr>) 0x3fffda61 kLivePort = Some vm'" "vm_handlers vm' 4 = Some ((MessageHandler_new False)\<lparr>live_ports := 1\<rparr>)"
    by (auto simp: MessageHandler_new_def)
  moreover from this(1) have "reachable vm'" by (rule reachable.mark [OF 2, rotated 2]) (use pm(2) in simp_all)
  ultimately show ?thesis by auto
qed

theorem live_ports_exact_witness:
  "\<exists>vm. reachable vm \<and> card {p. open_ports (vm_ports vm) p = Some (Handler 4, kLivePort)} = 1"
proof -
  obtain vm mh where "reachable vm" "vm_handlers vm 4 = Some mh" "live_ports mh = 1" using live_system by blast
  then show ?thesis using live_ports_exact [of vm 4 mh] by (intro exI [of _ vm]) auto
qed

text \<open>C8: Closing ports. Closing a port with a number that is not negative and that is not open reports this and changes nothing. Closing an open
  port, whose number is not negative, of a handler that the port table does not own removes exactly this port, counts it off if it was live, and leaves messages and queues as they are. Closing all ports of a
  handler whose messages have no delivery failure port removes exactly its ports, deletes exactly the messages in its
  two queues, and leaves it with empty queues and no live ports.\<close>

theorem closing_ports:
  assumes "vm_inv vm"
  shows "(\<forall>p \<ge> 0. open_ports (vm_ports vm) p = None \<longrightarrow> ClosePort vm p = Some (False, vm))
    \<and> (\<forall>p h s mh. 0 \<le> p \<longrightarrow> open_ports (vm_ports vm) p = Some (Handler h, s) \<longrightarrow> vm_handlers vm h = Some mh \<longrightarrow> \<not> OwnedByPortMap mh \<longrightarrow>
        (\<exists>pm. ClosePort vm p = Some (True, vm\<lparr>vm_ports := pm,
            vm_handlers := (vm_handlers vm)(h \<mapsto> mh\<lparr>live_ports := live_ports mh - (if s = kLivePort then 1 else 0)\<rparr>)\<rparr>)
          \<and> open_ports pm = (open_ports (vm_ports vm))(p := None)))
    \<and> (\<forall>h mh os ns. vm_handlers vm h = Some mh \<longrightarrow> mh_lists (vm_store vm) mh os ns \<longrightarrow>
        (\<forall>x \<in> set os \<union> set ns. \<forall>m. vm_store vm x = Some m \<longrightarrow> delivery_failure_port m = 0) \<longrightarrow>
        (\<exists>vm' mh'. ClosePorts vm h = Some vm'
          \<and> vm_store vm' = (\<lambda>x. if x \<in> set os \<union> set ns then None else vm_store vm x)
          \<and> vm_handlers vm' = (vm_handlers vm)(h \<mapsto> mh') \<and> q_head (mh_queue mh') = 0 \<and> q_head (mh_oob_queue mh') = 0 \<and> live_ports mh' = 0
          \<and> (\<forall>p. open_ports (vm_ports vm') p
              = (case open_ports (vm_ports vm) p of Some v \<Rightarrow> if fst v = Handler h then None else Some v | None \<Rightarrow> None))))"
proof (intro conjI allI impI)
  have inv: "pm_inv (vm_ports vm)" using assms by (simp add: vm_inv_def)
  show "ClosePort vm p = Some (False, vm)" if "0 \<le> p" "open_ports (vm_ports vm) p = None" for p
    using FindPort_closed [OF inv that] by (simp add: ClosePort_def)
qed (use ClosePort_spec [OF assms] ClosePorts_spec [OF assms] in \<open>simp_all add: freed_def\<close>)

theorem closing_ports_witness:
  "\<exists>pm. ClosePort sample_vm 5 = Some (True, sample_vm\<lparr>vm_ports := pm,
      vm_handlers := (vm_handlers sample_vm)(4 \<mapsto> (MessageHandler_new False)\<lparr>mh_pool := True\<rparr>)\<rparr>) \<and> open_ports pm = Map.empty"
proof -
  have s: "open_ports (vm_ports sample_vm) 5 = Some (Handler 4, kLivePort)" "open_ports (vm_ports sample_vm) = [5 \<mapsto> (Handler 4, kLivePort)]"
    "vm_handlers sample_vm 4 = Some ((MessageHandler_new False)\<lparr>live_ports := 1, mh_pool := True\<rparr>)"
    "\<not> OwnedByPortMap ((MessageHandler_new False)\<lparr>live_ports := 1, mh_pool := True\<rparr>)"
    by (simp_all add: sample_vm_def sample_open MessageHandler_new_def)
  have "\<exists>pm. ClosePort sample_vm 5 = Some (True, sample_vm\<lparr>vm_ports := pm, vm_handlers := (vm_handlers sample_vm)
      (4 \<mapsto> (MessageHandler_new False)\<lparr>live_ports := 1, mh_pool := True, live_ports := 1 - (if kLivePort = kLivePort then 1 else 0)\<rparr>)\<rparr>)
      \<and> open_ports pm = (open_ports (vm_ports sample_vm))(5 := None)"
    using closing_ports [OF sample_inv, THEN conjunct2, THEN conjunct1, rule_format, OF _ s(1,3,4)] by simp
  then show ?thesis unfolding s(2) by (simp add: MessageHandler_new_def)
qed

text \<open>C5: Messages are handled in order: all out-of-band messages first and then, where normal messages are allowed and the
  handler is not paused, the normal ones, or just the first of them, each queue first in first out. With a method that disposes of its message, handling
  always ends; it stops behind the first message whose method reports an error and tells so, it handles no message twice, and exactly the
  handled messages have left the queues.\<close>

theorem HandleMessages_in_order:
  assumes "vm_handlers vm h = Some mh" "mh_lists (vm_store vm) mh os ns" "queued_as (vm_store vm) kOOBPriority os"
    "queued_as (vm_store vm) kNormalPriority ns"
    "todo = os @ (if allow_normal \<and> \<not> mh_paused mh > 0 then if allow_multiple then ns else take 1 ns else [])"
  shows "\<exists>vm' mh'. HandleMessages (disposes ok) h allow_normal allow_multiple vm = Some (list_all ok todo, vm')
    \<and> vm_log vm' = vm_log vm @ upto_failure ok todo \<and> vm_handlers vm' h = Some mh'
    \<and> mh_lists (vm_store vm') mh' (drop (length (upto_failure ok todo)) os) (drop (length (upto_failure ok todo) - length os) ns)
    \<and> (\<forall>p. vm_store vm' p = (if p \<in> set (upto_failure ok todo) then None else vm_store vm p))"
proof -
  have "todo = to_handle allow_normal allow_multiple mh os ns" by (simp add: assms(5) to_handle_def)
  then show ?thesis using HandleMessages_order_aux [OF assms(1-4), of ok allow_normal allow_multiple] unfolding handles_def by simp
qed

definition sample_log :: LoggedVM where
  "sample_log = \<lparr>vm_store = [7 \<mapsto> sample_message 8 5, 8 \<mapsto> sample_message 0 5, 10 \<mapsto> (sample_message 0 5)\<lparr>priority := kOOBPriority\<rparr>],
     vm_handlers = [4 \<mapsto> (MessageHandler_new False)\<lparr>mh_queue := \<lparr>q_head = 7, q_tail = 8\<rparr>, mh_oob_queue := \<lparr>q_head = 10, q_tail = 10\<rparr>\<rparr>],
     vm_ports = sample_ports, vm_log = []\<rparr>"

theorem HandleMessages_in_order_witness:
  "\<exists>vm'. HandleMessages (disposes (\<lambda>m. m \<noteq> 7)) 4 True True sample_log = Some (False, vm') \<and> vm_log vm' = [10, 7]"
proof -
  let ?mh = "(MessageHandler_new False)\<lparr>mh_queue := \<lparr>q_head = 7, q_tail = 8\<rparr>, mh_oob_queue := \<lparr>q_head = 10, q_tail = 10\<rparr>\<rparr>"
  have s: "vm_handlers sample_log 4 = Some ?mh" "mh_lists (vm_store sample_log) ?mh [10] [7, 8]"
    "queued_as (vm_store sample_log) kOOBPriority [10]" "queued_as (vm_store sample_log) kNormalPriority [7, 8]"
    by (simp_all add: sample_log_def mh_lists_def queue_list_def queued_as_def sample_message_def MessageHandler_new_def)
  have p: "\<not> mh_paused ?mh > 0" by (simp add: MessageHandler_new_def)
  from HandleMessages_in_order [OF s refl, of "\<lambda>m. m \<noteq> 7" True True] p show ?thesis by (auto simp: sample_log_def)
qed

text \<open>C33: Clearing a queue may leave a dangling pointer. When the first of two messages has a delivery failure port that is open to another handler, with
  an empty queue, clearing posts it there with its link to the second message still set, and then deletes the second: the other
  handler's queue starts with a message whose successor is gone, it stands for no list of messages, and the dequeue after the next follows
  the dangling pointer.\<close>

theorem Clear_leaves_dangling_link:
  assumes "vm_inv vm" "vm_handlers vm h = Some mh" "queue_list (vm_store vm) (mh_queue mh) [x, y]" "vm_store vm x = Some m" "vm_store vm y = Some n"
    "priority m = kNormalPriority" "0 < delivery_failure_port m" "delivery_failure_port n = 0"
    "open_ports (vm_ports vm) (delivery_failure_port m) = Some (Handler k, s)" "k \<noteq> h" "vm_handlers vm k = Some mk" "q_head (mh_queue mk) = 0"
  shows "\<exists>vm' mk' q. Clear_queue vm h False = Some vm' \<and> vm_handlers vm' k = Some mk'
    \<and> (\<nexists>xs. queue_list (vm_store vm') (mh_queue mk') xs)
    \<and> Dequeue (vm_store vm') (mh_queue mk') = Some (x, q) \<and> q_head q = y \<and> Dequeue (vm_store vm') q = None"
proof -
  have l: "x \<noteq> 0" "y \<noteq> 0" "x \<noteq> y" "msg_next m = y" "msg_next n = 0" "q_head (mh_queue mh) = x"
    using assms(3-5) by (auto simp: queue_list_def)
  have inv: "pm_inv (vm_ports vm)" using assms(1) by (simp add: vm_inv_def)
  obtain i where i: "FindPort (vm_ports vm) (delivery_failure_port m) = Some i" "0 \<le> i" "pe_handler (pm_map (vm_ports vm) ! nat i) = Handler k"
    by (rule FindPort_open [OF inv _ assms(9)]) (use assms(7) in auto)
  define m' where "m' = m\<lparr>dest_port := delivery_failure_port m, delivery_failure_port := 0\<rparr>"
  define vm1 where "vm1 = set_handler vm h (mh\<lparr>mh_queue := MessageQueue_new\<rparr>)"
  define vm2 where "vm2 = vm1\<lparr>vm_store := (vm_store vm)(x \<mapsto> m')\<rparr>"
  define mk' where "mk' = (if mh_pool mk \<and> \<not> mh_task mk then mk\<lparr>mh_queue := \<lparr>q_head = x, q_tail = x\<rparr>, mh_task := True\<rparr> else mk\<lparr>mh_queue := \<lparr>q_head = x, q_tail = x\<rparr>\<rparr>)"
  define vm3 where "vm3 = set_handler vm2 k mk'"
  define vm4 where "vm4 = vm3\<lparr>vm_store := (vm_store vm)(x \<mapsto> m', y := None)\<rparr>"
  have "MessageHandler_PostMessage vm2 k x False = Some vm3"
    using assms(6,10-12) by (simp add: MessageHandler_PostMessage_def Enqueue_def vm3_def vm2_def vm1_def m'_def mk'_def set_handler_def)
  then have "PortMap_PostMessage vm2 x = Some (True, vm3)"
    using i by (simp add: PortMap_PostMessage_def vm2_def vm1_def m'_def set_handler_def)
  moreover have "RedirectToDeliveryFailurePort m = (True, m')" "RedirectToDeliveryFailurePort n = (False, n)"
    using assms(7,8) by (simp_all add: RedirectToDeliveryFailurePort_def m'_def)
  moreover have "vm_store vm1 x = Some m" "vm_store vm3 y = Some n" "vm1\<lparr>vm_store := (vm_store vm1)(x \<mapsto> m')\<rparr> = vm2"
    "vm3\<lparr>vm_store := (vm_store vm3)(y := None)\<rparr> = vm4"
    using assms(4,5) l(3) by (simp_all add: vm4_def vm3_def vm2_def vm1_def set_handler_def)
  ultimately have "Clear_loop vm1 x = Some vm4"
    using l by (subst Clear_loop.simps, simp) (subst Clear_loop.simps, simp add: Clear_loop.simps)
  then have "Clear_queue vm h False = Some vm4" using assms(2) l(6) by (simp add: Clear_queue_def vm1_def)
  moreover have "vm_handlers vm4 k = Some mk'" "vm_store vm4 x = Some m'" "vm_store vm4 y = None" "msg_next m' = y" "mh_queue mk' = \<lparr>q_head = x, q_tail = x\<rparr>"
    using l(3,4) by (simp_all add: vm4_def vm3_def set_handler_def m'_def mk'_def)
  moreover from this have "\<not> queue_list (vm_store vm4) (mh_queue mk') xs" for xs
    using l(1,2) by (cases xs; cases "tl xs") (auto simp: queue_list_def)
  ultimately show ?thesis using l(1,2) by (auto simp: Dequeue_def)
qed

text \<open>Handler 6 has two messages, the first of which names port 5 for the case that it cannot be delivered.\<close>

definition sample_failure :: VM where
  "sample_failure = \<lparr>vm_store = [7 \<mapsto> (sample_message 8 2)\<lparr>delivery_failure_port := 5\<rparr>, 8 \<mapsto> sample_message 0 2],
     vm_handlers = [4 \<mapsto> (MessageHandler_new False)\<lparr>live_ports := 1\<rparr>, 6 \<mapsto> (MessageHandler_new False)\<lparr>mh_queue := \<lparr>q_head = 7, q_tail = 8\<rparr>\<rparr>],
     vm_ports = sample_ports\<rparr>"

theorem Clear_leaves_dangling_link_witness:
  "\<exists>vm' mk' q. Clear_queue sample_failure 6 False = Some vm' \<and> vm_handlers vm' 4 = Some mk'
    \<and> (\<nexists>xs. queue_list (vm_store vm') (mh_queue mk') xs)
    \<and> Dequeue (vm_store vm') (mh_queue mk') = Some (7, q) \<and> q_head q = 8 \<and> Dequeue (vm_store vm') q = None"
proof (rule Clear_leaves_dangling_link [where m = "(sample_message 8 2)\<lparr>delivery_failure_port := 5\<rparr>" and n = "sample_message 0 2" and s = kLivePort
      and mh = "(MessageHandler_new False)\<lparr>mh_queue := \<lparr>q_head = 7, q_tail = 8\<rparr>\<rparr>" and mk = "(MessageHandler_new False)\<lparr>live_ports := 1\<rparr>"])
  show "vm_inv sample_failure"
    using sample_ports_inv by (auto simp: vm_inv_def sample_failure_def live_count_def sample_open MessageHandler_new_def split: if_splits)
qed (simp_all add: sample_failure_def sample_message_def sample_open MessageHandler_new_def MessageQueue_new_def queue_list_def)

end
