(* ===== verification/Spec2Isabelle.thy ===== *)
theory Spec2Isabelle
  imports Hash_Map Data_Stream Utf16_Correct Case_Mapping Mips_Labels Mips_Far Mips_Exclusive Mips_Arith Range_Sound Message_System
begin

text \<open>
  A verification library for the runtime of the Dart virtual machine, \<^verbatim>\<open>src/dart/runtime\<close>. It
  models the release build for 64-bit Linux; the MIPS assembler and simulator work on 32-bit words. File names below
  are relative to that directory.

  \<^bold>\<open>The parts and how they interact.\<close> Isolates send each other messages. A message is written to a
  data stream, posted to a port, found in the table of ports and appended to a queue of the port's message handler,
  which later handles it. Names and other strings are decoded and encoded as UTF-8 and UTF-16. The optimising compiler
  infers ranges of integers to drop overflow checks; the assembler turns its output into machine code, with labels,
  branches and fixups, and on a host with another processor the simulator runs that code. Hash tables and integer
  helpers serve all of them.

  \<^bold>\<open>Conventions.\<close> A definition has the name of the function it translates, with the class in front
  where names clash (\<open>MessageHandler_PostMessage\<close>, \<open>PortMap_PostMessage\<close>),
  \<open>asm_\<close> for the emitter and \<open>sim_\<close> for the simulated form of an instruction, and
  \<open>_imm\<close> for an overload with an immediate. A loop is a recursive definition \<open>f_loop\<close> beside
  the function \<open>f\<close>. Signed 64-bit integers are \<open>int\<close> with \<open>int64\<close> where the
  code can wrap; machine words are words of their width. An assertion of the code is a precondition: it is a
  hypothesis of the theorems that need it, or its failure is a value of the model. What cannot continue is
  \<open>None\<close> or a left value: an access outside of an array, a null or dangling pointer that is followed, an
  unimplemented instruction, an exhausted allocation, a loop that does not end.

  \<^bold>\<open>Shared theories.\<close> \<open>Prelude\<close> has the integer limits, the two's complement
  conversions and lemmas on lists and words. \<open>Probing\<close> is linear probing over the locale
  \<open>probe_table\<close> (search, chains of entries, insertion), interpreted for the hash map and for the table of
  ports. \<open>Keyed_Store\<close> is the contract of a table from keys to values (locale
  \<open>keyed_store\<close>), interpreted for the hash map. \<open>Serializer\<close> is the contract between a
  writer and a reader (locale \<open>serializer\<close>), interpreted for the data streams. The locales
  \<open>stored_queue\<close> in \<open>Message_Queue\<close> and \<open>range_transfer\<close> in
  \<open>Range_Sound\<close> are interpreted there for the queues and for the binary operations.

  \<^bold>\<open>Utilities.\<close> \<open>Dart_Utils\<close> models \<^verbatim>\<open>platform/utils.h\<close>,
  \<^verbatim>\<open>platform/utils.cc\<close> and \<^verbatim>\<open>platform/utils_linux.h\<close> without the byte
  order conversions and \<open>DoublesBitEqual\<close>; \<open>Bit_Field\<close> models
  \<^verbatim>\<open>vm/bitfield.h\<close>.

  \<^bold>\<open>Hash map.\<close> \<open>Hash_Map\<close> models \<^verbatim>\<open>platform/hashmap.h\<close> and
  \<^verbatim>\<open>platform/hashmap.cc\<close>: the state is a record with the slots, the capacity and the
  occupancy. Any sequence of insertions, with growth, and removals, with back shifting, acts as on a map (C1), and the
  iteration visits exactly the entries (C22).

  \<^bold>\<open>Data streams.\<close> \<open>Data_Stream\<close> models \<^verbatim>\<open>vm/datastream.h\<close>.
  Whatever is written is read back, across reallocations (C23); the unrolled readers agree with the loop (C24). The
  reallocation function of the caller is a parameter with the contract of \<open>realloc\<close> as its hypothesis.

  \<^bold>\<open>Unicode.\<close> \<open>Unicode\<close> models \<^verbatim>\<open>vm/unicode.h\<close>,
  \<^verbatim>\<open>vm/unicode.cc\<close> and the code point iterator of \<^verbatim>\<open>vm/object.h\<close> and
  \<^verbatim>\<open>vm/object.cc\<close>; \<open>Utf8_Bytes\<close> describes the byte sequences,
  \<open>Utf8_Correct\<close> shows the decoder and the validation exact (C26, C27), \<open>Utf16_Correct\<close> the
  round trip between the encodings (C25), the bounds of the decoders (C28) and an overrun (C29).
  \<open>Case_Mapping\<close> models the case mapping with the tables of \<^verbatim>\<open>vm/unicode_data.cc\<close>
  and shows which accesses stay within them (C30).

  \<^bold>\<open>Range analysis.\<close> \<open>Range_Analysis\<close> models boundaries, ranges and
  \<open>InferRangeHelper\<close> of \<^verbatim>\<open>vm/flow_graph_range_analysis.h\<close> and
  \<^verbatim>\<open>vm/flow_graph_range_analysis.cc\<close>. A definition of the flow graph is a number, and a record
  holds what the analysis reads of it. \<open>Range_Sound\<close> shows that ranges contain the values and that an
  operation said not to overflow does not (C2), when the bounds of symbolic boundaries return (C31), and where the
  analysis is wrong (C32). \<open>LowerBound\<close> and \<open>UpperBound\<close> are partial functions, since they
  follow ranges that may be cyclic.

  \<^bold>\<open>Messages and ports.\<close> \<open>Message_Queue\<close> models
  \<^verbatim>\<open>vm/message.h\<close> and \<^verbatim>\<open>vm/message.cc\<close> over a store of messages linked
  by addresses; queues refine lists (C7) and are first in first out (C34). \<open>Port_Map\<close> models
  \<^verbatim>\<open>vm/port.h\<close>, \<^verbatim>\<open>vm/port.cc\<close> and the generator of
  \<^verbatim>\<open>vm/random.cc\<close>: the table refines a map of open ports (C6), creating a port returns (C35),
  the generator is exact (C37), and a search for a negative port fails (C36). \<open>Message_Handler\<close> models
  \<^verbatim>\<open>vm/message_handler.h\<close>, \<^verbatim>\<open>vm/message_handler.cc\<close> and the operations
  on ports that involve handlers. \<open>Message_Delivery\<close> and \<open>Message_System\<close> show where a
  posted message goes (C3), that the count of live ports is exact in every reachable state (C4), the order of handling
  (C5), what closing ports does (C8), and a link that clearing a queue leaves behind (C33). An operation holds the
  lock of the table or of its handler throughout, so it is one step. The method \<open>HandleMessage\<close> of a
  handler is a parameter.

  \<^bold>\<open>MIPS.\<close> \<open>Mips_Instr\<close> models \<^verbatim>\<open>vm/constants_mips.h\<close>;
  \<open>Mips_Assembler\<close> and \<open>Mips_Macros\<close> model \<^verbatim>\<open>vm/assembler_mips.h\<close>,
  \<^verbatim>\<open>vm/assembler_mips.cc\<close> and the buffer of \<^verbatim>\<open>vm/assembler.h\<close>;
  \<open>Mips_Simulator\<close> models \<^verbatim>\<open>vm/simulator_mips.h\<close> and
  \<^verbatim>\<open>vm/simulator_mips.cc\<close>. The host of the simulator (floating point arithmetic, redirected
  calls, the debugger) is a parameter, a record of functions. \<open>Mips_Memory\<close> and \<open>Mips_Exec\<close>
  are the rules for running emitted code; \<open>runs\<close> says that some number of steps of the dispatch loop lead
  from one state to another. \<open>Mips_Correct\<close> verifies the loading of immediates (C17) and the arithmetic
  with overflow detection (C15, C16); \<open>Mips_Arith\<close> verifies multiplication and division (C20) and the
  loops that count leading bits (C21). \<open>Mips_Chain\<close> is the chain of branches to an unbound label and its
  resolution. \<open>Mips_Branch\<close> verifies the conditional branches and the filters of the write barrier (C9,
  C10, C11), for labels bound before and after: \<open>branches_iff\<close> is the contract that composes,
  \<open>jumps_iff\<close> what follows for code in memory. \<open>Mips_Labels\<close> verifies \<open>Bind\<close>
  for all code without far branches (C12), \<open>Mips_Far\<close> the far branches to bound labels (C13, C18),
  \<open>Mips_Exclusive\<close> the monitor of exclusive accesses under every interleaving (C14, C19).

  \<^bold>\<open>Bounds and fuel.\<close> The loops of \<open>CLO\<close> and \<open>CLZ\<close> take a number of
  iterations; C21 shows that any number from 32 on gives the same result. The depth of the recursion of
  \<open>Lookup\<close> through \<open>Resize\<close> is bounded by 1; C1 shows that it is enough, since a table of
  twice the size is not full again while it is filled. The other loops that may not end are partial functions, among
  them the probing loop of both tables, \<open>Execute\<close>, \<open>Bind_loop\<close>, \<open>AllocatePort\<close>
  and the loops over linked messages; where a theorem says that an operation returns, it is shown to be
  \<open>Some\<close>.

  \<^bold>\<open>Not modelled.\<close> The scanner and parser, the passes of the compiler on the intermediate
  language, the object model with the garbage collector and snapshots, isolates with their threads and locks, the
  embedding interface and natives, the debugger, profiler and service, regular expressions, the assemblers and
  simulators of other processors, the stubs and code generators for MIPS, and the standalone embedder: they depend on
  the layout of every heap object or on the operating system. Of the assembler, the macros that embed heap objects or
  use the object pool are left out; of the simulator, its debugger and the tracing output; of the message handlers,
  the task of the thread pool with its callbacks and pause flags; of the range analysis, the passes over the flow
  graph and the joins and intersections of ranges. \<open>Bind\<close> in the far mode is translated and not verified.
\<close>

end
